(* ===== verification/Prelude.thy ===== *)
theory Prelude
  imports Main "HOL-Library.Word" "HOL-Library.List_Lexorder" "HOL-Library.Char_ord"
begin

text \<open>
  The vocabulary every component shares: the machine types of the C++ sources, the exceptions
  they throw, the exception-and-state monad in which their statements are written, and the
  weakest-precondition calculus used to reason about it.

  A C++ statement sequence over a mutable object is a function of type \<open>('s, 'a) io\<close>: it takes
  the object's state and returns either an exception or a result, together with the state at the
  point where it stopped. A thrown exception keeps the state reached so far, as in C++: undoing
  the writes of a failed transaction is the caller's explicit rollback, never an effect of the
  monad.
\<close>

section \<open>Machine types\<close>

type_synonym u8 = "8 word"
type_synonym u16 = "16 word"
type_synonym u32 = "32 word"
type_synonym u64 = "64 word"

text \<open>A \<open>std::vector<std::uint8_t>\<close> and a \<open>std::array<std::uint8_t, 16>\<close> are byte lists.\<close>

type_synonym bytes = "u8 list"
type_synonym node_id = bytes
type_synonym db_id = bytes

text \<open>
  Return codes of libmdbx that the sources distinguish; every other code is
  \<open>MDBX_ERRNO\<close> with its number.
\<close>

datatype mdbx_rc =
    MDBX_SUCCESS | MDBX_NOTFOUND | MDBX_KEYEXIST | MDBX_EACCESS | MDBX_INCOMPATIBLE
  | MDBX_EINVAL | MDBX_BUSY | MDBX_THREAD_MISMATCH | MDBX_ERRNO int

text \<open>
  The exceptions of the sources: \<open>MdbxException\<close> with its context and error code, and the
  standard exception classes with their messages. \<open>LoopBound\<close> is not thrown by the C++ code: it
  marks a cursor walk of the model that used up its iteration bound.
\<close>

datatype exn =
    MdbxException string mdbx_rc
  | RuntimeError string
  | LogicError string
  | LengthError string
  | InvalidArgument string
  | LoopBound

section \<open>Named collections\<close>

named_theorems run_simps \<open>results of the monad's primitives on a state\<close>
named_theorems wp_simps \<open>weakest preconditions of the monad's combinators\<close>
named_theorems reads_intros \<open>what a reader accepts, for the reader combinators\<close>
named_theorems keeps_intros \<open>computations that preserve a state predicate\<close>

section \<open>The monad\<close>

type_synonym ('s, 'a) io = "'s \<Rightarrow> (exn + 'a) \<times> 's"

definition ret :: "'a \<Rightarrow> ('s, 'a) io" where
  "ret a s = (Inr a, s)"

definition throw :: "exn \<Rightarrow> ('s, 'a) io" where
  "throw e s = (Inl e, s)"

definition bindM :: "('s, 'a) io \<Rightarrow> ('a \<Rightarrow> ('s, 'b) io) \<Rightarrow> ('s, 'b) io" where
  "bindM m f s = (case m s of (r, s') \<Rightarrow> (case r of Inl e \<Rightarrow> (Inl e, s') | Inr a \<Rightarrow> f a s'))"

text \<open>The call of a pure function that may throw.\<close>

definition liftE :: "exn + 'a \<Rightarrow> ('s, 'a) io" where
  "liftE r = (case r of Inl e \<Rightarrow> throw e | Inr x \<Rightarrow> ret x)"

text \<open>Sequencing of two statements whose first result is not used.\<close>

definition thenM :: "('s, 'a) io \<Rightarrow> ('s, 'b) io \<Rightarrow> ('s, 'b) io" where
  "thenM m k = bindM m (\<lambda>_. k)"

definition getM :: "('s, 's) io" where
  "getM s = (Inr s, s)"

definition putM :: "'s \<Rightarrow> ('s, unit) io" where
  "putM s' s = (Inr (), s')"

text \<open>A \<open>try\<close> block with a \<open>catch (...)\<close> handler.\<close>

definition catchM :: "('s, 'a) io \<Rightarrow> (exn \<Rightarrow> ('s, 'a) io) \<Rightarrow> ('s, 'a) io" where
  "catchM m h s = (case m s of (r, s') \<Rightarrow> (case r of Inl e \<Rightarrow> h e s' | Inr a \<Rightarrow> (Inr a, s')))"

text \<open>A range-based \<open>for\<close> loop that carries a local variable.\<close>

fun foldM :: "('a \<Rightarrow> 'b \<Rightarrow> ('s, 'b) io) \<Rightarrow> 'a list \<Rightarrow> 'b \<Rightarrow> ('s, 'b) io" where
  "foldM f [] b = ret b"
| "foldM f (x # xs) b = bindM (f x b) (foldM f xs)"

text \<open>A counted \<open>for\<close> loop that collects its results.\<close>

fun repeatM :: "nat \<Rightarrow> ('s, 'a) io \<Rightarrow> ('s, 'a list) io" where
  "repeatM 0 m = ret []"
| "repeatM (Suc n) m = bindM m (\<lambda>x. bindM (repeatM n m) (\<lambda>xs. ret (x # xs)))"

lemma ret_apply [run_simps]: "ret a s = (Inr a, s)"
  by (simp add: ret_def)

lemma throw_apply [run_simps]: "throw e s = (Inl e, s)"
  by (simp add: throw_def)

lemma getM_apply [run_simps]: "getM s = (Inr s, s)"
  by (simp add: getM_def)

lemma putM_apply [run_simps]: "putM s' s = (Inr (), s')"
  by (simp add: putM_def)

lemma bindM_Inr [simp]: "m s = (Inr a, s') \<Longrightarrow> bindM m f s = f a s'"
  by (simp add: bindM_def)

lemma bindM_Inl [simp]: "m s = (Inl e, s') \<Longrightarrow> bindM m f s = (Inl e, s')"
  by (simp add: bindM_def)

lemma bindM_ret [simp]: "bindM (ret a) f = f a"
  by (rule ext) (simp add: bindM_def run_simps)

lemma bindM_throw [simp]: "bindM (throw e) f = throw e"
  by (rule ext) (simp add: bindM_def run_simps)

lemma bindM_assoc: "bindM (bindM m f) g = bindM m (\<lambda>a. bindM (f a) g)"
  by (rule ext) (simp add: bindM_def split: prod.split sum.split)

lemma bindM_eq_Inr:
  "bindM m f s = (Inr b, s'') \<longleftrightarrow> (\<exists>a s'. m s = (Inr a, s') \<and> f a s' = (Inr b, s''))"
  by (auto simp: bindM_def split: prod.splits sum.splits)

lemma if_io [simp]: "(if c then m else k) s = (if c then m s else k s)"
  by simp

section \<open>Weakest preconditions\<close>

text \<open>
  \<open>wp m Q E s\<close> holds when \<open>m\<close>, started in \<open>s\<close>, either returns a result and state that satisfy
  \<open>Q\<close> or throws an exception in a state that satisfies \<open>E\<close>.
\<close>

definition wp :: "('s, 'a) io \<Rightarrow> ('a \<Rightarrow> 's \<Rightarrow> bool) \<Rightarrow> (exn \<Rightarrow> 's \<Rightarrow> bool) \<Rightarrow> 's \<Rightarrow> bool" where
  "wp m Q E s \<longleftrightarrow> (case m s of (r, s') \<Rightarrow> (case r of Inl e \<Rightarrow> E e s' | Inr a \<Rightarrow> Q a s'))"

lemma wp_ret [wp_simps]: "wp (ret a) Q E s = Q a s"
  by (simp add: wp_def run_simps)

lemma wp_throw [wp_simps]: "wp (throw e) Q E s = E e s"
  by (simp add: wp_def run_simps)

lemma wp_getM [wp_simps]: "wp getM Q E s = Q s s"
  by (simp add: wp_def run_simps)

lemma wp_putM [wp_simps]: "wp (putM s') Q E s = Q () s'"
  by (simp add: wp_def run_simps)

lemma wp_bindM [wp_simps]: "wp (bindM m f) Q E s = wp m (\<lambda>a. wp (f a) Q E) E s"
  by (simp add: wp_def bindM_def split: prod.split sum.split)

lemma wp_thenM [wp_simps]: "wp (thenM m k) Q E s = wp m (\<lambda>_. wp k Q E) E s"
  by (simp add: thenM_def wp_bindM)

lemma wp_catchM [wp_simps]: "wp (catchM m h) Q E s = wp m Q (\<lambda>e. wp (h e) Q E) s"
  by (simp add: wp_def catchM_def split: prod.split sum.split)

lemma wp_if [wp_simps]: "wp (if c then m else k) Q E s = (if c then wp m Q E s else wp k Q E s)"
  by simp

lemma wp_option [wp_simps]:
  "wp (case x of None \<Rightarrow> m | Some a \<Rightarrow> k a) Q E s =
    (case x of None \<Rightarrow> wp m Q E s | Some a \<Rightarrow> wp (k a) Q E s)"
  by (simp split: option.split)

lemma wp_mono:
  assumes "wp m Q E s"
    and "\<And>a s'. m s = (Inr a, s') \<Longrightarrow> Q a s' \<Longrightarrow> Q' a s'"
    and "\<And>e s'. m s = (Inl e, s') \<Longrightarrow> E e s' \<Longrightarrow> E' e s'"
  shows "wp m Q' E' s"
  using assms by (auto simp: wp_def split: prod.splits sum.splits)

lemma wp_conseq:
  assumes "wp m Q E s" and "\<And>a s'. Q a s' \<Longrightarrow> Q' a s'" and "\<And>e s'. E e s' \<Longrightarrow> E' e s'"
  shows "wp m Q' E' s"
  using assms(1) by (rule wp_mono) (use assms(2,3) in auto)

lemma wp_conj:
  "wp m Q E s \<Longrightarrow> wp m Q' E' s \<Longrightarrow> wp m (\<lambda>a t. Q a t \<and> Q' a t) (\<lambda>e t. E e t \<and> E' e t) s"
  by (auto simp: wp_def split: prod.splits sum.splits)

lemma wp_InrD: "wp m Q E s \<Longrightarrow> m s = (Inr a, s') \<Longrightarrow> Q a s'"
  by (simp add: wp_def)

lemma wp_InlD: "wp m Q E s \<Longrightarrow> m s = (Inl e, s') \<Longrightarrow> E e s'"
  by (simp add: wp_def)

lemma wp_iff: "wp m Q E s \<longleftrightarrow>
    (\<forall>a s'. m s = (Inr a, s') \<longrightarrow> Q a s') \<and> (\<forall>e s'. m s = (Inl e, s') \<longrightarrow> E e s')"
  by (auto simp: wp_def split: prod.splits sum.splits)

lemma wp_foldM:
  assumes inv: "I xs b s"
    and step: "\<And>x xs b s. I (x # xs) b s \<Longrightarrow> wp (f x b) (I xs) E s"
    and fin: "\<And>b s. I [] b s \<Longrightarrow> Q b s"
  shows "wp (foldM f xs b) Q E s"
  using inv
proof (induction xs arbitrary: b s)
  case Nil
  then show ?case by (simp add: wp_simps fin)
next
  case (Cons x xs)
  show ?case
    by (simp add: wp_bindM) (rule wp_conseq [OF step [OF Cons.prems]], auto intro: Cons.IH)
qed

section \<open>Computations that keep a state predicate\<close>

text \<open>
  \<open>keeps P m\<close>: whatever \<open>m\<close> does, return or throw, the relation \<open>P\<close> holds between the state
  before and the state after.
\<close>

definition keeps :: "('s \<Rightarrow> 's \<Rightarrow> bool) \<Rightarrow> ('s, 'a) io \<Rightarrow> bool" where
  "keeps P m \<longleftrightarrow> (\<forall>s. P s (snd (m s)))"

lemma keepsI: "(\<And>s. P s (snd (m s))) \<Longrightarrow> keeps P m"
  by (simp add: keeps_def)

lemma keepsD: "keeps P m \<Longrightarrow> m s = (r, s') \<Longrightarrow> P s s'"
  by (metis keeps_def snd_conv)

lemma keeps_ret [keeps_intros]: "reflp P \<Longrightarrow> keeps P (ret a)"
  by (simp add: keeps_def reflp_def run_simps)

lemma keeps_throw [keeps_intros]: "reflp P \<Longrightarrow> keeps P (throw e)"
  by (simp add: keeps_def reflp_def run_simps)

lemma keeps_getM [keeps_intros]: "reflp P \<Longrightarrow> keeps P getM"
  by (simp add: keeps_def reflp_def run_simps)

lemma keeps_bindM [keeps_intros]:
  assumes "transp P" and "keeps P m" and "\<And>a. keeps P (f a)"
  shows "keeps P (bindM m f)"
proof (rule keepsI)
  fix s
  obtain r s' where m: "m s = (r, s')" by (cases "m s")
  with assms(2) have "P s s'" by (rule keepsD)
  with m assms(1,3) show "P s (snd (bindM m f s))"
    by (cases r) (auto simp: keeps_def dest: transpD)
qed

lemma keeps_if [keeps_intros]: "keeps P m \<Longrightarrow> keeps P k \<Longrightarrow> keeps P (if c then m else k)"
  by simp

lemma keeps_foldM [keeps_intros]:
  assumes "reflp P" and "transp P" and "\<And>x b. keeps P (f x b)"
  shows "keeps P (foldM f xs b)"
  using assms by (induction xs arbitrary: b) (auto intro!: keeps_intros)

section \<open>Lists\<close>

lemma take_drop_append [simp]:
  "take (length ys) (drop (length xs) (xs @ ys @ zs)) = ys"
  by simp

lemma map_eq_iff_inj: "inj f \<Longrightarrow> map f xs = map f ys \<longleftrightarrow> xs = ys"
  by (simp add: inj_map_eq_map)

lemma append_eq_same_length:
  "length xs = length xs' \<Longrightarrow> xs @ ys = xs' @ ys' \<longleftrightarrow> xs = xs' \<and> ys = ys'"
  by simp

text \<open>Lexicographic order of byte lists: a common prefix does not matter.\<close>

lemma list_less_append_same [simp]:
  fixes xs ys zs :: "'a :: linorder list"
  shows "xs @ ys < xs @ zs \<longleftrightarrow> ys < zs"
  by (induction xs) auto

lemma list_less_append_prefix:
  fixes xs ys zs ws :: "'a :: linorder list"
  assumes "length xs = length ys"
  shows "xs @ zs < ys @ ws \<longleftrightarrow> xs < ys \<or> xs = ys \<and> zs < ws"
  using assms by (induction xs ys rule: list_induct2) auto

end
