(* ===== verification/Bytes.thy ===== *)
theory Bytes
  imports Prelude
begin

unbundle bit_operations_syntax

text \<open>
  The byte-level helpers of \<^verbatim>\<open>include/mdbx_containers/sync/common.hpp\<close>: node identifiers and
  their order, the FNV-1a hash, and the fixed-width little- and big-endian integer encodings; and
  the contract of a bounds-checked reader, on which every wire codec of the library is proved.
\<close>

section \<open>Node identifiers\<close>

definition make_zero_node :: node_id where
  "make_zero_node = replicate 16 0"

definition make_node_id :: "bytes \<Rightarrow> node_id" where
  "make_node_id bs = take 16 bs"

text \<open>The loop over both arrays stops at the first difference.\<close>

fun compare_node_id :: "node_id \<Rightarrow> node_id \<Rightarrow> int" where
  "compare_node_id (x # a) (y # b) =
     (if x \<noteq> y then (if x < y then -1 else 1) else compare_node_id a b)"
| "compare_node_id _ _ = 0"

definition is_zero_sync_id :: "node_id \<Rightarrow> bool" where
  "is_zero_sync_id i \<longleftrightarrow> compare_node_id i make_zero_node = 0"

text \<open>A \<open>std::array<std::uint8_t, 16>\<close> holds sixteen bytes.\<close>

definition is_node_id :: "bytes \<Rightarrow> bool" where
  "is_node_id i \<longleftrightarrow> length i = 16"

lemma is_node_id_length [simp]: "is_node_id i \<Longrightarrow> length i = 16"
  by (simp add: is_node_id_def)

lemma make_zero_node_id [simp]: "is_node_id make_zero_node"
  by (simp add: is_node_id_def make_zero_node_def)

lemma compare_node_id_less: "length a = length b \<Longrightarrow> compare_node_id a b < 0 \<longleftrightarrow> a < b"
  by (induction a b rule: compare_node_id.induct) auto

lemma compare_node_id_eq: "length a = length b \<Longrightarrow> compare_node_id a b = 0 \<longleftrightarrow> a = b"
  by (induction a b rule: compare_node_id.induct) auto

lemma compare_node_id_le: "length a = length b \<Longrightarrow> compare_node_id a b \<le> 0 \<longleftrightarrow> a \<le> b"
  using compare_node_id_less [of a b] compare_node_id_eq [of a b] by force

lemma is_zero_sync_id_iff: "is_node_id i \<Longrightarrow> is_zero_sync_id i \<longleftrightarrow> i = make_zero_node"
  by (simp add: is_zero_sync_id_def compare_node_id_eq is_node_id_def make_zero_node_def)

section \<open>Strings as bytes\<close>

text \<open>A \<open>std::string\<close> is a sequence of bytes; \<open>static_cast\<close> to \<open>std::uint8_t\<close> reads one.\<close>

definition byte_of_char :: "char \<Rightarrow> u8" where
  "byte_of_char c = word_of_nat (of_char c)"

definition char_of_byte :: "u8 \<Rightarrow> char" where
  "char_of_byte b = char_of (unat b)"

definition bytes_of_string :: "string \<Rightarrow> bytes" where
  "bytes_of_string = map byte_of_char"

definition string_of_bytes :: "bytes \<Rightarrow> string" where
  "string_of_bytes = map char_of_byte"

lemma char_of_byte_of_char [simp]: "char_of_byte (byte_of_char c) = c"
proof -
  have "of_char c < (256 :: nat)" by simp
  then have "unat (word_of_nat (of_char c) :: u8) = of_char c"
    by (simp add: unat_of_nat take_bit_nat_eq_self)
  then show ?thesis by (simp add: char_of_byte_def byte_of_char_def)
qed

lemma string_of_bytes_of_string [simp]: "string_of_bytes (bytes_of_string s) = s"
  by (simp add: string_of_bytes_def bytes_of_string_def comp_def)

lemma byte_of_char_of_byte [simp]: "byte_of_char (char_of_byte b) = b"
proof -
  have "unat b < 256" using unsigned_less [of b] by simp
  then show ?thesis by (simp add: byte_of_char_def char_of_byte_def of_char_of)
qed

lemma bytes_of_string_of_bytes [simp]: "bytes_of_string (string_of_bytes bs) = bs"
  by (simp add: bytes_of_string_def string_of_bytes_def comp_def)

lemma length_bytes_of_string [simp]: "length (bytes_of_string s) = length s"
  by (simp add: bytes_of_string_def)

lemma length_string_of_bytes [simp]: "length (string_of_bytes s) = length s"
  by (simp add: string_of_bytes_def)

lemma bytes_of_string_Nil [simp]: "bytes_of_string [] = []"
  by (simp add: bytes_of_string_def)

lemma string_of_bytes_Nil [simp]: "string_of_bytes [] = []"
  by (simp add: string_of_bytes_def)

lemma inj_bytes_of_string: "inj bytes_of_string"
  by (metis injI string_of_bytes_of_string)

lemma bytes_of_string_eq [simp]: "bytes_of_string s = bytes_of_string t \<longleftrightarrow> s = t"
  by (metis string_of_bytes_of_string)

definition fnv1a_64 :: "string \<Rightarrow> u64" where
  "fnv1a_64 s =
     fold (\<lambda>c h. (h XOR ucast (byte_of_char c)) * 0x100000001b3) s 0xcbf29ce484222325"

section \<open>Fixed-width integers\<close>

definition write_u16_le :: "u16 \<Rightarrow> bytes" where
  "write_u16_le v = [ucast (v AND 0xff), ucast (drop_bit 8 v AND 0xff)]"

definition write_u32_le :: "u32 \<Rightarrow> bytes" where
  "write_u32_le v =
     [ucast (v AND 0xff), ucast (drop_bit 8 v AND 0xff),
      ucast (drop_bit 16 v AND 0xff), ucast (drop_bit 24 v AND 0xff)]"

definition write_u64_le :: "u64 \<Rightarrow> bytes" where
  "write_u64_le v = map (\<lambda>i. ucast (drop_bit (i * 8) v AND 0xff)) [0..<8]"

definition write_u64_be :: "u64 \<Rightarrow> bytes" where
  "write_u64_be v = map (\<lambda>i. ucast (drop_bit ((7 - i) * 8) v AND 0xff)) [0..<8]"

definition read_u16_le :: "bytes \<Rightarrow> u16" where
  "read_u16_le bs = ucast (bs ! 0) OR push_bit 8 (ucast (bs ! 1))"

definition read_u32_le :: "bytes \<Rightarrow> u32" where
  "read_u32_le bs =
     ucast (bs ! 0) OR push_bit 8 (ucast (bs ! 1)) OR
     push_bit 16 (ucast (bs ! 2)) OR push_bit 24 (ucast (bs ! 3))"

definition read_u64_le :: "bytes \<Rightarrow> u64" where
  "read_u64_le bs = fold (\<lambda>i out. out OR push_bit (i * 8) (ucast (bs ! i))) [0..<8] 0"

definition read_u64_be :: "bytes \<Rightarrow> u64" where
  "read_u64_be bs = fold (\<lambda>i out. push_bit 8 out OR ucast (bs ! i)) [0..<8] 0"

definition append_u16_le :: "bytes \<Rightarrow> u16 \<Rightarrow> bytes" where
  "append_u16_le out v = out @ write_u16_le v"

definition append_u32_le :: "bytes \<Rightarrow> u32 \<Rightarrow> bytes" where
  "append_u32_le out v = out @ write_u32_le v"

definition append_u64_le :: "bytes \<Rightarrow> u64 \<Rightarrow> bytes" where
  "append_u64_le out v = out @ write_u64_le v"

definition append_u64_be :: "bytes \<Rightarrow> u64 \<Rightarrow> bytes" where
  "append_u64_be out v = out @ write_u64_be v"

lemmas append_int_defs = append_u16_le_def append_u32_le_def append_u64_le_def append_u64_be_def

lemma upt_0_8: "[0..<8] = [0, 1, 2, 3, 4, 5, 6, 7 :: nat]"
  by (simp add: upt_rec)

lemma length_write_u16_le [simp]: "length (write_u16_le v) = 2"
  by (simp add: write_u16_le_def)

lemma length_write_u32_le [simp]: "length (write_u32_le v) = 4"
  by (simp add: write_u32_le_def)

lemma length_write_u64_le [simp]: "length (write_u64_le v) = 8"
  by (simp add: write_u64_le_def)

lemma length_write_u64_be [simp]: "length (write_u64_be v) = 8"
  by (simp add: write_u64_be_def)

text \<open>
  The byte of \<open>v\<close> that starts at bit \<open>k\<close>, put back at its place, is \<open>v\<close> restricted to those
  eight bits.
\<close>

lemma and_255: "(v :: 'a :: len word) AND 0xff = take_bit 8 v"
proof -
  have "v AND mask 8 = take_bit 8 v" by (simp add: take_bit_eq_mask)
  then show ?thesis by (simp add: mask_numeral)
qed

lemma low_byte [simp]: "(ucast ((v :: 'a :: len word) AND 0xff) :: u8) = ucast v"
  by (rule bit_word_eqI) (auto simp: and_255 bit_simps)

lemma bit_slice:
  "bit (push_bit k (ucast (ucast (drop_bit k (v :: 'a :: len word)) :: u8)) :: 'a word) n
     \<longleftrightarrow> k \<le> n \<and> n < k + 8 \<and> bit v n"
  by (auto simp: bit_simps dest: bit_imp_le_length)

lemma bit_slice_0:
  "bit (ucast (ucast (v :: 'a :: len word) :: u8) :: 'a word) n \<longleftrightarrow> n < 8 \<and> bit v n"
  using bit_slice [of 0 v n] by simp

lemma read_write_u16_le [simp]: "read_u16_le (write_u16_le v) = v"
  unfolding read_u16_le_def write_u16_le_def
  by (rule bit_word_eqI) (auto simp: bit_or_iff bit_slice bit_slice_0)

lemma read_write_u32_le [simp]: "read_u32_le (write_u32_le v) = v"
  unfolding read_u32_le_def write_u32_le_def
  by (rule bit_word_eqI)
    (auto simp: bit_or_iff bit_slice bit_slice_0 numeral_2_eq_2 numeral_3_eq_3)

lemma read_write_u64_le [simp]: "read_u64_le (write_u64_le v) = v"
  unfolding read_u64_le_def write_u64_le_def
  by (rule bit_word_eqI) (auto simp: upt_0_8 bit_or_iff bit_slice bit_slice_0)

lemma read_write_u64_be [simp]: "read_u64_be (write_u64_be v) = v"
  unfolding read_u64_be_def write_u64_be_def
  by (rule bit_word_eqI)
    (auto simp: upt_0_8 push_bit_or push_bit_push_bit bit_or_iff bit_slice bit_slice_0)

text \<open>The number a big-endian byte list denotes.\<close>

definition be_val :: "bytes \<Rightarrow> nat" where
  "be_val bs = foldl (\<lambda>n b. n * 256 + unat b) 0 bs"

lemma be_val_snoc: "be_val (bs @ [b]) = be_val bs * 256 + unat b"
  by (simp add: be_val_def)

lemma foldl_be_val: "foldl (\<lambda>n b. n * 256 + unat (b :: u8)) n bs = n * 256 ^ length bs + be_val bs"
proof (induction bs arbitrary: n rule: rev_induct)
  case (snoc b bs)
  then show ?case by (simp add: be_val_snoc algebra_simps)
qed (simp add: be_val_def)

lemma be_val_Cons: "be_val (b # bs) = unat b * 256 ^ length bs + be_val bs"
  using foldl_be_val [of "unat b" bs] by (simp add: be_val_def)

lemma be_val_bound: "be_val bs < 256 ^ length bs"
proof (induction bs rule: rev_induct)
  case (snoc b bs)
  have "unat b < 256" using unsigned_less [of b] by simp
  with snoc show ?case by (simp add: be_val_snoc)
qed (simp add: be_val_def)

lemma digit_less:
  fixes a b m :: nat
  assumes "x < m" "y < m"
  shows "a * m + x < b * m + y \<longleftrightarrow> a < b \<or> a = b \<and> x < y"
proof -
  have "a < b \<Longrightarrow> a * m + x < b * m + y"
  proof -
    assume "a < b"
    then have "Suc a * m \<le> b * m" by (intro mult_le_mono) auto
    with assms(1) show ?thesis by simp
  qed
  moreover have "b < a \<Longrightarrow> \<not> a * m + x < b * m + y"
  proof -
    assume "b < a"
    then have "Suc b * m \<le> a * m" by (intro mult_le_mono) auto
    with assms(2) show ?thesis by simp
  qed
  ultimately show ?thesis by (cases a b rule: linorder_cases) auto
qed

lemma be_val_less:
  assumes "length xs = length ys"
  shows "be_val xs < be_val ys \<longleftrightarrow> xs < ys"
  using assms
proof (induction xs ys rule: list_induct2)
  case (Cons x xs y ys)
  have "be_val xs < 256 ^ length xs" "be_val ys < 256 ^ length xs"
    using be_val_bound [of xs] be_val_bound [of ys] Cons.hyps by simp_all
  then show ?case
    using Cons by (simp add: be_val_Cons digit_less word_less_nat_alt word_unat_eq_iff)
qed simp

lemma unat_byte_at: "unat (ucast (drop_bit k (v :: u64)) :: u8) = unat v div 2 ^ k mod 256"
proof -
  have "unat (ucast (drop_bit k v) :: u8) = take_bit 8 (drop_bit k (unat v))"
    by (simp add: unsigned_ucast_eq unat_drop_bit_eq)
  then show ?thesis by (simp add: take_bit_eq_mod drop_bit_eq_div)
qed

lemma base_256_digits:
  fixes n :: nat
  shows "((((((n div 2 ^ 56 * 256 + n div 2 ^ 48 mod 256) * 256 + n div 2 ^ 40 mod 256) * 256
      + n div 2 ^ 32 mod 256) * 256 + n div 2 ^ 24 mod 256) * 256 + n div 2 ^ 16 mod 256) * 256
      + n div 2 ^ 8 mod 256) * 256 + n mod 256 = n"
proof -
  have step: "n div 2 ^ (k + 8) * 256 + n div 2 ^ k mod 256 = n div 2 ^ k" for k :: nat
    by (simp add: power_add div_mult2_eq)
  show ?thesis
    using step [of 48] step [of 40] step [of 32] step [of 24] step [of 16] step [of 8] step [of 0]
    by simp
qed

lemma be_val_write: "be_val (write_u64_be v) = unat v"
proof -
  have "unat v < 2 ^ 64" using unsigned_less [of v, where ?'a = nat] by simp
  then have top: "unat v div 2 ^ 56 mod 256 = unat v div 2 ^ 56"
    by (simp add: div_less_iff_less_mult)
  have "write_u64_be v = map (\<lambda>k. ucast (drop_bit k v)) [56, 48, 40, 32, 24, 16, 8, 0]"
    by (simp add: write_u64_be_def upt_0_8)
  then have "be_val (write_u64_be v) = ((((((unat v div 2 ^ 56 * 256 + unat v div 2 ^ 48 mod 256) * 256
      + unat v div 2 ^ 40 mod 256) * 256 + unat v div 2 ^ 32 mod 256) * 256
      + unat v div 2 ^ 24 mod 256) * 256 + unat v div 2 ^ 16 mod 256) * 256
      + unat v div 2 ^ 8 mod 256) * 256 + unat v div 2 ^ 0 mod 256"
    by (simp only: be_val_def list.map foldl_Cons foldl_Nil unat_byte_at top mult_0 add_0)
  also have "\<dots> = unat v"
    using base_256_digits [of "unat v"] by simp
  finally show ?thesis .
qed

lemma write_u64_be_less: "write_u64_be a < write_u64_be b \<longleftrightarrow> a < b"
  by (simp add: be_val_write word_less_nat_alt flip: be_val_less)

lemma write_read_u64_be [simp]:
  assumes "length bs = 8"
  shows "write_u64_be (read_u64_be bs) = bs"
proof -
  let ?v = "word_of_nat (be_val bs) :: u64"
  have "be_val bs < 2 ^ 64" using be_val_bound [of bs] assms by simp
  then have "be_val (write_u64_be ?v) = be_val bs"
    by (simp add: be_val_write unat_of_nat take_bit_nat_eq_self)
  then have "write_u64_be ?v = bs"
    using be_val_less [of "write_u64_be ?v" bs] be_val_less [of bs "write_u64_be ?v"] assms
    by (metis length_write_u64_be less_irrefl linorder_neqE)
  then show ?thesis by (metis read_write_u64_be)
qed

section \<open>Readers\<close>

text \<open>
  The \<open>Cursor\<close> structures of the codecs: a buffer and a read position. \<open>cursor_take\<close> is the
  \<open>memcpy\<close> from the position and its advance; each codec calls it after its own bounds check.
\<close>

record cursor =
  cur_data :: bytes
  cur_pos :: nat

definition cursor_take :: "nat \<Rightarrow> (cursor, bytes) io" where
  "cursor_take n cur =
     (Inr (take n (drop (cur_pos cur) (cur_data cur))), cur\<lparr>cur_pos := cur_pos cur + n\<rparr>)"

text \<open>
  \<open>reads p bs v\<close>: wherever the bytes \<open>bs\<close> stand in the buffer, the reader \<open>p\<close> started on them
  consumes exactly those bytes and returns \<open>v\<close>.
\<close>

definition reads :: "(cursor, 'a) io \<Rightarrow> bytes \<Rightarrow> 'a \<Rightarrow> bool" where
  "reads p bs v \<longleftrightarrow> (\<forall>pre rest.
     p \<lparr>cur_data = pre @ bs @ rest, cur_pos = length pre\<rparr> =
       (Inr v, \<lparr>cur_data = pre @ bs @ rest, cur_pos = length pre + length bs\<rparr>))"

lemma readsI:
  "(\<And>pre rest. p \<lparr>cur_data = pre @ bs @ rest, cur_pos = length pre\<rparr> =
       (Inr v, \<lparr>cur_data = pre @ bs @ rest, cur_pos = length pre + length bs\<rparr>)) \<Longrightarrow> reads p bs v"
  by (simp add: reads_def)

lemma reads_start:
  "reads p bs v \<Longrightarrow> p \<lparr>cur_data = bs @ rest, cur_pos = 0\<rparr> =
     (Inr v, \<lparr>cur_data = bs @ rest, cur_pos = length bs\<rparr>)"
  unfolding reads_def by (metis append_Nil list.size(3) plus_nat.add_0)

lemma reads_ret [reads_intros]: "reads (ret v) [] v"
  by (simp add: reads_def run_simps)

lemma reads_retI [reads_intros]: "v = w \<Longrightarrow> reads (ret v) [] w"
  by (simp add: reads_ret)

lemma reads_bindM [reads_intros]:
  assumes p: "reads p bs v" and f: "reads (f v) cs w"
  shows "reads (bindM p f) (bs @ cs) w"
proof (rule readsI)
  fix pre rest
  have "p \<lparr>cur_data = pre @ bs @ cs @ rest, cur_pos = length pre\<rparr> =
      (Inr v, \<lparr>cur_data = pre @ bs @ cs @ rest, cur_pos = length pre + length bs\<rparr>)"
    using p unfolding reads_def by blast
  moreover have "f v \<lparr>cur_data = (pre @ bs) @ cs @ rest, cur_pos = length (pre @ bs)\<rparr> =
      (Inr w, \<lparr>cur_data = (pre @ bs) @ cs @ rest, cur_pos = length (pre @ bs) + length cs\<rparr>)"
    using f unfolding reads_def by blast
  ultimately show "bindM p f \<lparr>cur_data = pre @ (bs @ cs) @ rest, cur_pos = length pre\<rparr> =
      (Inr w, \<lparr>cur_data = pre @ (bs @ cs) @ rest, cur_pos = length pre + length (bs @ cs)\<rparr>)"
    by (simp add: add.assoc)
qed

lemma reads_bindM_last [reads_intros]:
  "reads p bs v \<Longrightarrow> reads (f v) [] w \<Longrightarrow> reads (bindM p f) bs w"
  using reads_bindM [of p bs v f "[]" w] by simp

lemma reads_bindM_nil [reads_intros]:
  "reads p [] v \<Longrightarrow> reads (f v) cs w \<Longrightarrow> reads (bindM p f) cs w"
  using reads_bindM [of p "[]" v f cs w] by simp

lemma reads_if_False [reads_intros]: "\<not> c \<Longrightarrow> reads p bs v \<Longrightarrow> reads (if c then k else p) bs v"
  by simp

lemma reads_if_True [reads_intros]: "c \<Longrightarrow> reads k bs v \<Longrightarrow> reads (if c then k else p) bs v"
  by simp

lemma reads_repeatM:
  assumes "\<And>x. x \<in> set xs \<Longrightarrow> reads p (enc x) x"
  shows "reads (repeatM (length xs) p) (concat (map enc xs)) xs"
  using assms
proof (induction xs)
  case Nil
  show ?case by (simp add: reads_ret)
next
  case (Cons x xs)
  have "reads (bindM (repeatM (length xs) p) (\<lambda>ys. ret (x # ys))) (concat (map enc xs)) (x # xs)"
    using Cons by (auto intro: reads_bindM_last reads_ret)
  with Cons.prems show ?case
    by (auto intro: reads_bindM)
qed

text \<open>
  A bounds check of a codec: it succeeds, changing nothing, exactly when \<open>n\<close> bytes are left, and
  throws otherwise.
\<close>

definition checks :: "(nat \<Rightarrow> (cursor, unit) io) \<Rightarrow> bool" where
  "checks chk \<longleftrightarrow> (\<exists>e. \<forall>n cur. chk n cur =
     (if cur_pos cur + n \<le> length (cur_data cur) then (Inr (), cur) else (Inl e, cur)))"

lemma reads_take:
  assumes "checks chk" and "length bs = n"
  shows "reads (bindM (chk n) (\<lambda>_. cursor_take n)) bs bs"
  using assms by (auto simp: reads_def checks_def cursor_take_def bindM_def)

text \<open>Reads of a buffer keep the buffer, never move back, and never pass its end.\<close>

definition advances :: "cursor \<Rightarrow> cursor \<Rightarrow> bool" where
  "advances c c' \<longleftrightarrow> cur_data c' = cur_data c \<and> cur_pos c \<le> cur_pos c' \<and>
     (cur_pos c \<le> length (cur_data c) \<longrightarrow> cur_pos c' \<le> length (cur_data c'))"

lemma advances_reflp [simp]: "reflp advances"
  by (simp add: reflp_def advances_def)

lemma advances_transp [simp]: "transp advances"
  by (auto simp: transp_def advances_def)

lemma keeps_checks: "checks chk \<Longrightarrow> keeps advances (chk n)"
  by (auto simp: checks_def keeps_def advances_def)

lemma keeps_take:
  assumes "checks chk"
  shows "keeps advances (bindM (chk n) (\<lambda>_. cursor_take n))"
  using assms by (auto simp: keeps_def advances_def checks_def cursor_take_def bindM_def)

lemma keeps_repeatM [keeps_intros]:
  "reflp P \<Longrightarrow> transp P \<Longrightarrow> keeps P m \<Longrightarrow> keeps P (repeatM n m)"
  by (induction n) (auto intro!: keeps_intros)

text \<open>
  \<open>yields p P\<close>: whatever the buffer holds, if the reader \<open>p\<close> returns \<open>v\<close>, it has left the buffer
  alone, stayed inside it, and consumed some \<open>n\<close> bytes with \<open>P v n\<close>.
\<close>

definition yields :: "(cursor, 'a) io \<Rightarrow> ('a \<Rightarrow> nat \<Rightarrow> bool) \<Rightarrow> bool" where
  "yields p P \<longleftrightarrow> (\<forall>c v c'. p c = (Inr v, c') \<longrightarrow> cur_pos c \<le> length (cur_data c) \<longrightarrow>
     (\<exists>n. c' = c\<lparr>cur_pos := cur_pos c + n\<rparr> \<and> cur_pos c + n \<le> length (cur_data c) \<and> P v n))"

lemma yields_ret: "P v 0 \<Longrightarrow> yields (ret v) P"
  by (auto simp: yields_def run_simps intro!: exI [of _ 0])

lemma yields_throw: "yields (throw e) P"
  by (auto simp: yields_def run_simps)

lemma yields_if:
  "(c \<Longrightarrow> yields p P) \<Longrightarrow> (\<not> c \<Longrightarrow> yields q P) \<Longrightarrow> yields (if c then p else q) P"
  by auto

lemma yields_bindM:
  assumes p: "yields p P" and f: "\<And>v n. P v n \<Longrightarrow> yields (f v) (\<lambda>w m. Q w (n + m))"
  shows "yields (bindM p f) Q"
  unfolding yields_def
proof (intro allI impI)
  fix c w c'
  assume run: "bindM p f c = (Inr w, c')" and pos: "cur_pos c \<le> length (cur_data c)"
  then obtain v c1 where 1: "p c = (Inr v, c1)" and 2: "f v c1 = (Inr w, c')"
    by (auto simp: bindM_def split: prod.splits sum.splits)
  from p 1 pos obtain n where n: "c1 = c\<lparr>cur_pos := cur_pos c + n\<rparr>"
    "cur_pos c + n \<le> length (cur_data c)" "P v n"
    unfolding yields_def by blast
  from f [OF n(3)] 2 n(1,2) obtain m where "c' = c1\<lparr>cur_pos := cur_pos c1 + m\<rparr>"
    "cur_pos c1 + m \<le> length (cur_data c1)" "Q w (n + m)"
    unfolding yields_def by fastforce
  with n(1) show "\<exists>n. c' = c\<lparr>cur_pos := cur_pos c + n\<rparr> \<and> cur_pos c + n \<le> length (cur_data c) \<and> Q w n"
    by (auto intro!: exI [of _ "n + m"] simp: add.assoc)
qed

lemma yields_mono: "yields p P \<Longrightarrow> (\<And>v n. P v n \<Longrightarrow> Q v n) \<Longrightarrow> yields p Q"
  unfolding yields_def by blast

lemma yields_repeatM:
  assumes "yields p P"
  shows "yields (repeatM k p)
    (\<lambda>vs n. length vs = k \<and> (\<exists>ns. list_all2 P vs ns \<and> n = sum_list ns))"
proof (induction k)
  case 0
  show ?case by (auto intro: yields_ret)
next
  case (Suc k)
  show ?case
    by (auto intro!: yields_bindM [OF assms] yields_bindM [OF Suc.IH] yields_ret
        intro: list_all2_Cons [THEN iffD2] simp: list_all2_Cons1)
qed

lemma yields_take:
  assumes "checks chk"
  shows "yields (bindM (chk n) (\<lambda>_. cursor_take n)) (\<lambda>bs m. length bs = n \<and> m = n)"
proof -
  obtain e where "\<And>n cur. chk n cur =
      (if cur_pos cur + n \<le> length (cur_data cur) then (Inr (), cur) else (Inl e, cur))"
    using assms unfolding checks_def by blast
  then show ?thesis
    by (auto simp: yields_def bindM_def cursor_take_def split: if_splits)
qed

text \<open>
  \<open>stable p\<close>: a successful read does not depend on what follows in the buffer.
\<close>

definition stable :: "(cursor, 'a) io \<Rightarrow> bool" where
  "stable p \<longleftrightarrow> (\<forall>c v c' rest. p c = (Inr v, c') \<longrightarrow> cur_pos c \<le> length (cur_data c) \<longrightarrow>
     cur_data c' = cur_data c \<and> cur_pos c' \<le> length (cur_data c) \<and>
     p (c\<lparr>cur_data := cur_data c @ rest\<rparr>) = (Inr v, c'\<lparr>cur_data := cur_data c @ rest\<rparr>))"

lemma stableD:
  "stable p \<Longrightarrow> p c = (Inr v, c') \<Longrightarrow> cur_pos c \<le> length (cur_data c) \<Longrightarrow>
     p (c\<lparr>cur_data := cur_data c @ rest\<rparr>) = (Inr v, c'\<lparr>cur_data := cur_data c @ rest\<rparr>)"
  unfolding stable_def by blast

lemma yieldsD:
  "yields p P \<Longrightarrow> p c = (Inr v, c') \<Longrightarrow> cur_pos c \<le> length (cur_data c) \<Longrightarrow>
     \<exists>n. c' = c\<lparr>cur_pos := cur_pos c + n\<rparr> \<and> cur_pos c + n \<le> length (cur_data c) \<and> P v n"
  unfolding yields_def by blast

lemma stable_ret: "stable (ret v)"
  by (auto simp: stable_def run_simps)

lemma stable_throw: "stable (throw e)"
  by (auto simp: stable_def run_simps)

lemma stable_if: "stable p \<Longrightarrow> stable q \<Longrightarrow> stable (if c then p else q)"
  by simp

lemma stable_bindM:
  assumes p: "stable p" and f: "\<And>v. stable (f v)"
  shows "stable (bindM p f)"
  unfolding stable_def
proof (intro allI impI)
  fix c w c' rest
  assume run: "bindM p f c = (Inr w, c')" and pos: "cur_pos c \<le> length (cur_data c)"
  then obtain v c1 where 1: "p c = (Inr v, c1)" and 2: "f v c1 = (Inr w, c')"
    by (auto simp: bindM_def split: prod.splits sum.splits)
  have p1: "cur_data c1 = cur_data c" "cur_pos c1 \<le> length (cur_data c)"
    "p (c\<lparr>cur_data := cur_data c @ rest\<rparr>) = (Inr v, c1\<lparr>cur_data := cur_data c @ rest\<rparr>)"
    using p 1 pos unfolding stable_def by blast+
  have "cur_data c' = cur_data c1 \<and> cur_pos c' \<le> length (cur_data c1) \<and>
      f v (c1\<lparr>cur_data := cur_data c1 @ rest\<rparr>) = (Inr w, c'\<lparr>cur_data := cur_data c1 @ rest\<rparr>)"
    using f [of v] 2 p1(1,2) unfolding stable_def by (metis (no_types, lifting))
  with p1 show "cur_data c' = cur_data c \<and> cur_pos c' \<le> length (cur_data c) \<and>
      bindM p f (c\<lparr>cur_data := cur_data c @ rest\<rparr>) = (Inr w, c'\<lparr>cur_data := cur_data c @ rest\<rparr>)"
    by (simp add: bindM_def)
qed

lemma stable_repeatM: "stable p \<Longrightarrow> stable (repeatM n p)"
  by (induction n) (auto intro: stable_ret stable_bindM)

lemma stable_take:
  assumes "checks chk"
  shows "stable (bindM (chk n) (\<lambda>_. cursor_take n))"
proof -
  obtain e where "\<And>n cur. chk n cur =
      (if cur_pos cur + n \<le> length (cur_data cur) then (Inr (), cur) else (Inl e, cur))"
    using assms unfolding checks_def by blast
  then show ?thesis
    by (auto simp: stable_def bindM_def cursor_take_def split: if_splits)
qed

lemmas stable_intros = stable_ret stable_throw stable_if stable_bindM stable_repeatM

section \<open>The contract of a codec\<close>

text \<open>
  An encoder and a reader agree on the values that satisfy \<open>valid\<close>: the reader, started on the
  encoding of a value inside any buffer, returns that value and stops right after it.
\<close>

locale codec =
  fixes enc :: "'a \<Rightarrow> bytes"
    and dec :: "(cursor, 'a) io"
    and valid :: "'a \<Rightarrow> bool"
  assumes roundtrip: "valid x \<Longrightarrow> reads dec (enc x) x"
begin

lemma decode_start:
  "valid x \<Longrightarrow> dec \<lparr>cur_data = enc x @ rest, cur_pos = 0\<rparr> =
     (Inr x, \<lparr>cur_data = enc x @ rest, cur_pos = length (enc x)\<rparr>)"
  by (rule reads_start) (rule roundtrip)

text \<open>No encoding is a proper prefix of another one: a stream of records parses in one way.\<close>

lemma prefix_free:
  assumes "valid x" and "valid y" and "enc x @ r = enc y @ r'"
  shows "x = y \<and> r = r'"
proof -
  have "(Inr x, \<lparr>cur_data = enc x @ r, cur_pos = length (enc x)\<rparr>) =
      ((Inr y, \<lparr>cur_data = enc y @ r', cur_pos = length (enc y)\<rparr>) :: (exn + 'a) \<times> cursor)"
    using decode_start [OF assms(1), of r] decode_start [OF assms(2), of r'] assms(3) by simp
  with assms(3) show ?thesis by simp
qed

lemma enc_inj: "valid x \<Longrightarrow> valid y \<Longrightarrow> enc x = enc y \<Longrightarrow> x = y"
  using prefix_free [of x y "[]" "[]"] by simp

lemma roundtrip_list:
  "list_all valid xs \<Longrightarrow> reads (repeatM (length xs) dec) (concat (map enc xs)) xs"
  by (rule reads_repeatM) (auto simp: list_all_iff intro: roundtrip)

end

end
