(* ===== verification/Change_Batch.thy ===== *)
theory Change_Batch
  imports Bytes
begin

unbundle bit_operations_syntax

text \<open>
  The replicated data and its wire format: \<^verbatim>\<open>protocol/ChangeOp.hpp\<close>, \<^verbatim>\<open>protocol/ChangeBatch.hpp\<close>,
  \<^verbatim>\<open>protocol/codec_flags.hpp\<close>, \<^verbatim>\<open>protocol/CodecBounds.hpp\<close> and
  \<^verbatim>\<open>protocol/ChangeBatchCodec.hpp\<close>. The encoder is a function into \<open>exn + bytes\<close>; the decoder
  is a reader over a cursor, with every check of the C++ code in its order.
\<close>

section \<open>Operations and batches\<close>

datatype change_op_type = Put | Delete | ClearTable

definition op_type_code :: "change_op_type \<Rightarrow> u8" where
  "op_type_code t = (case t of Put \<Rightarrow> 0 | Delete \<Rightarrow> 1 | ClearTable \<Rightarrow> 2)"

text \<open>The \<open>static_cast\<close> from a checked byte back to the enumeration.\<close>

definition op_type_of_code :: "u8 \<Rightarrow> change_op_type" where
  "op_type_of_code c = (if c = 0 then Put else if c = 1 then Delete else ClearTable)"

lemma op_type_of_code_code [simp]: "op_type_of_code (op_type_code t) = t"
  by (cases t) (simp_all add: op_type_of_code_def op_type_code_def)

lemma op_type_code_le [simp]: "\<not> op_type_code t > op_type_code ClearTable"
  by (cases t) (simp_all add: op_type_code_def)

definition BATCH_NONE :: u32 where "BATCH_NONE = 0"
definition BATCH_COMPRESSED_ZSTD :: u32 where "BATCH_COMPRESSED_ZSTD = push_bit 0 1"
definition BATCH_HAS_MORE :: u32 where "BATCH_HAS_MORE = push_bit 1 1"

definition OP_NONE :: u32 where "OP_NONE = 0"
definition OP_HAS_IDENTITY_KEY :: u32 where "OP_HAS_IDENTITY_KEY = push_bit 0 1"
definition OP_HAS_REVISION_KEY :: u32 where "OP_HAS_REVISION_KEY = push_bit 1 1"
definition OP_TOMBSTONE :: u32 where "OP_TOMBSTONE = push_bit 2 1"

lemmas flag_defs = BATCH_NONE_def BATCH_COMPRESSED_ZSTD_def BATCH_HAS_MORE_def OP_NONE_def
  OP_HAS_IDENTITY_KEY_def OP_HAS_REVISION_KEY_def OP_TOMBSTONE_def

record change_op =
  op_type :: change_op_type
  op_flags :: u32
  dbi_flags :: u32
  dbi_name :: string
  storage_key :: bytes
  op_value :: bytes
  identity_key :: bytes
  revision_key :: bytes

record change_batch =
  version :: u32
  batch_flags :: u32
  origin_node_id :: node_id
  seq :: u64
  time_unix_ns :: u64
  ops :: "change_op list"

text \<open>The limits of \<open>CodecBounds\<close>, all \<open>std::uint32_t\<close>, with the defaults of the header.\<close>

record codec_bounds =
  max_ops_per_batch :: u32
  max_dbi_name_len :: u32
  max_storage_key_len :: u32
  max_value_len :: u32
  max_identity_key_len :: u32
  max_revision_key_len :: u32
  max_batch_total_bytes :: u32
  max_cursor_origins :: u32
  max_batches_per_message :: u32
  max_error_len :: u32
  max_logical_schema_id_len :: u32
  max_logical_delivery_frame_id_len :: u32
  max_selective_scope_id_len :: u32
  max_selective_manifest_entries :: u32
  max_transport_message_bytes :: u32
  max_snapshot_id_len :: u32
  max_snapshot_manifest_entries :: u32
  max_snapshot_chunk_bytes :: u32

definition default_bounds :: codec_bounds where
  "default_bounds = \<lparr>
     max_ops_per_batch = 10000,
     max_dbi_name_len = 256,
     max_storage_key_len = 16 * 1024,
     max_value_len = 4 * 1024 * 1024,
     max_identity_key_len = 16 * 1024,
     max_revision_key_len = 16 * 1024,
     max_batch_total_bytes = 64 * 1024 * 1024,
     max_cursor_origins = 10000,
     max_batches_per_message = 10000,
     max_error_len = 16 * 1024,
     max_logical_schema_id_len = 16 * 1024,
     max_logical_delivery_frame_id_len = 16 * 1024,
     max_selective_scope_id_len = 256,
     max_selective_manifest_entries = 10000,
     max_transport_message_bytes = 128 * 1024 * 1024,
     max_snapshot_id_len = 256,
     max_snapshot_manifest_entries = 10000,
     max_snapshot_chunk_bytes = 128 * 1024 * 1024\<rparr>"

text \<open>Comparison of a \<open>std::size_t\<close> with a 32-bit limit.\<close>

abbreviation exceeds :: "nat \<Rightarrow> u32 \<Rightarrow> bool" where
  "exceeds n limit \<equiv> unat limit < n"

abbreviation u32_of_size :: "nat \<Rightarrow> u32" where
  "u32_of_size n \<equiv> word_of_nat n"

section \<open>Encoding\<close>

definition cb_magic :: bytes where
  "cb_magic = bytes_of_string ''MDBXCSYN''"

definition cb_magic_size :: nat where "cb_magic_size = 8"
definition cb_codec_version :: u16 where "cb_codec_version = 1"
definition cb_batch_version :: u32 where "cb_batch_version = 1"

definition validate_op_bounds :: "codec_bounds \<Rightarrow> change_op \<Rightarrow> exn + unit" where
  "validate_op_bounds bounds op =
    (if exceeds (length (dbi_name op)) (max_dbi_name_len bounds)
     then Inl (LengthError ''dbi_name_len exceeds max_dbi_name_len'')
     else if exceeds (length (storage_key op)) (max_storage_key_len bounds)
     then Inl (LengthError ''storage_key_len exceeds max_storage_key_len'')
     else if exceeds (length (op_value op)) (max_value_len bounds)
     then Inl (LengthError ''value_len exceeds max_value_len'')
     else if exceeds (length (identity_key op)) (max_identity_key_len bounds)
     then Inl (LengthError ''identity_key_len exceeds max_identity_key_len'')
     else if exceeds (length (revision_key op)) (max_revision_key_len bounds)
     then Inl (LengthError ''revision_key_len exceeds max_revision_key_len'')
     else Inr ())"

text \<open>A loop body that can only throw, run over a vector.\<close>

fun checkE :: "('a \<Rightarrow> exn + unit) \<Rightarrow> 'a list \<Rightarrow> exn + unit" where
  "checkE f [] = Inr ()"
| "checkE f (x # xs) = (case f x of Inl e \<Rightarrow> Inl e | Inr _ \<Rightarrow> checkE f xs)"

definition validate_bounds :: "change_batch \<Rightarrow> codec_bounds \<Rightarrow> exn + unit" where
  "validate_bounds batch bounds =
    (if exceeds (length (ops batch)) (max_ops_per_batch bounds)
     then Inl (LengthError ''ops_count exceeds max_ops_per_batch'')
     else checkE (validate_op_bounds bounds) (ops batch))"

definition known_batch_mask :: u32 where
  "known_batch_mask = BATCH_COMPRESSED_ZSTD OR BATCH_HAS_MORE"

definition known_op_mask :: u32 where
  "known_op_mask = OP_HAS_IDENTITY_KEY OR OP_HAS_REVISION_KEY OR OP_TOMBSTONE"

text \<open>The checks of one operation, before the encoder appends it.\<close>

definition check_op :: "change_op \<Rightarrow> exn + unit" where
  "check_op op =
    (if op_type_code (op_type op) > op_type_code ClearTable
     then Inl (LogicError ''Unknown ChangeOpType'')
     else if op_flags op AND NOT known_op_mask \<noteq> 0
     then Inl (LogicError ''ChangeOp has unknown mandatory flags'')
     else if op_flags op AND OP_HAS_IDENTITY_KEY \<noteq> 0 \<and> identity_key op = []
     then Inl (LogicError ''OP_HAS_IDENTITY_KEY set with empty identity_key'')
     else if op_flags op AND OP_HAS_REVISION_KEY \<noteq> 0 \<and> revision_key op = []
     then Inl (LogicError ''OP_HAS_REVISION_KEY set with empty revision_key'')
     else if op_flags op AND OP_TOMBSTONE \<noteq> 0 \<and> op_value op \<noteq> []
     then Inl (LogicError ''OP_TOMBSTONE set with non-empty value'')
     else Inr ())"

text \<open>A length-prefixed byte string, as every variable-size field is appended.\<close>

definition put_bytes :: "bytes \<Rightarrow> bytes" where
  "put_bytes bs = write_u32_le (u32_of_size (length bs)) @ bs"

definition put_value :: "bytes \<Rightarrow> bytes" where
  "put_value v = (if v = [] then write_u32_le 0xFFFFFFFF else put_bytes v)"

definition put_flagged :: "bool \<Rightarrow> bytes \<Rightarrow> bytes" where
  "put_flagged present k = (if present then put_bytes k else [])"

text \<open>The bytes appended for one operation.\<close>

definition encode_op :: "change_op \<Rightarrow> bytes" where
  "encode_op op =
     [op_type_code (op_type op)] @
     write_u32_le (op_flags op) @
     write_u32_le (dbi_flags op) @
     put_bytes (bytes_of_string (dbi_name op)) @
     put_bytes (storage_key op) @
     put_value (op_value op) @
     put_flagged (op_flags op AND OP_HAS_IDENTITY_KEY \<noteq> 0) (identity_key op) @
     put_flagged (op_flags op AND OP_HAS_REVISION_KEY \<noteq> 0) (revision_key op)"

fun encode_ops :: "bytes \<Rightarrow> change_op list \<Rightarrow> exn + bytes" where
  "encode_ops out [] = Inr out"
| "encode_ops out (op # rest) =
    (case check_op op of Inl e \<Rightarrow> Inl e | Inr _ \<Rightarrow> encode_ops (out @ encode_op op) rest)"

definition encode_header :: "change_batch \<Rightarrow> bytes" where
  "encode_header batch =
     cb_magic @
     write_u16_le cb_codec_version @
     write_u32_le cb_batch_version @
     write_u32_le (batch_flags batch) @
     take 16 (origin_node_id batch) @
     write_u64_le (seq batch) @
     write_u64_le (time_unix_ns batch) @
     write_u32_le (u32_of_size (length (ops batch)))"

definition encode_batch :: "change_batch \<Rightarrow> codec_bounds option \<Rightarrow> exn + bytes" where
  "encode_batch batch bounds =
    (case (case bounds of Some b \<Rightarrow> validate_bounds batch b | None \<Rightarrow> Inr ()) of
       Inl e \<Rightarrow> Inl e
     | Inr _ \<Rightarrow>
       if version batch \<noteq> cb_batch_version
       then Inl (LogicError ''Unsupported ChangeBatch::version'')
       else if batch_flags batch AND BATCH_COMPRESSED_ZSTD \<noteq> 0
       then Inl (LogicError ''BATCH_COMPRESSED_ZSTD is not supported in v0.1'')
       else if batch_flags batch AND NOT known_batch_mask \<noteq> 0
       then Inl (LogicError ''ChangeBatch has unknown mandatory batch flags'')
       else case encode_ops (encode_header batch) (ops batch) of
         Inl e \<Rightarrow> Inl e
       | Inr out \<Rightarrow>
         (case bounds of
            Some b \<Rightarrow>
              if exceeds (length out) (max_batch_total_bytes b)
              then Inl (LengthError ''encoded change batch exceeds max_batch_total_bytes'')
              else Inr out
          | None \<Rightarrow> Inr out))"

section \<open>Decoding\<close>

definition cb_check_bounds :: "nat \<Rightarrow> (cursor, unit) io" where
  "cb_check_bounds n cur =
    (if cur_pos cur + n > length (cur_data cur)
     then (Inl (RuntimeError ''Codec buffer underrun''), cur)
     else (Inr (), cur))"

definition cb_read_bytes :: "nat \<Rightarrow> (cursor, bytes) io" where
  "cb_read_bytes n = bindM (cb_check_bounds n) (\<lambda>_. cursor_take n)"

definition cb_read_u8 :: "(cursor, u8) io" where
  "cb_read_u8 = bindM (cb_read_bytes 1) (\<lambda>bs. ret (bs ! 0))"

definition cb_read_u16_le :: "(cursor, u16) io" where
  "cb_read_u16_le = bindM (cb_read_bytes 2) (\<lambda>bs. ret (read_u16_le bs))"

definition cb_read_u32_le :: "(cursor, u32) io" where
  "cb_read_u32_le = bindM (cb_read_bytes 4) (\<lambda>bs. ret (read_u32_le bs))"

definition cb_read_u64_le :: "(cursor, u64) io" where
  "cb_read_u64_le = bindM (cb_read_bytes 8) (\<lambda>bs. ret (read_u64_le bs))"

definition check_magic :: "(cursor, unit) io" where
  "check_magic = bindM (cb_read_bytes cb_magic_size)
     (\<lambda>m. if m \<noteq> cb_magic then throw (RuntimeError ''Codec magic mismatch'') else ret ())"

definition over :: "codec_bounds option \<Rightarrow> (codec_bounds \<Rightarrow> u32) \<Rightarrow> u32 \<Rightarrow> bool" where
  "over bounds limit n = (case bounds of None \<Rightarrow> False | Some b \<Rightarrow> n > limit b)"

text \<open>A length-prefixed field: its length, the optional limit, and its bytes.\<close>

definition read_field ::
  "codec_bounds option \<Rightarrow> (codec_bounds \<Rightarrow> u32) \<Rightarrow> string \<Rightarrow> (cursor, bytes) io" where
  "read_field bounds limit msg =
     bindM cb_read_u32_le (\<lambda>n.
       if over bounds limit n then throw (LengthError msg)
       else cb_read_bytes (unat n))"

definition read_value :: "codec_bounds option \<Rightarrow> (cursor, bytes) io" where
  "read_value bounds =
     bindM cb_read_u32_le (\<lambda>n.
       if n = 0xFFFFFFFF then ret []
       else if over bounds max_value_len n
       then throw (LengthError ''value_len exceeds max_value_len'')
       else cb_read_bytes (unat n))"

definition decode_op :: "codec_bounds option \<Rightarrow> (cursor, change_op) io" where
  "decode_op bounds =
     bindM cb_read_u8 (\<lambda>ty.
     if ty > op_type_code ClearTable then throw (RuntimeError ''Unknown ChangeOpType'') else
     bindM cb_read_u32_le (\<lambda>flags.
     if flags AND NOT known_op_mask \<noteq> 0
     then throw (RuntimeError ''Unknown mandatory op flag bits set'') else
     bindM cb_read_u32_le (\<lambda>dflags.
     bindM (read_field bounds max_dbi_name_len ''dbi_name_len exceeds max_dbi_name_len'') (\<lambda>name.
     bindM (read_field bounds max_storage_key_len
              ''storage_key_len exceeds max_storage_key_len'') (\<lambda>sk.
     bindM (read_value bounds) (\<lambda>v.
     bindM (if flags AND OP_HAS_IDENTITY_KEY \<noteq> 0
            then read_field bounds max_identity_key_len
                   ''identity_key_len exceeds max_identity_key_len''
            else ret []) (\<lambda>idk.
     bindM (if flags AND OP_HAS_REVISION_KEY \<noteq> 0
            then read_field bounds max_revision_key_len
                   ''revision_key_len exceeds max_revision_key_len''
            else ret []) (\<lambda>rvk.
     if flags AND OP_TOMBSTONE \<noteq> 0 \<and> v \<noteq> []
     then throw (RuntimeError ''OP_TOMBSTONE with non-empty value'')
     else if flags AND OP_HAS_IDENTITY_KEY \<noteq> 0 \<and> idk = []
     then throw (RuntimeError ''OP_HAS_IDENTITY_KEY with empty identity_key'')
     else if flags AND OP_HAS_REVISION_KEY \<noteq> 0 \<and> rvk = []
     then throw (RuntimeError ''OP_HAS_REVISION_KEY with empty revision_key'')
     else ret \<lparr>op_type = op_type_of_code ty, op_flags = flags, dbi_flags = dflags,
               dbi_name = string_of_bytes name, storage_key = sk, op_value = v,
               identity_key = idk, revision_key = rvk\<rparr>))))))))"

text \<open>The body of \<open>decode\<close> up to the point where the cursor stands behind the batch.\<close>

definition decode_body :: "codec_bounds option \<Rightarrow> (cursor, change_batch) io" where
  "decode_body bounds =
     bindM check_magic (\<lambda>_.
     bindM cb_read_u16_le (\<lambda>cv.
     if cv \<noteq> cb_codec_version then throw (RuntimeError ''Unsupported codec_version'') else
     bindM cb_read_u32_le (\<lambda>bv.
     if bv \<noteq> cb_batch_version then throw (RuntimeError ''Unsupported batch_version'') else
     bindM cb_read_u32_le (\<lambda>bflags.
     if bflags AND BATCH_COMPRESSED_ZSTD \<noteq> 0
     then throw (RuntimeError ''BATCH_COMPRESSED_ZSTD is not supported in v0.1'')
     else if bflags AND NOT known_batch_mask \<noteq> 0
     then throw (RuntimeError ''Unknown mandatory batch flag bits set'') else
     bindM (cb_read_bytes 16) (\<lambda>origin.
     bindM cb_read_u64_le (\<lambda>sq.
     bindM cb_read_u64_le (\<lambda>tm.
     bindM cb_read_u32_le (\<lambda>ops_count.
     if over bounds max_ops_per_batch ops_count
     then throw (LengthError ''ops_count exceeds max_ops_per_batch'') else
     bindM (repeatM (unat ops_count) (decode_op bounds)) (\<lambda>os.
     ret \<lparr>version = bv, batch_flags = bflags, origin_node_id = origin, seq = sq,
          time_unix_ns = tm, ops = os\<rparr>)))))))))"

definition open_cursor :: "bytes \<Rightarrow> cursor" where
  "open_cursor data = \<lparr>cur_data = data, cur_pos = 0\<rparr>"

text \<open>
  \<open>decode\<close> with a non-null \<open>bytes_read\<close>: the batch and the number of bytes consumed. Total size
  is checked after the operations, as in the source.
\<close>

definition decode_stream :: "bytes \<Rightarrow> codec_bounds option \<Rightarrow> exn + change_batch \<times> nat" where
  "decode_stream data bounds =
    (case decode_body bounds (open_cursor data) of
       (Inl e, cur) \<Rightarrow> Inl e
     | (Inr batch, cur) \<Rightarrow>
       (case bounds of
          Some b \<Rightarrow>
            if exceeds (cur_pos cur) (max_batch_total_bytes b)
            then Inl (LengthError ''total batch bytes exceeds max_batch_total_bytes'')
            else Inr (batch, cur_pos cur)
        | None \<Rightarrow> Inr (batch, cur_pos cur)))"

text \<open>\<open>decode\<close> with a null \<open>bytes_read\<close>: trailing bytes are an error.\<close>

definition decode :: "bytes \<Rightarrow> codec_bounds option \<Rightarrow> exn + change_batch" where
  "decode data bounds =
    (case decode_stream data bounds of
       Inl e \<Rightarrow> Inl e
     | Inr (batch, consumed) \<Rightarrow>
       if consumed \<noteq> length data
       then Inl (RuntimeError ''Trailing bytes after ChangeBatch'') else Inr batch)"

definition decode_exact :: "bytes \<Rightarrow> codec_bounds option \<Rightarrow> exn + change_batch" where
  "decode_exact data bounds =
    (case decode_stream data bounds of
       Inl e \<Rightarrow> Inl e
     | Inr (batch, consumed) \<Rightarrow>
       if consumed \<noteq> length data
       then Inl (RuntimeError ''Trailing bytes after ChangeBatch'') else Inr batch)"

section \<open>Round trip\<close>

lemma cb_checks: "checks cb_check_bounds"
  by (auto simp: checks_def cb_check_bounds_def)

lemma reads_cb_bytes [reads_intros]: "length bs = n \<Longrightarrow> reads (cb_read_bytes n) bs bs"
  unfolding cb_read_bytes_def by (rule reads_take [OF cb_checks])

lemma reads_cb_u8 [reads_intros]: "reads cb_read_u8 [b] b"
  unfolding cb_read_u8_def by (rule reads_bindM_last [OF reads_cb_bytes]) (auto simp: reads_ret)

lemma reads_cb_u16 [reads_intros]: "reads cb_read_u16_le (write_u16_le v) v"
  unfolding cb_read_u16_le_def
  by (rule reads_bindM_last [OF reads_cb_bytes]) (auto simp: reads_ret)

lemma reads_cb_u32 [reads_intros]: "reads cb_read_u32_le (write_u32_le v) v"
  unfolding cb_read_u32_le_def
  by (rule reads_bindM_last [OF reads_cb_bytes]) (auto simp: reads_ret)

lemma reads_cb_u64 [reads_intros]: "reads cb_read_u64_le (write_u64_le v) v"
  unfolding cb_read_u64_le_def
  by (rule reads_bindM_last [OF reads_cb_bytes]) (auto simp: reads_ret)

interpretation u32_codec: codec write_u32_le cb_read_u32_le "\<lambda>_. True"
  by unfold_locales (rule reads_cb_u32)

interpretation u64_codec: codec write_u64_le cb_read_u64_le "\<lambda>_. True"
  by unfold_locales (rule reads_cb_u64)

lemma reads_magic [reads_intros]: "reads check_magic cb_magic ()"
  unfolding check_magic_def
  by (rule reads_bindM_last [OF reads_cb_bytes])
    (auto simp: cb_magic_def cb_magic_size_def reads_ret)

text \<open>A size that its 32-bit field can hold and that its limit, if any, admits.\<close>

definition fits :: "codec_bounds option \<Rightarrow> (codec_bounds \<Rightarrow> u32) \<Rightarrow> nat \<Rightarrow> bool" where
  "fits bounds limit n \<longleftrightarrow>
     n < 2 ^ 32 \<and> (case bounds of None \<Rightarrow> True | Some b \<Rightarrow> n \<le> unat (limit b))"

lemma unat_u32_of_size: "n < 2 ^ 32 \<Longrightarrow> unat (u32_of_size n) = n"
  by (simp add: unat_of_nat take_bit_nat_eq_self)

lemma fits_not_over: "fits bounds limit n \<Longrightarrow> \<not> over bounds limit (u32_of_size n)"
  by (auto simp: fits_def over_def word_less_nat_alt unat_u32_of_size split: option.splits)

lemma reads_field [reads_intros]:
  assumes "fits bounds limit (length bs)"
  shows "reads (read_field bounds limit msg) (put_bytes bs) bs"
  unfolding read_field_def put_bytes_def
  using assms fits_not_over [OF assms]
  by (intro reads_bindM [OF reads_cb_u32]) (auto simp: fits_def unat_u32_of_size intro: reads_cb_bytes)

lemma reads_value [reads_intros]:
  assumes "fits bounds max_value_len (length v)" and "length v \<noteq> 2 ^ 32 - 1"
  shows "reads (read_value bounds) (put_value v) v"
proof (cases "v = []")
  case True
  then show ?thesis
    unfolding read_value_def put_value_def
    by (simp only: if_True simp_thms) (rule reads_bindM_last [OF reads_cb_u32], simp add: reads_ret)
next
  case False
  have "u32_of_size (length v) \<noteq> (0xFFFFFFFF :: u32)"
    using assms by (auto simp: fits_def word_unat_eq_iff unat_u32_of_size)
  with False assms fits_not_over [OF assms(1)] show ?thesis
    unfolding read_value_def put_value_def put_bytes_def
    by (auto simp: fits_def unat_u32_of_size intro!: reads_bindM [OF reads_cb_u32] reads_cb_bytes)
qed

text \<open>What the format can carry of one operation, under the given limits.\<close>

definition op_fits :: "codec_bounds option \<Rightarrow> change_op \<Rightarrow> bool" where
  "op_fits bounds op \<longleftrightarrow>
     fits bounds max_dbi_name_len (length (dbi_name op)) \<and>
     fits bounds max_storage_key_len (length (storage_key op)) \<and>
     fits bounds max_value_len (length (op_value op)) \<and> length (op_value op) \<noteq> 2 ^ 32 - 1 \<and>
     fits bounds max_identity_key_len (length (identity_key op)) \<and>
     fits bounds max_revision_key_len (length (revision_key op)) \<and>
     (op_flags op AND OP_HAS_IDENTITY_KEY = 0 \<longrightarrow> identity_key op = []) \<and>
     (op_flags op AND OP_HAS_REVISION_KEY = 0 \<longrightarrow> revision_key op = [])"

lemma reads_flagged:
  assumes "fits bounds limit (length k)" and "\<not> c \<longrightarrow> k = []"
  shows "reads (if c then read_field bounds limit msg else ret []) (put_flagged c k) k"
  using assms by (auto simp: put_flagged_def intro: reads_field reads_ret)

lemma check_op_Inr:
  "check_op op = Inr u \<longleftrightarrow>
     op_flags op AND NOT known_op_mask = 0 \<and>
     (op_flags op AND OP_HAS_IDENTITY_KEY \<noteq> 0 \<longrightarrow> identity_key op \<noteq> []) \<and>
     (op_flags op AND OP_HAS_REVISION_KEY \<noteq> 0 \<longrightarrow> revision_key op \<noteq> []) \<and>
     (op_flags op AND OP_TOMBSTONE \<noteq> 0 \<longrightarrow> op_value op = [])"
  by (auto simp: check_op_def)

lemma reads_decode_op:
  assumes "check_op op = Inr ()" and "op_fits bounds op"
  shows "reads (decode_op bounds) (encode_op op) op"
  unfolding decode_op_def encode_op_def
  using assms
  by (intro reads_bindM [OF reads_cb_u8] reads_bindM [OF reads_cb_u32] reads_bindM [OF reads_field]
      reads_bindM [OF reads_value] reads_bindM [OF reads_flagged]
      reads_bindM_last [OF reads_flagged] reads_if_False)
    (auto simp: check_op_Inr op_fits_def intro!: reads_retI)

text \<open>What the format can carry of a whole batch.\<close>

definition batch_fits :: "codec_bounds option \<Rightarrow> change_batch \<Rightarrow> bool" where
  "batch_fits bounds batch \<longleftrightarrow>
     is_node_id (origin_node_id batch) \<and>
     fits bounds max_ops_per_batch (length (ops batch)) \<and>
     list_all (op_fits bounds) (ops batch)"

lemma encode_ops_Inr:
  "encode_ops out os = Inr bs \<longleftrightarrow>
     list_all (\<lambda>op. check_op op = Inr ()) os \<and> bs = out @ concat (map encode_op os)"
  by (induction os arbitrary: out) (auto split: sum.splits)

lemma encode_ops_total:
  "list_all (\<lambda>op. check_op op = Inr ()) os \<Longrightarrow>
     encode_ops out os = Inr (out @ concat (map encode_op os))"
  by (simp add: encode_ops_Inr)

lemma encode_batch_Inr:
  "encode_batch batch bounds = Inr bs \<longleftrightarrow>
     (case bounds of Some b \<Rightarrow> validate_bounds batch b = Inr () \<and>
        length bs \<le> unat (max_batch_total_bytes b) | None \<Rightarrow> True) \<and>
     version batch = cb_batch_version \<and>
     batch_flags batch AND BATCH_COMPRESSED_ZSTD = 0 \<and>
     batch_flags batch AND NOT known_batch_mask = 0 \<and>
     list_all (\<lambda>op. check_op op = Inr ()) (ops batch) \<and>
     bs = encode_header batch @ concat (map encode_op (ops batch))"
  by (auto simp: encode_batch_def encode_ops_Inr encode_ops_total
      split: option.splits sum.splits if_splits)

lemma reads_decode_body:
  assumes "encode_batch batch bounds = Inr bs" and "batch_fits bounds batch"
  shows "reads (decode_body bounds) bs batch"
proof -
  have n: "unat (u32_of_size (length (ops batch))) = length (ops batch)"
    using assms(2) by (simp add: batch_fits_def fits_def unat_u32_of_size)
  have ops: "reads (repeatM (length (ops batch)) (decode_op bounds))
      (concat (map encode_op (ops batch))) (ops batch)"
    using assms by (intro reads_repeatM reads_decode_op)
      (auto simp: encode_batch_Inr batch_fits_def list_all_iff)
  have "bs = cb_magic @ write_u16_le cb_codec_version @ write_u32_le cb_batch_version @
      write_u32_le (batch_flags batch) @ origin_node_id batch @ write_u64_le (seq batch) @
      write_u64_le (time_unix_ns batch) @ write_u32_le (u32_of_size (length (ops batch))) @
      concat (map encode_op (ops batch))"
    using assms by (simp add: encode_batch_Inr encode_header_def batch_fits_def)
  moreover have "reads (decode_body bounds) \<dots> batch"
    unfolding decode_body_def
    using assms ops fits_not_over [of bounds max_ops_per_batch "length (ops batch)"]
    by (intro reads_bindM [OF reads_magic] reads_bindM [OF reads_cb_u16] reads_bindM [OF reads_cb_u32]
        reads_bindM [OF reads_cb_u64] reads_bindM [OF reads_cb_bytes] reads_if_False)
      (auto simp: encode_batch_Inr batch_fits_def n intro!: reads_bindM_last reads_retI)
  ultimately show ?thesis by simp
qed


text \<open>With limits, the encoder has already checked every size.\<close>

lemma checkE_Inr: "checkE f xs = Inr u \<longleftrightarrow> list_all (\<lambda>x. f x = Inr ()) xs"
  by (induction xs) (auto split: sum.splits)

lemma exceeds_fits: "\<not> exceeds n (limit b) \<Longrightarrow> fits (Some b) limit n"
  using unsigned_less [of "limit b", where ?'a = nat] by (auto simp: fits_def)

definition keys_flagged :: "change_op \<Rightarrow> bool" where
  "keys_flagged op \<longleftrightarrow>
     (op_flags op AND OP_HAS_IDENTITY_KEY = 0 \<longrightarrow> identity_key op = []) \<and>
     (op_flags op AND OP_HAS_REVISION_KEY = 0 \<longrightarrow> revision_key op = [])"

lemma validate_op_bounds_fits:
  assumes "validate_op_bounds b op = Inr ()" and "keys_flagged op" and "max_value_len b \<noteq> 0xFFFFFFFF"
  shows "op_fits (Some b) op"
proof -
  have "unat (max_value_len b) < 2 ^ 32 - 1"
    using assms(3) unsigned_less [of "max_value_len b", where ?'a = nat]
    by (cases "unat (max_value_len b) = 2 ^ 32 - 1") (auto simp: word_unat_eq_iff)
  with assms show ?thesis
    by (auto simp: validate_op_bounds_def op_fits_def keys_flagged_def intro: exceeds_fits
        split: if_splits)
qed

lemma validate_bounds_fits:
  assumes "validate_bounds batch b = Inr ()" and "is_node_id (origin_node_id batch)"
    and "list_all keys_flagged (ops batch)" and "max_value_len b \<noteq> 0xFFFFFFFF"
  shows "batch_fits (Some b) batch"
  using assms unfolding batch_fits_def validate_bounds_def
  by (auto simp: checkE_Inr list_all_iff intro: validate_op_bounds_fits exceeds_fits split: if_splits)

lemma decode_stream_reads:
  assumes "reads (decode_body bounds) bs batch"
    and "case bounds of None \<Rightarrow> True | Some b \<Rightarrow> length bs \<le> unat (max_batch_total_bytes b)"
  shows "decode_stream (bs @ rest) bounds = Inr (batch, length bs)"
  using assms(2) reads_start [OF assms(1), of rest]
  by (auto simp: decode_stream_def open_cursor_def split: option.splits)

lemma decode_stream_encode:
  assumes "encode_batch batch bounds = Inr bs" and "batch_fits bounds batch"
  shows "decode_stream (bs @ rest) bounds = Inr (batch, length bs)"
  using assms decode_stream_reads [OF reads_decode_body [OF assms], of rest]
  by (auto simp: encode_batch_Inr split: option.splits)

lemma decode_exact_encode:
  assumes "encode_batch batch bounds = Inr bs" and "batch_fits bounds batch"
  shows "decode_exact bs bounds = Inr batch"
  using decode_stream_encode [OF assms, of "[]"] by (simp add: decode_exact_def)

section \<open>What a successful decode has established\<close>

lemma yields_cb_bytes: "yields (cb_read_bytes n) (\<lambda>bs m. length bs = n \<and> m = n)"
  unfolding cb_read_bytes_def by (rule yields_take [OF cb_checks])

lemma yields_cb_int:
  "yields cb_read_u8 (\<lambda>v m. m = 1)" "yields cb_read_u16_le (\<lambda>v m. m = 2)"
  "yields cb_read_u32_le (\<lambda>v m. m = 4)" "yields cb_read_u64_le (\<lambda>v m. m = 8)"
  unfolding cb_read_u8_def cb_read_u16_le_def cb_read_u32_le_def cb_read_u64_le_def
  by (rule yields_bindM [OF yields_cb_bytes], rule yields_ret, simp)+

lemma yields_magic: "yields check_magic (\<lambda>_ m. m = 8)"
  unfolding check_magic_def
  by (auto intro!: yields_bindM [OF yields_cb_bytes] yields_if yields_throw yields_ret
      simp: cb_magic_size_def)

lemma not_over_fits: "\<not> over bounds limit n \<Longrightarrow> fits bounds limit (unat n)"
  using unsigned_less [of n, where ?'a = nat]
  by (auto simp: over_def fits_def word_less_nat_alt split: option.splits)

lemma yields_field:
  "yields (read_field bounds limit msg)
     (\<lambda>bs m. fits bounds limit (length bs) \<and> m = length (put_bytes bs))"
  unfolding read_field_def
  by (auto intro!: yields_bindM [OF yields_cb_int(3)] yields_if yields_throw
      yields_mono [OF yields_cb_bytes] not_over_fits simp: put_bytes_def)

lemma fits_0 [simp]: "fits bounds limit 0"
  by (simp add: fits_def split: option.splits)

lemma yields_value:
  "yields (read_value bounds) (\<lambda>v m. fits bounds max_value_len (length v) \<and>
     length v \<noteq> 2 ^ 32 - 1 \<and> m = length (put_value v))"
  unfolding read_value_def
  by (auto intro!: yields_bindM [OF yields_cb_int(3)] yields_if yields_throw yields_ret
      yields_mono [OF yields_cb_bytes] not_over_fits
      simp: put_value_def put_bytes_def word_unat_eq_iff)

lemma yields_flagged:
  "yields (if c then read_field bounds limit msg else ret [])
     (\<lambda>k m. fits bounds limit (length k) \<and> (\<not> c \<longrightarrow> k = []) \<and> m = length (put_flagged c k))"
  by (auto intro!: yields_ret yields_mono [OF yields_field] simp: put_flagged_def)

lemma length_put_bytes [simp]: "length (put_bytes bs) = 4 + length bs"
  by (simp add: put_bytes_def)

lemma yields_decode_op:
  "yields (decode_op bounds)
     (\<lambda>op m. check_op op = Inr () \<and> op_fits bounds op \<and> m = length (encode_op op))"
  unfolding decode_op_def
  by (intro yields_bindM [OF yields_cb_int(1)] yields_bindM [OF yields_cb_int(3)]
      yields_bindM [OF yields_field] yields_bindM [OF yields_value]
      yields_bindM [OF yields_flagged] yields_if yields_throw yields_ret)
    (auto simp: check_op_Inr op_fits_def encode_op_def)

lemma yields_decode_body:
  "yields (decode_body bounds) (\<lambda>batch m. batch_fits bounds batch \<and>
     version batch = cb_batch_version \<and> batch_flags batch AND BATCH_COMPRESSED_ZSTD = 0 \<and>
     batch_flags batch AND NOT known_batch_mask = 0 \<and>
     list_all (\<lambda>op. check_op op = Inr ()) (ops batch) \<and>
     m = length (encode_header batch @ concat (map encode_op (ops batch))))"
proof -
  have ops: "yields (repeatM k (decode_op bounds)) (\<lambda>os m. length os = k \<and>
      list_all (\<lambda>op. check_op op = Inr ()) os \<and> list_all (op_fits bounds) os \<and>
      m = length (concat (map encode_op os)))" for k
    by (rule yields_mono [OF yields_repeatM [OF yields_decode_op]])
      (auto simp: list_all_length list_all2_conv_all_nth length_concat o_def
        intro!: arg_cong [of _ _ sum_list] nth_equalityI)
  show ?thesis
    unfolding decode_body_def
    by (intro yields_bindM [OF yields_magic] yields_bindM [OF yields_cb_int(2)]
        yields_bindM [OF yields_cb_int(3)] yields_bindM [OF yields_cb_int(4)]
        yields_bindM [OF yields_cb_bytes] yields_bindM [OF ops] yields_if yields_throw yields_ret)
      (auto simp: batch_fits_def is_node_id_def encode_header_def cb_magic_def not_over_fits)
qed

section \<open>Truncation and extension of the buffer\<close>

lemma stable_cb_bytes: "stable (cb_read_bytes n)"
  unfolding cb_read_bytes_def by (rule stable_take [OF cb_checks])

lemma stable_cb_int:
  "stable cb_read_u8" "stable cb_read_u16_le" "stable cb_read_u32_le" "stable cb_read_u64_le"
  unfolding cb_read_u8_def cb_read_u16_le_def cb_read_u32_le_def cb_read_u64_le_def
  by (intro stable_intros stable_cb_bytes)+

lemma stable_decode_op: "stable (decode_op bounds)"
  unfolding decode_op_def read_field_def read_value_def
  by (intro stable_intros stable_cb_bytes stable_cb_int)

lemma stable_decode_body: "stable (decode_body bounds)"
  unfolding decode_body_def check_magic_def
  by (intro stable_intros stable_cb_bytes stable_cb_int stable_decode_op)

lemma decode_stream_extend:
  assumes "decode_stream data bounds = Inr (batch, n)"
  shows "decode_stream (data @ rest) bounds = Inr (batch, n)"
proof -
  obtain cur where run: "decode_body bounds (open_cursor data) = (Inr batch, cur)"
    using assms by (auto simp: decode_stream_def split: prod.splits sum.splits option.splits if_splits)
  have "decode_body bounds (open_cursor (data @ rest)) = (Inr batch, cur\<lparr>cur_data := data @ rest\<rparr>)"
    using stableD [OF stable_decode_body run] by (simp add: open_cursor_def)
  with assms run show ?thesis
    by (auto simp: decode_stream_def split: option.splits if_splits)
qed

lemma decode_stream_sound:
  assumes "decode_stream data bounds = Inr (batch, n)"
  shows "n \<le> length data" and "batch_fits bounds batch"
    and "\<exists>bs. encode_batch batch bounds = Inr bs \<and> length bs = n"
proof -
  obtain cur where run: "decode_body bounds (open_cursor data) = (Inr batch, cur)"
    and total: "case bounds of None \<Rightarrow> True | Some b \<Rightarrow> n \<le> unat (max_batch_total_bytes b)"
    and n: "n = cur_pos cur"
    using assms by (auto simp: decode_stream_def split: prod.splits sum.splits option.splits if_splits)
  have *: "n \<le> length data \<and> batch_fits bounds batch \<and> version batch = cb_batch_version \<and>
      batch_flags batch AND BATCH_COMPRESSED_ZSTD = 0 \<and>
      batch_flags batch AND NOT known_batch_mask = 0 \<and>
      list_all (\<lambda>op. check_op op = Inr ()) (ops batch) \<and>
      n = length (encode_header batch @ concat (map encode_op (ops batch)))"
    using yieldsD [OF yields_decode_body run] n by (auto simp: open_cursor_def)
  then show "n \<le> length data" and "batch_fits bounds batch" by auto
  have "case bounds of None \<Rightarrow> True | Some b \<Rightarrow> validate_bounds batch b = Inr ()"
    using * by (auto simp: batch_fits_def op_fits_def fits_def validate_bounds_def
        validate_op_bounds_def checkE_Inr list_all_iff split: option.splits)
  with * total show "\<exists>bs. encode_batch batch bounds = Inr bs \<and> length bs = n"
    by (auto simp: encode_batch_Inr split: option.splits)
qed

section \<open>The codec is a faithful transport of batches\<close>


text \<open>
  C16. Everything the decoder accepts, from any peer, is a batch the encoder accepts: it obeys the
  limits, and encoding it again gives bytes of the same length that decode to the same batch.
\<close>

theorem change_batch_reencode:
  assumes "decode_exact data bounds = Inr batch"
  shows "\<exists>bs. encode_batch batch bounds = Inr bs \<and> length bs = length data \<and>
              batch_fits bounds batch \<and> decode_exact bs bounds = Inr batch"
proof -
  have "decode_stream data bounds = Inr (batch, length data)"
    using assms by (auto simp: decode_exact_def split: sum.splits if_splits)
  from decode_stream_sound(2,3) [OF this] show ?thesis
    by (auto intro: decode_exact_encode)
qed

text \<open>
  C17. A truncated encoding is never accepted: every proper prefix of an encoded batch makes the
  decoder throw, also in stream mode.
\<close>

theorem change_batch_truncated:
  assumes "encode_batch batch bounds = Inr bs" and "batch_fits bounds batch" and "k < length bs"
  shows "\<exists>e. decode_stream (take k bs) bounds = Inl e"
proof (cases "decode_stream (take k bs) bounds")
  case (Inr r)
  then obtain batch' n where r: "decode_stream (take k bs) bounds = Inr (batch', n)"
    by (cases r) auto
  from decode_stream_extend [OF r, of "drop k bs"] decode_stream_encode [OF assms(1,2), of "[]"]
  have "n = length bs" by simp
  with decode_stream_sound(1) [OF r] assms(3) show ?thesis by simp
qed auto

text \<open>A batch with every kind of field, and limits it respects.\<close>

definition example_batch :: change_batch where
  "example_batch = \<lparr>version = 1, batch_flags = 0, origin_node_id = replicate 16 7, seq = 5,
     time_unix_ns = 1000,
     ops = [\<lparr>op_type = Put, op_flags = 3, dbi_flags = 0, dbi_name = ''users'',
             storage_key = [1, 2], op_value = [3], identity_key = [9], revision_key = [0, 1]\<rparr>,
            \<lparr>op_type = Delete, op_flags = 4, dbi_flags = 0, dbi_name = ''users'',
             storage_key = [4], op_value = [], identity_key = [], revision_key = []\<rparr>]\<rparr>"

definition example_bounds :: codec_bounds where
  "example_bounds = \<lparr>max_ops_per_batch = 10, max_dbi_name_len = 20, max_storage_key_len = 20,
     max_value_len = 30, max_identity_key_len = 20, max_revision_key_len = 20,
     max_batch_total_bytes = 200, max_cursor_origins = 10, max_batches_per_message = 10,
     max_error_len = 100, max_logical_schema_id_len = 20,
     max_logical_delivery_frame_id_len = 20, max_selective_scope_id_len = 20,
     max_selective_manifest_entries = 10, max_transport_message_bytes = 200, max_snapshot_id_len = 20,
     max_snapshot_manifest_entries = 10, max_snapshot_chunk_bytes = 100\<rparr>"

definition example_bytes :: bytes where
  "example_bytes = encode_header example_batch @ concat (map encode_op (ops example_batch))"

lemma example_encodes:
  "encode_batch example_batch (Some example_bounds) = Inr example_bytes"
  by code_simp

lemma example_valid:
  "is_node_id (origin_node_id example_batch)" "list_all keys_flagged (ops example_batch)"
  "max_value_len example_bounds \<noteq> 0xFFFFFFFF"
  by (code_simp, code_simp, simp add: example_bounds_def)

lemma example_fits: "batch_fits (Some example_bounds) example_batch"
  using example_encodes example_valid by (intro validate_bounds_fits) (auto simp: encode_batch_Inr)


theorem change_batch_reencode_witness:
  "\<exists>bs. encode_batch example_batch (Some example_bounds) = Inr bs \<and>
     length bs = length example_bytes \<and> batch_fits (Some example_bounds) example_batch \<and>
     decode_exact bs (Some example_bounds) = Inr example_batch"
  by (rule change_batch_reencode [OF decode_exact_encode [OF example_encodes example_fits]])

theorem change_batch_truncated_witness:
  "\<exists>e. decode_stream (take 20 example_bytes) (Some example_bounds) = Inl e"
  by (rule change_batch_truncated [OF example_encodes example_fits]) code_simp

end
