(* ===== verification/Readers.thy ===== *)
theory Readers
  imports Change_Batch
begin

text \<open>
  The reads that the record formats of the stores and the transport frames share. Each class has
  its own bounds check and its own exception; \<open>need e\<close> is such a check, and \<open>fetch e n\<close> the check
  followed by the copy. \<open>decode_with\<close> runs a reader on a whole record.
\<close>

definition decode_with :: "(cursor, 'a) io \<Rightarrow> bytes \<Rightarrow> exn + 'a" where
  "decode_with p bs = fst (p \<lparr>cur_data = bs, cur_pos = 0\<rparr>)"

definition need :: "exn \<Rightarrow> nat \<Rightarrow> (cursor, unit) io" where
  "need e n cur = (if cur_pos cur + n > length (cur_data cur) then (Inl e, cur) else (Inr (), cur))"

definition fetch :: "exn \<Rightarrow> nat \<Rightarrow> (cursor, bytes) io" where
  "fetch e n = bindM (need e n) (\<lambda>_. cursor_take n)"

definition fetch_u8 :: "exn \<Rightarrow> (cursor, u8) io" where
  "fetch_u8 e = bindM (fetch e 1) (\<lambda>bs. ret (bs ! 0))"

definition fetch_u16 :: "exn \<Rightarrow> (cursor, u16) io" where
  "fetch_u16 e = bindM (fetch e 2) (\<lambda>bs. ret (read_u16_le bs))"

definition fetch_u32 :: "exn \<Rightarrow> (cursor, u32) io" where
  "fetch_u32 e = bindM (fetch e 4) (\<lambda>bs. ret (read_u32_le bs))"

definition fetch_u64 :: "exn \<Rightarrow> (cursor, u64) io" where
  "fetch_u64 e = bindM (fetch e 8) (\<lambda>bs. ret (read_u64_le bs))"

text \<open>The comparison of the read position with the end of the record.\<close>

definition at_end :: "(cursor, bool) io" where
  "at_end cur = (Inr (cur_pos cur = length (cur_data cur)), cur)"

lemma checks_need: "checks (need e)"
  by (auto simp: checks_def need_def)

lemma reads_fetch [reads_intros]: "length bs = n \<Longrightarrow> reads (fetch e n) bs bs"
  unfolding fetch_def by (rule reads_take [OF checks_need])

lemma reads_fetch_u8 [reads_intros]: "reads (fetch_u8 e) [b] b"
  unfolding fetch_u8_def by (rule reads_bindM_last [OF reads_fetch]) (auto simp: reads_ret)

lemma reads_fetch_u16 [reads_intros]: "reads (fetch_u16 e) (write_u16_le v) v"
  unfolding fetch_u16_def by (rule reads_bindM_last [OF reads_fetch]) (auto simp: reads_ret)

lemma reads_fetch_u32 [reads_intros]: "reads (fetch_u32 e) (write_u32_le v) v"
  unfolding fetch_u32_def by (rule reads_bindM_last [OF reads_fetch]) (auto simp: reads_ret)

lemma reads_fetch_u64 [reads_intros]: "reads (fetch_u64 e) (write_u64_le v) v"
  unfolding fetch_u64_def by (rule reads_bindM_last [OF reads_fetch]) (auto simp: reads_ret)

text \<open>A length-prefixed field whose size fits its 32-bit prefix.\<close>

lemma reads_sized [reads_intros]:
  assumes "length bs < 2 ^ 32"
    and "\<And>n. unat n = length bs \<Longrightarrow> reads (f n) bs v"
  shows "reads (bindM (fetch_u32 e) f) (put_bytes bs) v"
proof -
  have "unat (u32_of_size (length bs)) = length bs"
    using assms(1) by (simp add: unat_of_nat)
  from assms(2) [OF this] show ?thesis
    unfolding put_bytes_def by (rule reads_bindM [OF reads_fetch_u32])
qed

lemma reads_sized_then:
  assumes "length bs < 2 ^ 32"
    and "\<And>n. unat n = length bs \<Longrightarrow> reads (f n) (bs @ cs) v"
  shows "reads (bindM (fetch_u32 e) f) (put_bytes bs @ cs) v"
proof -
  have "unat (u32_of_size (length bs)) = length bs"
    using assms(1) by (simp add: unat_of_nat)
  from assms(2) [OF this] show ?thesis
    unfolding put_bytes_def append_assoc by (rule reads_bindM [OF reads_fetch_u32])
qed

lemma decode_with_reads:
  assumes "reads p bs v"
  shows "decode_with p (bs @ rest) = Inr v"
  using reads_start [OF assms, of rest] by (simp add: decode_with_def)

lemma decode_with_reads_all: "reads p bs v \<Longrightarrow> decode_with p bs = Inr v"
  using decode_with_reads [of p bs v "[]"] by simp

text \<open>The same for a reader that looks at the end of the buffer: the bytes are all that is left.\<close>

definition reads_all :: "(cursor, 'a) io \<Rightarrow> bytes \<Rightarrow> 'a \<Rightarrow> bool" where
  "reads_all p bs v \<longleftrightarrow> (\<forall>pre. p \<lparr>cur_data = pre @ bs, cur_pos = length pre\<rparr> =
     (Inr v, \<lparr>cur_data = pre @ bs, cur_pos = length pre + length bs\<rparr>))"

lemma reads_all_reads: "reads p bs v \<Longrightarrow> reads_all p bs v"
  unfolding reads_def reads_all_def by (metis append_Nil2)

lemma reads_all_bindM:
  assumes "reads p bs v" and "reads_all (f v) cs w"
  shows "reads_all (bindM p f) (bs @ cs) w"
  unfolding reads_all_def
proof
  fix pre
  have "p \<lparr>cur_data = pre @ bs @ cs, cur_pos = length pre\<rparr> =
      (Inr v, \<lparr>cur_data = (pre @ bs) @ cs, cur_pos = length (pre @ bs)\<rparr>)"
    using assms(1) unfolding reads_def by simp
  moreover have "f v \<lparr>cur_data = (pre @ bs) @ cs, cur_pos = length (pre @ bs)\<rparr> =
      (Inr w, \<lparr>cur_data = (pre @ bs) @ cs, cur_pos = length (pre @ bs) + length cs\<rparr>)"
    using assms(2) unfolding reads_all_def by blast
  ultimately show "bindM p f \<lparr>cur_data = pre @ bs @ cs, cur_pos = length pre\<rparr> =
      (Inr w, \<lparr>cur_data = pre @ bs @ cs, cur_pos = length pre + length (bs @ cs)\<rparr>)"
    by (simp add: bindM_def add.assoc)
qed

lemma reads_all_bindM_last:
  "reads p bs v \<Longrightarrow> reads_all (f v) [] w \<Longrightarrow> reads_all (bindM p f) bs w"
  using reads_all_bindM [of p bs v f "[]" w] by simp

lemma reads_all_bindM_nil:
  "reads p [] v \<Longrightarrow> reads_all (f v) cs w \<Longrightarrow> reads_all (bindM p f) cs w"
  using reads_all_bindM [of p "[]" v f cs w] by simp

lemma reads_all_at_end: "reads_all (f True) [] w \<Longrightarrow> reads_all (bindM at_end f) [] w"
  by (simp add: reads_all_def bindM_def at_end_def)

lemma reads_all_if_False: "\<not> c \<Longrightarrow> reads_all p bs v \<Longrightarrow> reads_all (if c then k else p) bs v"
  by simp

lemma reads_all_if_True: "c \<Longrightarrow> reads_all k bs v \<Longrightarrow> reads_all (if c then k else p) bs v"
  by simp

lemma reads_all_ret: "v = w \<Longrightarrow> reads_all (ret v) [] w"
  by (simp add: reads_all_reads reads_retI)

lemma reads_all_sized:
  assumes "length bs < 2 ^ 32"
    and "\<And>n. unat n = length bs \<Longrightarrow> reads_all (f n) (bs @ cs) v"
  shows "reads_all (bindM (fetch_u32 e) f) (put_bytes bs @ cs) v"
proof -
  have "unat (u32_of_size (length bs)) = length bs"
    using assms(1) by (simp add: unat_of_nat)
  from assms(2) [OF this] show ?thesis
    unfolding put_bytes_def append_assoc by (rule reads_all_bindM [OF reads_fetch_u32])
qed

lemma decode_with_all: "reads_all p bs v \<Longrightarrow> decode_with p bs = Inr v"
  unfolding reads_all_def decode_with_def
  by (metis append_Nil fst_conv list.size(3))

subsection \<open>What a read leaves behind\<close>

text \<open>The byte lists of a fixed length are exactly the images of the integers of that width.\<close>

lemma write_read_fixed:
  fixes w :: "'a :: len word \<Rightarrow> bytes"
  assumes inv: "\<And>v. r (w v) = v" and len: "\<And>v. length (w v) = n" and "LENGTH('a) = 8 * n"
    and bs: "length bs = n"
  shows "w (r bs) = bs"
proof -
  let ?L = "{xs :: bytes. set xs \<subseteq> UNIV \<and> length xs = n}"
  have "inj w" using inv by (metis injI)
  then have "card (range w) = 2 ^ (8 * n)" using assms(3) by (simp add: card_image card_word)
  also have "\<dots> = card ?L" by (simp only: card_lists_length_eq [OF finite] card_word power_mult) simp
  finally have "range w = ?L"
    using len by (intro card_subset_eq finite_lists_length_eq finite) auto
  with bs obtain v where "bs = w v" by auto
  then show ?thesis by (simp add: inv)
qed

lemmas write_read_le =
  write_read_fixed [where w = write_u16_le, OF read_write_u16_le length_write_u16_le]
  write_read_fixed [where w = write_u32_le, OF read_write_u32_le length_write_u32_le]
  write_read_fixed [where w = write_u64_le, OF read_write_u64_le length_write_u64_le]

lemma yields_fetch: "yields (fetch e n) (\<lambda>bs m. length bs = n \<and> m = n)"
  unfolding fetch_def by (rule yields_take [OF checks_need])

lemma yields_fetch_int:
  "yields (fetch_u8 e) (\<lambda>v m. m = 1)" "yields (fetch_u16 e) (\<lambda>v m. m = 2)"
  "yields (fetch_u32 e) (\<lambda>v m. m = 4)" "yields (fetch_u64 e) (\<lambda>v m. m = 8)"
  unfolding fetch_u8_def fetch_u16_def fetch_u32_def fetch_u64_def
  by (rule yields_bindM [OF yields_fetch], rule yields_ret, simp)+

text \<open>
  \<open>mirrors p enc\<close>: whatever the buffer holds, if the reader returns \<open>v\<close>, then it stayed inside the
  buffer and the bytes it consumed are the encoding \<open>enc v\<close>. A reader that mirrors an encoder
  accepts one encoding per value only.
\<close>

definition mirrors :: "(cursor, 'a) io \<Rightarrow> ('a \<Rightarrow> bytes) \<Rightarrow> ('a \<Rightarrow> bool) \<Rightarrow> bool" where
  "mirrors p enc ok \<longleftrightarrow> (\<forall>c v c'. p c = (Inr v, c') \<longrightarrow> cur_pos c \<le> length (cur_data c) \<longrightarrow>
     c' = c\<lparr>cur_pos := cur_pos c + length (enc v)\<rparr> \<and>
     take (length (enc v)) (drop (cur_pos c) (cur_data c)) = enc v \<and>
     cur_pos c + length (enc v) \<le> length (cur_data c) \<and> ok v)"

lemma mirrorsD:
  "mirrors p enc ok \<Longrightarrow> p c = (Inr v, c') \<Longrightarrow> cur_pos c \<le> length (cur_data c) \<Longrightarrow>
     c' = c\<lparr>cur_pos := cur_pos c + length (enc v)\<rparr> \<and>
     take (length (enc v)) (drop (cur_pos c) (cur_data c)) = enc v \<and>
     cur_pos c + length (enc v) \<le> length (cur_data c) \<and> ok v"
  unfolding mirrors_def by blast

lemma mirrors_ret: "enc v = [] \<Longrightarrow> ok v \<Longrightarrow> mirrors (ret v) enc ok"
  by (auto simp: mirrors_def run_simps)

lemma mirrors_throw: "mirrors (throw e) enc ok"
  by (auto simp: mirrors_def run_simps)

lemma mirrors_if:
  "(c \<Longrightarrow> mirrors p enc ok) \<Longrightarrow> (\<not> c \<Longrightarrow> mirrors q enc ok) \<Longrightarrow> mirrors (if c then p else q) enc ok"
  by auto

lemma mirrors_bindM:
  assumes p: "mirrors p enc1 ok1"
    and f: "\<And>v. ok1 v \<Longrightarrow> mirrors (f v) (enc2 v) (\<lambda>w. ok w \<and> enc w = enc1 v @ enc2 v w)"
  shows "mirrors (bindM p f) enc ok"
  unfolding mirrors_def
proof (intro allI impI)
  fix c w c'
  assume run: "bindM p f c = (Inr w, c')" and pos: "cur_pos c \<le> length (cur_data c)"
  then obtain v c1 where 1: "p c = (Inr v, c1)" and 2: "f v c1 = (Inr w, c')"
    by (auto simp: bindM_def split: prod.splits sum.splits)
  note m1 = mirrorsD [OF p 1 pos]
  from m1 have pos1: "cur_pos c1 \<le> length (cur_data c1)" by auto
  from m1 have "ok1 v" by blast
  from mirrorsD [OF f [OF this] 2 pos1] m1
  show "c' = c\<lparr>cur_pos := cur_pos c + length (enc w)\<rparr> \<and>
     take (length (enc w)) (drop (cur_pos c) (cur_data c)) = enc w \<and>
     cur_pos c + length (enc w) \<le> length (cur_data c) \<and> ok w"
    by (auto simp: take_add drop_drop add.commute add.assoc)
qed

lemma mirrors_fetch: "mirrors (fetch e n) (\<lambda>bs. bs) (\<lambda>bs. length bs = n)"
  unfolding mirrors_def fetch_def need_def cursor_take_def bindM_def
  by (auto split: if_splits)

lemma mirrors_map:
  assumes "mirrors p enc1 ok1" and "\<And>v. ok1 v \<Longrightarrow> ok (g v) \<and> enc (g v) = enc1 v"
  shows "mirrors (bindM p (\<lambda>v. ret (g v))) enc ok"
  by (rule mirrors_bindM [where ?enc2.0 = "\<lambda>_ _. []", OF assms(1)], rule mirrors_ret)
    (use assms(2) in auto)

lemma mirrors_mono:
  assumes "mirrors p enc1 ok1" and "\<And>v. ok1 v \<Longrightarrow> ok v \<and> enc v = enc1 v"
  shows "mirrors p enc ok"
  unfolding mirrors_def
proof (intro allI impI)
  fix c v c'
  assume "p c = (Inr v, c')" "cur_pos c \<le> length (cur_data c)"
  note m = mirrorsD [OF assms(1) this]
  then have "ok v" "enc v = enc1 v" using assms(2) by blast+
  with m show "c' = c\<lparr>cur_pos := cur_pos c + length (enc v)\<rparr> \<and>
     take (length (enc v)) (drop (cur_pos c) (cur_data c)) = enc v \<and>
     cur_pos c + length (enc v) \<le> length (cur_data c) \<and> ok v"
    by simp
qed

lemma mirrors_fetch_u8: "mirrors (fetch_u8 e) (\<lambda>v. [v]) (\<lambda>_. True)"
  unfolding fetch_u8_def by (rule mirrors_map [OF mirrors_fetch]) (auto simp: length_Suc_conv)

lemma mirrors_fetch_int:
  "mirrors (fetch_u16 e) write_u16_le (\<lambda>_. True)"
  "mirrors (fetch_u32 e) write_u32_le (\<lambda>_. True)" "mirrors (fetch_u64 e) write_u64_le (\<lambda>_. True)"
  unfolding fetch_u16_def fetch_u32_def fetch_u64_def
  by (rule mirrors_map [OF mirrors_fetch], simp add: write_read_le)+

lemma mirrors_all:
  assumes "mirrors p enc ok"
    and "p \<lparr>cur_data = bs, cur_pos = 0\<rparr> = (Inr v, c)" and "cur_pos c = length (cur_data c)"
  shows "bs = enc v" and "ok v"
  using mirrorsD [OF assms(1,2)] assms(3) by auto

end
