(* ===== verification/Writers.thy ===== *)
theory Writers
  imports Readers
begin

text \<open>
  Encoders that can throw, and what it means that a decoder reads what an encoder writes. An
  encoder appends the parts of a frame in order; \<open>joinE\<close> does so and stops at the first part that
  throws. \<open>agrees w p v\<close>: whatever \<open>w\<close> writes, the reader \<open>p\<close> reads back as \<open>v\<close>. The rules follow
  the two programs step by step, so a round trip is proved along their text.
\<close>

fun joinE :: "(exn + bytes) list \<Rightarrow> exn + bytes" where
  "joinE [] = Inr []"
| "joinE (w # ws) = (case w of Inl e \<Rightarrow> Inl e
     | Inr bs \<Rightarrow> (case joinE ws of Inl e \<Rightarrow> Inl e | Inr cs \<Rightarrow> Inr (bs @ cs)))"

text \<open>A statement of an encoder that only checks.\<close>

definition guardE :: "bool \<Rightarrow> exn \<Rightarrow> exn + bytes" where
  "guardE bad e = (if bad then Inl e else Inr [])"

text \<open>A call of a validation function, and a final check of the whole frame.\<close>

definition callE :: "exn + unit \<Rightarrow> exn + bytes" where
  "callE r = (case r of Inl e \<Rightarrow> Inl e | Inr _ \<Rightarrow> Inr [])"

definition finishE :: "exn + bytes \<Rightarrow> (bytes \<Rightarrow> exn + unit) \<Rightarrow> exn + bytes" where
  "finishE w f = (case w of Inl e \<Rightarrow> Inl e
     | Inr bs \<Rightarrow> (case f bs of Inl e \<Rightarrow> Inl e | Inr _ \<Rightarrow> Inr bs))"

text \<open>Validation functions: a sequence of checks, each refusing one bad condition.\<close>

definition refuse :: "bool \<Rightarrow> exn \<Rightarrow> exn + unit" where
  "refuse bad e = (if bad then Inl e else Inr ())"

fun seqE :: "(exn + unit) list \<Rightarrow> exn + unit" where
  "seqE [] = Inr ()"
| "seqE (r # rs) = (case r of Inl e \<Rightarrow> Inl e | Inr _ \<Rightarrow> seqE rs)"

lemma refuse_Inr [simp]: "refuse bad e = Inr u \<longleftrightarrow> \<not> bad"
  by (simp add: refuse_def)

lemma seqE_Inr [simp]: "seqE rs = Inr u \<longleftrightarrow> (\<forall>r \<in> set rs. r = Inr ())"
  by (induction rs) (auto split: sum.splits)

lemma joinE_Cons_Inr:
  "joinE (w # ws) = Inr bs \<longleftrightarrow> (\<exists>b c. w = Inr b \<and> joinE ws = Inr c \<and> bs = b @ c)"
  by (auto split: sum.splits)

text \<open>A sequence is taken apart by what it returns, not unrolled.\<close>

declare joinE.simps(2) [simp del] seqE.simps(2) [simp del]

lemma joinE_Nil_Inr: "joinE [] = Inr bs \<longleftrightarrow> bs = []"
  by auto

lemma guardE_Inr [simp]: "guardE bad e = Inr bs \<longleftrightarrow> \<not> bad \<and> bs = []"
  by (auto simp: guardE_def)

lemma callE_Inr [simp]: "callE r = Inr bs \<longleftrightarrow> r = Inr () \<and> bs = []"
  by (auto simp: callE_def split: sum.splits)

lemma finishE_Inr: "finishE w f = Inr bs \<longleftrightarrow> w = Inr bs \<and> f bs = Inr ()"
  by (auto simp: finishE_def split: sum.splits)

section \<open>Agreement of an encoder and a decoder\<close>

definition agrees :: "exn + bytes \<Rightarrow> (cursor, 'a) io \<Rightarrow> 'a \<Rightarrow> bool" where
  "agrees w p v \<longleftrightarrow> (\<forall>bs. w = Inr bs \<longrightarrow> reads p bs v)"

named_theorems agrees_intros \<open>agreement of the parts of a frame\<close>

lemma agreesI: "(\<And>bs. w = Inr bs \<Longrightarrow> reads p bs v) \<Longrightarrow> agrees w p v"
  by (simp add: agrees_def)

lemma agreesD: "agrees w p v \<Longrightarrow> w = Inr bs \<Longrightarrow> reads p bs v"
  by (simp add: agrees_def)

lemma agrees_Inr [agrees_intros]: "reads p bs v \<Longrightarrow> agrees (Inr bs) p v"
  by (simp add: agrees_def)

lemma agrees_step:
  assumes "agrees w p v" and "agrees (joinE ws) (f v) r"
  shows "agrees (joinE (w # ws)) (bindM p f) r"
  using assms unfolding agrees_def joinE_Cons_Inr by (auto intro: reads_bindM)

lemma agrees_done: "v = r \<Longrightarrow> agrees (joinE []) (ret v) r"
  by (simp add: agrees_def reads_ret)

lemma agrees_last:
  assumes "agrees w p v"
  shows "agrees (joinE [w]) p v"
  using assms by (auto simp: agrees_def joinE_Cons_Inr)

text \<open>A check on the way: the decoder may use that it passed.\<close>

lemma agrees_guard:
  "(\<not> bad \<Longrightarrow> agrees (joinE ws) p v) \<Longrightarrow> agrees (joinE (guardE bad e # ws)) p v"
  by (auto simp: agrees_def joinE_Cons_Inr)

lemma agrees_call:
  "(r = Inr () \<Longrightarrow> agrees (joinE ws) p v) \<Longrightarrow> agrees (joinE (callE r # ws)) p v"
  by (auto simp: agrees_def joinE_Cons_Inr)

lemma agrees_if_False: "\<not> c \<Longrightarrow> agrees w p v \<Longrightarrow> agrees w (if c then k else p) v"
  by simp

lemma agrees_liftE: "m = Inr x \<Longrightarrow> agrees w (f x) v \<Longrightarrow> agrees w (bindM (liftE m) f) v"
  by (simp add: agrees_def liftE_def bindM_def reads_def run_simps)

lemma agrees_ret_bind: "agrees w (f x) v \<Longrightarrow> agrees w (bindM (ret x) f) v"
  by (simp add: agrees_def bindM_def reads_def run_simps)

lemma agrees_repeatM:
  assumes "\<And>x. x \<in> set xs \<Longrightarrow> agrees (w x) q x"
  shows "agrees (joinE (map w xs)) (repeatM (length xs) q) xs"
  using assms
proof (induction xs)
  case (Cons x xs)
  have "agrees (joinE (map w xs)) (bindM (repeatM (length xs) q) (\<lambda>ys. ret (x # ys))) (x # xs)"
    using Cons unfolding agrees_def by (auto intro!: reads_bindM_last reads_ret)
  with Cons.prems show ?case
    by (auto intro!: agrees_step)
qed (simp add: agrees_def reads_ret)

section \<open>Common parts\<close>

text \<open>A length prefix and its bytes, with the check that the length fits 32 bits.\<close>

definition sizedE :: "string \<Rightarrow> bytes \<Rightarrow> exn + bytes" where
  "sizedE label bs = (if int (length bs) > 0xFFFFFFFF then Inl (LengthError label) else Inr (put_bytes bs))"

lemma sizedE_Inr: "sizedE label bs = Inr out \<longleftrightarrow> length bs < 2 ^ 32 \<and> out = put_bytes bs"
  by (auto simp: sizedE_def)

lemma agrees_sized:
  assumes "\<And>n. length bs < 2 ^ 32 \<Longrightarrow> unat n = length bs \<Longrightarrow> reads (f n) bs v"
  shows "agrees (sizedE label bs) (bindM (fetch_u32 e) f) v"
  using assms unfolding agrees_def sizedE_Inr by (auto intro: reads_sized)

text \<open>A nested frame that a decoder takes out whole and hands to another decoder.\<close>

lemma agrees_sized_then:
  assumes "\<And>n. length bs < 2 ^ 32 \<Longrightarrow> unat n = length bs \<Longrightarrow> agrees (joinE (Inr bs # ws)) (f n) v"
  shows "agrees (joinE (sizedE label bs # ws)) (bindM (fetch_u32 e) f) v"
proof (rule agreesI)
  fix out
  assume "joinE (sizedE label bs # ws) = Inr out"
  then obtain c where c: "length bs < 2 ^ 32" "joinE ws = Inr c" "out = put_bytes bs @ c"
    by (auto simp: joinE_Cons_Inr sizedE_Inr)
  have "reads (f n) (bs @ c) v" if "unat n = length bs" for n
    using assms [OF c(1) that] c(2) by (auto simp: agrees_def joinE_Cons_Inr)
  with c show "reads (bindM (fetch_u32 e) f) out v" by (auto intro: reads_sized_then)
qed

lemma unat_le_limit: "\<not> exceeds n limit \<Longrightarrow> unat m = n \<Longrightarrow> \<not> (m :: u32) > limit"
  by (simp add: word_less_nat_alt)

section \<open>Whole frames\<close>

text \<open>A decoder that insists on the end of the buffer, after an encoder it agrees with.\<close>

definition agrees_all :: "exn + bytes \<Rightarrow> (cursor, 'a) io \<Rightarrow> 'a \<Rightarrow> bool" where
  "agrees_all w p v \<longleftrightarrow> (\<forall>bs. w = Inr bs \<longrightarrow> reads_all p bs v)"

lemma agrees_allD: "agrees_all w p v \<Longrightarrow> w = Inr bs \<Longrightarrow> reads_all p bs v"
  by (simp add: agrees_all_def)

lemma agrees_all_step:
  assumes "agrees w p v" and "agrees_all (joinE ws) (f v) r"
  shows "agrees_all (joinE (w # ws)) (bindM p f) r"
  using assms unfolding agrees_def agrees_all_def joinE_Cons_Inr by (auto intro: reads_all_bindM)

lemma agrees_all_call:
  "(r = Inr () \<Longrightarrow> agrees_all (joinE ws) p v) \<Longrightarrow> agrees_all (joinE (callE r # ws)) p v"
  by (auto simp: agrees_all_def joinE_Cons_Inr)

lemma agrees_all_guard:
  "(\<not> bad \<Longrightarrow> agrees_all (joinE ws) p v) \<Longrightarrow> agrees_all (joinE (guardE bad e # ws)) p v"
  by (auto simp: agrees_all_def joinE_Cons_Inr)

lemma agrees_all_nil: "reads_all p [] v \<Longrightarrow> agrees_all (joinE []) p v"
  by (simp add: agrees_all_def)

lemma agrees_all_if_False: "\<not> c \<Longrightarrow> agrees_all w p v \<Longrightarrow> agrees_all w (if c then k else p) v"
  by simp

lemma reads_all_liftE: "m = Inr () \<Longrightarrow> reads_all (f ()) bs v \<Longrightarrow> reads_all (bindM (liftE m) f) bs v"
  by (simp add: reads_all_def liftE_def bindM_def run_simps)

text \<open>A decoder that ends with the check for trailing bytes and a validation.\<close>

definition then_validate :: "exn \<Rightarrow> ('a \<Rightarrow> exn + unit) \<Rightarrow> 'a \<Rightarrow> (cursor, 'a) io" where
  "then_validate trailing f v = bindM at_end (\<lambda>fin.
     if \<not> fin then throw trailing else bindM (liftE (f v)) (\<lambda>_. ret v))"

lemma reads_all_then_validate: "f v = Inr () \<Longrightarrow> reads_all (then_validate e f v) [] v"
  by (simp add: then_validate_def reads_all_def bindM_def at_end_def liftE_def run_simps)

lemma then_validate_Inr:
  assumes "decode_with (bindM p (then_validate e f)) bs = Inr v"
  shows "f v = Inr ()"
  using assms
  by (auto simp: then_validate_def decode_with_def bindM_def at_end_def liftE_def run_simps
      split: sum.splits prod.splits if_splits)

end
