(* ===== verification/Appenders.thy ===== *)
theory Appenders
  imports Writers
begin

text \<open>
  Encoders that check the size of the buffer before every append, and decoders that accept one
  encoding per value only. \<open>emits lim f c bs\<close>: the encoder \<open>f\<close> succeeds precisely when \<open>c\<close> holds and its
  bytes \<open>bs\<close> still fit under the limit, and then it appends \<open>bs\<close>. With \<open>mirrors\<close> for the decoder, this
  characterises both directions of a format by one pure encoding function.
\<close>

type_synonym appender = "bytes \<Rightarrow> exn + bytes"

text \<open>
  \<open>ensure_append_size\<close> followed by the append; \<open>overflow\<close> and \<open>large\<close> are the exceptions of the class. An
  empty part is not checked.
\<close>

definition ensure_append_size :: "exn \<Rightarrow> exn \<Rightarrow> u32 \<Rightarrow> nat \<Rightarrow> bytes \<Rightarrow> exn + unit" where
  "ensure_append_size overflow large lim n out =
    (if int n > 0xFFFFFFFFFFFFFFFF - int (length out) then Inl overflow
     else if int (length out + n) > uint lim then Inl large else Inr ())"

definition capA :: "exn \<Rightarrow> exn \<Rightarrow> u32 \<Rightarrow> bytes \<Rightarrow> appender" where
  "capA overflow large lim bs out =
    (if bs = [] then Inr out
     else case ensure_append_size overflow large lim (length bs) out of Inl e \<Rightarrow> Inl e | Inr _ \<Rightarrow> Inr (out @ bs))"

definition guardA :: "bool \<Rightarrow> exn \<Rightarrow> appender" where
  "guardA bad e out = (if bad then Inl e else Inr out)"

fun runA :: "appender list \<Rightarrow> appender" where
  "runA [] out = Inr out"
| "runA (f # fs) out = (case f out of Inl e \<Rightarrow> Inl e | Inr out' \<Rightarrow> runA fs out')"

definition emits :: "u32 \<Rightarrow> appender \<Rightarrow> bool \<Rightarrow> bytes \<Rightarrow> bool" where
  "emits lim f c bs \<longleftrightarrow> (\<forall>out out'. length out \<le> unat lim \<longrightarrow>
     (f out = Inr out' \<longleftrightarrow> c \<and> out' = out @ bs \<and> length out + length bs \<le> unat lim))"

named_theorems emits_intros \<open>what the parts of a frame append\<close>

lemma emitsD:
  "emits lim f c bs \<Longrightarrow> f [] = Inr out \<longleftrightarrow> c \<and> out = bs \<and> length bs \<le> unat lim"
  by (auto simp: emits_def)

lemma case_sum_Inr:
  "(case r of Inl x \<Rightarrow> Inl x | Inr v \<Rightarrow> f v) = Inr w \<longleftrightarrow> (\<exists>v. r = Inr v \<and> f v = Inr w)"
  by (cases r) auto

lemma emits_capA [emits_intros]: "emits lim (capA overflow large lim bs) True bs"
proof -
  have "ensure_append_size overflow large lim (length bs) out = Inr () \<longleftrightarrow> length out + length bs \<le> unat lim" for out
  proof -
    define l where "l = uint lim"
    have l: "l < 4294967296" "int (unat lim) = l"
      using uint_lt2p [of lim] by (simp_all add: l_def)
    then have "length out + length bs \<le> unat lim \<longleftrightarrow> int (length out) + int (length bs) \<le> l"
      by linarith
    with l(1) show ?thesis by (simp add: ensure_append_size_def flip: l_def)
  qed
  then show ?thesis
    by (auto simp: emits_def capA_def split: sum.splits if_splits) (metis sum.distinct(1))
qed

lemma emits_guardA [emits_intros]: "emits lim (guardA bad e) (\<not> bad) []"
  by (auto simp: emits_def guardA_def)

lemma emits_Nil [emits_intros]: "emits lim (runA []) True []"
  by (auto simp: emits_def)

lemma emits_Cons [emits_intros]:
  assumes "emits lim f c bs" and "emits lim (runA fs) d cs"
  shows "emits lim (runA (f # fs)) (c \<and> d) (bs @ cs)"
  unfolding emits_def
proof (intro allI impI)
  fix out out' :: bytes
  assume out: "length out \<le> unat lim"
  show "runA (f # fs) out = Inr out' \<longleftrightarrow>
    (c \<and> d) \<and> out' = out @ bs @ cs \<and> length out + length (bs @ cs) \<le> unat lim"
  proof (cases "f out")
    case (Inl e)
    then have "\<not> (c \<and> length out + length bs \<le> unat lim)"
      using assms(1) out unfolding emits_def by (metis sum.distinct(1))
    with Inl show ?thesis by auto
  next
    case (Inr out1)
    then have 1: "c" "out1 = out @ bs" "length out + length bs \<le> unat lim"
      using assms(1) out unfolding emits_def by blast+
    then have "length out1 \<le> unat lim" by simp
    then have "runA fs out1 = Inr out' \<longleftrightarrow> d \<and> out' = out1 @ cs \<and> length out1 + length cs \<le> unat lim"
      using assms(2) unfolding emits_def by blast
    with Inr 1 show ?thesis by auto
  qed
qed

lemma emits_map:
  assumes "\<And>x. x \<in> set xs \<Longrightarrow> emits lim (g x) (c x) (enc x)"
  shows "emits lim (runA (map g xs)) (\<forall>x \<in> set xs. c x) (concat (map enc xs))"
  using assms
proof (induction xs)
  case (Cons x xs)
  have "emits lim (runA (g x # map g xs)) (c x \<and> (\<forall>y \<in> set xs. c y)) (enc x @ concat (map enc xs))"
    by (rule emits_Cons [OF Cons.prems Cons.IH]) (use Cons.prems in simp_all)
  then show ?case by (simp del: runA.simps)
next
  case Nil
  show ?case using emits_Nil by (simp del: runA.simps)
qed

lemma emits_cong: "emits lim f c bs \<Longrightarrow> c = d \<Longrightarrow> bs = cs \<Longrightarrow> emits lim f d cs"
  by simp

text \<open>A size with the check that it fits 32 bits.\<close>

definition sizeA :: "exn \<Rightarrow> exn \<Rightarrow> u32 \<Rightarrow> nat \<Rightarrow> string \<Rightarrow> appender" where
  "sizeA overflow large lim n label = runA [
     guardA (int n > 0xFFFFFFFF) (LengthError label),
     capA overflow large lim (write_u32_le (u32_of_size n))]"

lemma emits_sizeA [emits_intros]:
  "emits lim (sizeA overflow large lim n label) (n < 2 ^ 32) (write_u32_le (u32_of_size n))"
  unfolding sizeA_def
  by (rule emits_cong, (rule emits_intros)+) auto

section \<open>Decoders that mirror an encoding\<close>

lemma mirrors_repeatM:
  assumes "mirrors p enc good"
  shows "mirrors (repeatM n p) (\<lambda>xs. concat (map enc xs)) (\<lambda>xs. length xs = n \<and> (\<forall>x \<in> set xs. good x))"
proof (induction n)
  case 0
  show ?case by (simp add: mirrors_ret)
next
  case (Suc n)
  show ?case
    unfolding repeatM.simps
    by (rule mirrors_bindM [where ?enc2.0 = "\<lambda>_ w. concat (map enc (tl w))", OF assms],
        rule mirrors_map [OF Suc.IH]) auto
qed

text \<open>A length prefix and its bytes.\<close>

lemma mirrors_sized:
  assumes "\<And>n :: u32. mirrors (f n) enc (\<lambda>v. good v \<and> length (enc v) = unat n)"
  shows "mirrors (bindM (fetch_u32 e) f) (\<lambda>v. put_bytes (enc v)) good"
proof (rule mirrors_bindM [where ?enc2.0 = "\<lambda>_. enc", OF mirrors_fetch_int(2)])
  fix n :: u32
  have "u32_of_size (unat n) = n" by simp
  then show "mirrors (f n) enc (\<lambda>v. good v \<and> put_bytes (enc v) = write_u32_le n @ enc v)"
    by (intro mirrors_mono [OF assms]) (auto simp: put_bytes_def)
qed

lemma mirrors_check:
  assumes "\<not> bad \<Longrightarrow> mirrors p enc good"
  shows "mirrors (if bad then throw e else p) enc (\<lambda>v. good v \<and> \<not> bad)"
  using assms by (cases bad) (auto simp: mirrors_throw)

lemma mirrors_liftE:
  assumes "\<And>v. r = Inr v \<Longrightarrow> mirrors (f v) enc good"
  shows "mirrors (bindM (liftE r) f) enc good"
  using assms by (cases r) (auto simp: liftE_def mirrors_def bindM_def run_simps)

text \<open>The next field of a record of type \<open>'a\<close> whose encoding starts with \<open>first w\<close>.\<close>

lemma mirrors_field:
  assumes "mirrors p enc1 good1"
    and "\<And>v. good1 v \<Longrightarrow> mirrors (f v) rest (\<lambda>w. good w \<and> first w = enc1 v)"
  shows "mirrors (bindM p f) (\<lambda>w. first w @ rest w) good"
  by (rule mirrors_bindM [where ?enc2.0 = "\<lambda>_. rest", OF assms(1)])
    (rule mirrors_mono [OF assms(2)], auto)

lemma mirrors_field_last:
  assumes "mirrors p enc1 good1"
    and "\<And>v. good1 v \<Longrightarrow> mirrors (f v) (\<lambda>_. []) (\<lambda>w. good w \<and> first w = enc1 v)"
  shows "mirrors (bindM p f) first good"
  using mirrors_field [where rest = "\<lambda>_. []", OF assms] by simp

lemma mirrors_guard:
  "(\<not> bad \<Longrightarrow> mirrors p enc good) \<Longrightarrow> mirrors (if bad then throw e else p) enc good"
  by (simp add: mirrors_throw)

text \<open>The closing check that no byte is left.\<close>

definition consumed :: "exn \<Rightarrow> 'a \<Rightarrow> (cursor, 'a) io" where
  "consumed e v = bindM at_end (\<lambda>fin. if fin then ret v else throw e)"

lemma decode_consumed_iff:
  assumes m: "mirrors p enc good" and r: "\<And>v. good v \<Longrightarrow> reads p (enc v) v"
  shows "decode_with (bindM p (consumed e)) data = Inr v \<longleftrightarrow> good v \<and> data = enc v"
proof
  assume "decode_with (bindM p (consumed e)) data = Inr v"
  then obtain w c where "p \<lparr>cur_data = data, cur_pos = 0\<rparr> = (Inr w, c)"
      and "fst (consumed e w c) = Inr v"
    by (auto simp: decode_with_def bindM_def split: prod.splits sum.splits)
  moreover from this(2) have "w = v" "cur_pos c = length (cur_data c)"
    by (auto simp: consumed_def bindM_def at_end_def run_simps split: if_splits)
  ultimately show "good v \<and> data = enc v" using mirrors_all [OF m] by blast
next
  assume "good v \<and> data = enc v"
  then have "reads_all (bindM p (consumed e)) data v"
    using r by (auto simp: consumed_def intro!: reads_all_bindM_last reads_all_at_end reads_all_ret)
  then show "decode_with (bindM p (consumed e)) data = Inr v" by (rule decode_with_all)
qed

end
