(* ===== verification/Sortable_Words.thy ===== *)
theory Sortable_Words
  imports Bytes
begin

unbundle bit_operations_syntax

text \<open>
  Words as sort keys: flipping the top bit turns the signed order into the unsigned one, big-endian
  bytes are read back digit by digit, and the bit patterns of IEEE 754 numbers have a key with the
  order of the numbers. \<open>ieee_order\<close> is that order, the sign applied to the remaining bits.
\<close>

section \<open>Signed numbers and bytes\<close>

lemma xor_top_bit:
  fixes a :: "'a::len word"
  assumes k: "LENGTH('a) = Suc k"
  shows "a XOR 2 ^ k = a + 2 ^ k"
proof (cases "bit a k")
  case True
  let ?b = "a AND NOT (2 ^ k)"
  have "2 ^ k + 2 ^ k = (2 ^ LENGTH('a) :: 'a word)" unfolding k by simp
  then have t2: "2 ^ k + 2 ^ k = (0 :: 'a word)" by simp
  have d: "?b AND 2 ^ k = 0" by (rule bit_word_eqI) (auto simp: bit_simps)
  have a: "a = ?b OR 2 ^ k" using True k by (intro bit_word_eqI) (auto simp: bit_simps)
  have "a + 2 ^ k = ?b + (2 ^ k + 2 ^ k)"
    by (subst a) (simp only: disjunctive_add_eq_or [OF d, symmetric] add.assoc)
  then have "a + 2 ^ k = ?b" unfolding t2 by simp
  moreover have "a XOR 2 ^ k = ?b" using True k by (intro bit_word_eqI) (auto simp: bit_simps)
  ultimately show ?thesis by simp
next
  case False
  have "a AND 2 ^ k = 0" using False by (intro bit_word_eqI) (auto simp: bit_simps)
  then show ?thesis using disjunctive_add_eq_xor [of a "2 ^ k"] by simp
qed

lemma uint_xor_top_bit:
  fixes a :: "'a::len word"
  assumes k: "LENGTH('a) = Suc k"
  shows "uint (a XOR 2 ^ k) = sint a + 2 ^ k"
proof -
  have "a + 2 ^ k = word_of_int (uint a + 2 ^ k)" by simp
  then have "uint (a + 2 ^ k) = take_bit (Suc k) (uint a + 2 ^ k)"
    by (simp only: uint_word_of_int_eq k)
  moreover have "sint a + 2 ^ k = take_bit (Suc k) (uint a + 2 ^ k)"
    using signed_take_bit_eq_take_bit_shift [of k "uint a"] by (simp add: sint_uint k)
  ultimately show ?thesis by (simp add: xor_top_bit [OF k])
qed

lemma be_step: "push_bit 8 (word_of_nat n :: 'a::len word) OR ucast (b :: u8) = word_of_nat (n * 256 + unat b)"
proof -
  have "push_bit 8 (word_of_nat n :: 'a word) AND ucast b = 0"
    by (rule bit_word_eqI) (auto simp: bit_simps dest: bit_imp_le_length)
  then have "push_bit 8 (word_of_nat n :: 'a word) OR ucast b = push_bit 8 (word_of_nat n) + ucast b"
    by (simp add: disjunctive_add_eq_or)
  also have "\<dots> = word_of_nat (n * 256 + unat b)"
    by (simp add: push_bit_eq_mult)
  finally show ?thesis .
qed
lemma be_read: "foldl (\<lambda>value b. push_bit 8 value OR ucast b) (word_of_nat n :: 'a::len word) bs =
    word_of_nat (foldl (\<lambda>n (b :: u8). n * 256 + unat b) n bs)"
proof (induction bs arbitrary: n)
  case (Cons b bs)
  show ?case using Cons.IH [of "n * 256 + unat b"] unfolding foldl_Cons be_step .
qed simp

lemma be_read_val: "foldl (\<lambda>value b. push_bit 8 value OR ucast b) (0 :: 'a::len word) bs = word_of_nat (be_val bs)"
  using be_read [of 0 bs] by (simp add: be_val_def)

section \<open>Floating-point numbers\<close>

definition ieee_order :: "'a::len word \<Rightarrow> int" where
  "ieee_order u = (let m = uint (u AND mask (LENGTH('a) - 1)) in if bit u (LENGTH('a) - 1) then - m else m)"

definition ieee_key :: "'a::len word \<Rightarrow> 'a word" where
  "ieee_key f = (let u = (if f AND mask (LENGTH('a) - 1) = 0 then 0 else f) in
     if bit u (LENGTH('a) - 1) then NOT u else u XOR 2 ^ (LENGTH('a) - 1))"

lemma uint_not: "uint (NOT (a :: 'a::len word)) = 2 ^ LENGTH('a) - 1 - uint a"
  by (simp add: unsigned_not_eq take_bit_not_eq_mask_diff mask_eq_exp_minus_1 flip: unsigned_take_bit_eq)

lemma uint_top_bit:
  assumes k: "LENGTH('a::len) = Suc k"
  shows "uint (2 ^ k :: 'a word) = 2 ^ k"
proof -
  have "(2 ^ k :: 'a word) = word_of_int (2 ^ k)" by simp
  then have "uint (2 ^ k :: 'a word) = take_bit (Suc k) (2 ^ k)" by (simp only: uint_word_of_int_eq k)
  then show ?thesis by (simp add: take_bit_eq_mod)
qed

lemma uint_split_top:
  fixes u :: "'a::len word"
  assumes k: "LENGTH('a) = Suc k"
  shows "uint u = uint (u AND mask k) + (if bit u k then 2 ^ k else 0)"
proof -
  have "uint u = take_bit (Suc k) (uint u)" using k by (metis take_bit_length_eq unsigned_take_bit_eq)
  also have "\<dots> = 2 ^ k * of_bool (bit (uint u) k) + take_bit k (uint u)" by (rule take_bit_Suc_from_most)
  also have "bit (uint u) k = bit u k" using k by (simp add: bit_uint_iff)
  also have "take_bit k (uint u) = uint (u AND mask k)" by (simp add: unsigned_take_bit_eq flip: take_bit_eq_mask)
  finally show ?thesis by simp
qed

lemma uint_ieee_key:
  fixes f :: "'a::len word"
  assumes k: "LENGTH('a) = Suc k"
  shows "uint (ieee_key f) = (if ieee_order f < 0 then 2 ^ k - 1 + ieee_order f else 2 ^ k + ieee_order f)"
proof (cases "f AND mask k = 0")
  case True
  then show ?thesis using uint_top_bit [OF k] by (simp add: ieee_key_def ieee_order_def k)
next
  case False
  then have m: "uint (f AND mask k) > 0" by (metis uint_0_iff uint_ge_0 order_le_imp_less_or_eq)
  show ?thesis
  proof (cases "bit f k")
    case True
    then show ?thesis using False m uint_split_top [OF k, of f]
      by (simp add: ieee_key_def ieee_order_def k uint_not)
  next
    case nb: False
    have "uint (f XOR 2 ^ k) = sint f + 2 ^ k" by (rule uint_xor_top_bit [OF k])
    moreover have "sint f = uint (f AND mask k)" using nb
      by (simp add: sint_uint k signed_take_bit_eq_if_positive bit_uint_iff unsigned_take_bit_eq flip: take_bit_eq_mask)
    ultimately show ?thesis using False nb m uint_split_top [OF k, of f]
      by (simp add: ieee_key_def ieee_order_def k)
  qed
qed

lemma ieee_order_bound:
  fixes f :: "'a::len word"
  assumes k: "LENGTH('a) = Suc k"
  shows "\<bar>ieee_order f\<bar> < 2 ^ k"
proof -
  have "uint (f AND mask k) < 2 ^ k"
    by (simp add: unsigned_take_bit_eq flip: take_bit_eq_mask)
  then show ?thesis by (simp add: ieee_order_def k Let_def)
qed

lemma ieee_key_inverse:
  fixes f :: "'a::len word"
  assumes k: "LENGTH('a) = Suc k" and "f \<noteq> 2 ^ k"
  shows "(if bit (ieee_key f) k then ieee_key f XOR 2 ^ k else NOT (ieee_key f)) = f"
proof (cases "f AND mask k = 0")
  case True
  then have "uint f = (if bit f k then 2 ^ k else 0)" using uint_split_top [OF k, of f] by simp
  then have "f = 0" using assms(2) by (metis uint_0_iff word_uint_eq_iff uint_top_bit [OF k])
  then show ?thesis using True k by (simp add: ieee_key_def bit_simps)
next
  case False
  then show ?thesis using k by (auto simp: ieee_key_def bit_simps xor.assoc)
qed

lemma and_top_bit: "(u :: 'a::len word) AND 2 ^ k \<noteq> 0 \<longleftrightarrow> bit u k" if "k < LENGTH('a)"
  using that by (simp add: and_exp_eq_0_iff_not_bit)

lemma ieee_key_less:
  fixes f g :: "'a::len word"
  assumes k: "LENGTH('a) = Suc k"
  shows "ieee_key f < ieee_key g \<longleftrightarrow> ieee_order f < ieee_order g"
  unfolding word_less_def uint_ieee_key [OF k] by auto

end
