(* ===== verification/Composite_Key.thy ===== *)
theory Composite_Key
  imports Appenders Sortable_Words Change_Batch
begin

unbundle bit_operations_syntax

text \<open>
  \<^verbatim>\<open>include/mdbx_containers/CompositeKey.hpp\<close> with the sortable key transformations of
  \<^verbatim>\<open>detail/utils.hpp\<close>: typed composite keys whose bytes compare like their components. The types of
  the components are template arguments of the class; here they are a list of \<open>part_type\<close>.
\<close>

section \<open>Sortable integers and floating-point numbers\<close>

text \<open>A \<open>float\<close> or \<open>double\<close> is its IEEE 754 bit pattern, as the code handles it.\<close>

definition sortable_key_from_float :: "u32 \<Rightarrow> exn + u32" where
  "sortable_key_from_float f = (let magnitude = f AND 0x7fffffff in
     if magnitude > 0x7f800000
     then Inl (InvalidArgument ''serialize_key: NaN floating-point keys are not supported'')
     else let u = (if magnitude = 0 then 0 else f) in
       Inr (if u AND 0x80000000 \<noteq> 0 then NOT u else u XOR 0x80000000))"

definition sortable_key_from_double :: "u64 \<Rightarrow> exn + u64" where
  "sortable_key_from_double d = (let magnitude = d AND 0x7fffffffffffffff in
     if magnitude > 0x7ff0000000000000
     then Inl (InvalidArgument ''serialize_key: NaN floating-point keys are not supported'')
     else let u = (if magnitude = 0 then 0 else d) in
       Inr (if u AND 0x8000000000000000 \<noteq> 0 then NOT u else u XOR 0x8000000000000000))"

definition float_from_sortable_key :: "u32 \<Rightarrow> u32" where
  "float_from_sortable_key key = (if key AND 0x80000000 \<noteq> 0 then key XOR 0x80000000 else NOT key)"

definition double_from_sortable_key :: "u64 \<Rightarrow> u64" where
  "double_from_sortable_key key =
     (if key AND 0x8000000000000000 \<noteq> 0 then key XOR 0x8000000000000000 else NOT key)"

definition sortable_key_from_signed_int32 :: "int \<Rightarrow> u32" where
  "sortable_key_from_signed_int32 key = word_of_int key XOR 0x80000000"

definition signed_int32_from_sortable_key :: "u32 \<Rightarrow> int" where
  "signed_int32_from_sortable_key key = sint (key XOR 0x80000000)"

definition sortable_key_from_signed_int64 :: "int \<Rightarrow> u64" where
  "sortable_key_from_signed_int64 key = word_of_int key XOR 0x8000000000000000"

definition signed_int64_from_sortable_key :: "u64 \<Rightarrow> int" where
  "signed_int64_from_sortable_key key = sint (key XOR 0x8000000000000000)"

text \<open>A code unit of \<open>w\<close> bits is the unsigned number of its object bits.\<close>

definition code_unit_key_bits :: "nat \<Rightarrow> u32" where
  "code_unit_key_bits bits = word_of_nat bits"

definition code_unit_key_from_bits :: "nat \<Rightarrow> u32 \<Rightarrow> exn + nat" where
  "code_unit_key_from_bits w raw = (if uint raw > 2 ^ w - 1
     then Inl (RuntimeError ''deserialize_key: code unit value out of range'') else Inr (unat raw))"

section \<open>Bytes of the components\<close>

definition ck_truncated :: exn where
  "ck_truncated = RuntimeError ''CompositeKey::from_bytes: truncated component''"

text \<open>\<open>i\<close> counts down from the size of the integer.\<close>

fun composite_key_append_big_endian :: "nat \<Rightarrow> 'a::len word \<Rightarrow> bytes" where
  "composite_key_append_big_endian 0 value = []"
| "composite_key_append_big_endian (Suc i) value =
     ucast (drop_bit (i * 8) value) # composite_key_append_big_endian i value"

definition composite_key_read_big_endian :: "nat \<Rightarrow> (cursor, 'a::len word) io" where
  "composite_key_read_big_endian n = bindM (fetch ck_truncated n) (\<lambda>bs.
     ret (foldl (\<lambda>value b. push_bit 8 value OR ucast b) 0 bs))"

definition composite_key_checked_integral_cast :: "int \<Rightarrow> int \<Rightarrow> int \<Rightarrow> exn + int" where
  "composite_key_checked_integral_cast minimum maximum value =
    (if value < minimum \<or> value > maximum
     then Inl (RuntimeError ''CompositeKey::from_bytes: integral component out of range'') else Inr value)"

fun composite_key_append_terminated_bytes :: "bytes \<Rightarrow> bytes" where
  "composite_key_append_terminated_bytes [] = [0, 0]"
| "composite_key_append_terminated_bytes (b # bs) =
     (if b = 0 then [0, 0xff] else [b]) @ composite_key_append_terminated_bytes bs"

text \<open>The loop over the bytes up to \<open>end\<close>: what has been read and how many bytes were used.\<close>

fun terminated_loop :: "bytes \<Rightarrow> nat \<Rightarrow> bytes \<Rightarrow> exn + bytes \<times> nat" where
  "terminated_loop out n [] =
     Inl (RuntimeError ''CompositeKey::from_bytes: missing byte component terminator'')"
| "terminated_loop out n (b # bs) =
    (if b \<noteq> 0 then terminated_loop (out @ [b]) (n + 1) bs
     else case bs of
       [] \<Rightarrow> Inl (RuntimeError ''CompositeKey::from_bytes: truncated byte component'')
     | escaped # rest \<Rightarrow>
        if escaped = 0 then Inr (out, n + 2)
        else if escaped = 0xff then terminated_loop (out @ [0]) (n + 2) rest
        else Inl (RuntimeError ''CompositeKey::from_bytes: invalid byte component escape''))"

definition composite_key_read_terminated_bytes :: "(cursor, bytes) io" where
  "composite_key_read_terminated_bytes cur = (case terminated_loop [] 0 (drop (cur_pos cur) (cur_data cur)) of
     Inl e \<Rightarrow> (Inl e, cur)
   | Inr (out, n) \<Rightarrow> (Inr out, cur\<lparr>cur_pos := cur_pos cur + n\<rparr>))"

section \<open>Components\<close>

text \<open>
  \<open>IntegralT w signed wide\<close>: an integral type of \<open>w\<close> bits; \<open>wide\<close> is whether its keys are stored in 64 bits,
  which the library also chooses for 32-bit \<open>long\<close>. \<open>CodeUnitT w\<close>: a character type of \<open>w\<close> bits.
\<close>

datatype part_type = IntegralT nat bool bool | CodeUnitT nat | BoolT | FloatT | DoubleT | StringT | BytesT

datatype part = IntegralP int | CodeUnitP nat | BoolP bool | FloatP u32 | DoubleP u64 | StringP string | BytesP bytes

definition integral_min :: "nat \<Rightarrow> bool \<Rightarrow> int" where
  "integral_min w sgnd = (if sgnd then - (2 ^ (w - 1)) else 0)"

definition integral_max :: "nat \<Rightarrow> bool \<Rightarrow> int" where
  "integral_max w sgnd = (if sgnd then 2 ^ (w - 1) - 1 else 2 ^ w - 1)"

definition part_append :: "part_type \<Rightarrow> part \<Rightarrow> exn + bytes" where
  "part_append t p = (case (t, p) of
     (IntegralT w sgnd wide, IntegralP v) \<Rightarrow> Inr (
       if \<not> wide then composite_key_append_big_endian 4
         (if sgnd then sortable_key_from_signed_int32 v else word_of_int v :: u32)
       else composite_key_append_big_endian 8
         (if sgnd then sortable_key_from_signed_int64 v else word_of_int v :: u64))
   | (CodeUnitT w, CodeUnitP v) \<Rightarrow> Inr (composite_key_append_big_endian 4 (code_unit_key_bits v))
   | (BoolT, BoolP v) \<Rightarrow> Inr (composite_key_append_big_endian 4 (if v then 1 else 0 :: u32))
   | (FloatT, FloatP v) \<Rightarrow> (case sortable_key_from_float v of Inl e \<Rightarrow> Inl e
       | Inr key \<Rightarrow> Inr (composite_key_append_big_endian 4 key))
   | (DoubleT, DoubleP v) \<Rightarrow> (case sortable_key_from_double v of Inl e \<Rightarrow> Inl e
       | Inr key \<Rightarrow> Inr (composite_key_append_big_endian 8 key))
   | (StringT, StringP v) \<Rightarrow> Inr (composite_key_append_terminated_bytes (bytes_of_string v))
   | (BytesT, BytesP v) \<Rightarrow> Inr (composite_key_append_terminated_bytes v)
   | _ \<Rightarrow> Inl LoopBound)"

definition part_read :: "part_type \<Rightarrow> (cursor, part) io" where
  "part_read t = (case t of
     IntegralT w sgnd wide \<Rightarrow>
      (if \<not> wide then bindM (composite_key_read_big_endian 4) (\<lambda>raw :: u32.
         bindM (liftE (composite_key_checked_integral_cast (integral_min w sgnd) (integral_max w sgnd)
           (if sgnd then signed_int32_from_sortable_key raw else uint raw))) (\<lambda>v. ret (IntegralP v)))
       else bindM (composite_key_read_big_endian 8) (\<lambda>raw :: u64.
         bindM (liftE (composite_key_checked_integral_cast (integral_min w sgnd) (integral_max w sgnd)
           (if sgnd then signed_int64_from_sortable_key raw else uint raw))) (\<lambda>v. ret (IntegralP v))))
   | CodeUnitT w \<Rightarrow> bindM (composite_key_read_big_endian 4) (\<lambda>raw.
       bindM (liftE (code_unit_key_from_bits w raw)) (\<lambda>v. ret (CodeUnitP v)))
   | BoolT \<Rightarrow> bindM (composite_key_read_big_endian 4) (\<lambda>raw :: u32.
       if raw > 1 then throw (RuntimeError ''CompositeKey::from_bytes: invalid bool component'')
       else ret (BoolP (raw \<noteq> 0)))
   | FloatT \<Rightarrow> bindM (composite_key_read_big_endian 4) (\<lambda>raw.
       let v = float_from_sortable_key raw in
       if sortable_key_from_float v \<noteq> Inr raw
       then throw (RuntimeError ''CompositeKey::from_bytes: invalid or non-canonical float component'')
       else ret (FloatP v))
   | DoubleT \<Rightarrow> bindM (composite_key_read_big_endian 8) (\<lambda>raw.
       let v = double_from_sortable_key raw in
       if sortable_key_from_double v \<noteq> Inr raw
       then throw (RuntimeError ''CompositeKey::from_bytes: invalid or non-canonical double component'')
       else ret (DoubleP v))
   | StringT \<Rightarrow> bindM composite_key_read_terminated_bytes (\<lambda>bs. ret (StringP (string_of_bytes bs)))
   | BytesT \<Rightarrow> bindM composite_key_read_terminated_bytes (\<lambda>bs. ret (BytesP bs)))"

section \<open>Keys\<close>

fun ck_append :: "part_type list \<Rightarrow> part list \<Rightarrow> exn + bytes" where
  "ck_append [] [] = Inr []"
| "ck_append (t # ts) (p # ps) = (case part_append t p of Inl e \<Rightarrow> Inl e
     | Inr bs \<Rightarrow> (case ck_append ts ps of Inl e \<Rightarrow> Inl e | Inr cs \<Rightarrow> Inr (bs @ cs)))"
| "ck_append _ _ = Inl LoopBound"

fun ck_read :: "part_type list \<Rightarrow> (cursor, part list) io" where
  "ck_read [] = ret []"
| "ck_read (t # ts) = bindM (part_read t) (\<lambda>p. bindM (ck_read ts) (\<lambda>ps. ret (p # ps)))"

definition to_bytes :: "part_type list \<Rightarrow> part list \<Rightarrow> exn + bytes" where
  "to_bytes ts ps = ck_append ts ps"

text \<open>\<open>None\<close> is a null \<open>data\<close> pointer.\<close>

definition from_bytes :: "part_type list \<Rightarrow> bytes option \<Rightarrow> exn + part list" where
  "from_bytes ts data = (case data of
     None \<Rightarrow> Inl (RuntimeError ''CompositeKey::from_bytes: null input'')
   | Some bs \<Rightarrow> decode_with (bindM (ck_read ts)
       (consumed (RuntimeError ''CompositeKey::from_bytes: trailing bytes''))) bs)"

text \<open>\<open>operator<\<close> compares the serialized bytes.\<close>

definition ck_less :: "part_type list \<Rightarrow> part list \<Rightarrow> part list \<Rightarrow> exn + bool" where
  "ck_less ts ps qs = (case to_bytes ts ps of Inl e \<Rightarrow> Inl e
     | Inr a \<Rightarrow> (case to_bytes ts qs of Inl e \<Rightarrow> Inl e | Inr b \<Rightarrow> Inr (a < b)))"

section \<open>Bytes of an integer\<close>

lemma length_append_be [simp]: "length (composite_key_append_big_endian n v) = n"
  by (induction n) auto

lemma be_val_append: "be_val (composite_key_append_big_endian n v) = unat v mod 2 ^ (8 * n)"
proof (induction n)
  case 0
  show ?case by (simp add: be_val_def)
next
  case (Suc n)
  have "unat (ucast (drop_bit (n * 8) v) :: u8) = unat v div 2 ^ (n * 8) mod 256"
    by (simp only: unsigned_ucast_eq unat_drop_bit_eq) (simp add: take_bit_eq_mod drop_bit_eq_div)
  moreover have "(256 :: nat) ^ n = 2 ^ (8 * n)" by (simp add: power_mult)
  ultimately have "be_val (composite_key_append_big_endian (Suc n) v) =
      unat v div 2 ^ (8 * n) mod 256 * 2 ^ (8 * n) + unat v mod 2 ^ (8 * n)"
    by (simp add: be_val_Cons Suc.IH mult.commute)
  also have "\<dots> = unat v mod (2 ^ (8 * n) * 256)" by (simp add: mod_mult2_eq)
  finally show ?case by (simp add: power_add mult.commute)
qed

text \<open>Both widths the class uses; the integer is as wide as its bytes.\<close>

lemma be_val_word:
  fixes v :: "'a::len word"
  assumes "LENGTH('a) = 8 * n"
  shows "be_val (composite_key_append_big_endian n v) = unat v"
  using unsigned_less [of v, where ?'a = nat] assms by (simp add: be_val_append)

lemma append_be_less:
  fixes v w :: "'a::len word"
  assumes "LENGTH('a) = 8 * n"
  shows "composite_key_append_big_endian n v < composite_key_append_big_endian n w \<longleftrightarrow> v < w"
  using be_val_less [of "composite_key_append_big_endian n v" "composite_key_append_big_endian n w"]
  by (simp add: be_val_word [OF assms] word_less_nat_alt)

lemma be_val_inj: "length xs = length ys \<Longrightarrow> be_val xs = be_val ys \<longleftrightarrow> xs = ys"
  using be_val_less [of xs ys] be_val_less [of ys xs] by (metis linorder_neq_iff)

lemma append_be_of_read:
  assumes "LENGTH('a::len) = 8 * n" and "length bs = n"
  shows "composite_key_append_big_endian n (word_of_nat (be_val bs) :: 'a word) = bs"
proof -
  have "be_val bs < 2 ^ LENGTH('a)" using be_val_bound [of bs] assms by (simp add: power_mult)
  then have "be_val (composite_key_append_big_endian n (word_of_nat (be_val bs) :: 'a word)) = be_val bs"
    by (simp add: be_val_word [OF assms(1)] unat_of_nat)
  then show ?thesis using assms(2) by (subst (asm) be_val_inj) simp_all
qed

lemma mirrors_read_be:
  assumes "LENGTH('a::len) = 8 * n"
  shows "mirrors (composite_key_read_big_endian n :: (cursor, 'a word) io) (composite_key_append_big_endian n) (\<lambda>_. True)"
  unfolding composite_key_read_big_endian_def be_read_val
  by (rule mirrors_map [OF mirrors_fetch]) (simp add: append_be_of_read [OF assms])

lemma reads_read_be:
  fixes v :: "'a::len word"
  assumes "LENGTH('a) = 8 * n"
  shows "reads (composite_key_read_big_endian n) (composite_key_append_big_endian n v) v"
  unfolding composite_key_read_big_endian_def be_read_val
  by (rule reads_bindM_last [OF reads_fetch]) (auto simp: be_val_word [OF assms] intro: reads_retI)

section \<open>Terminated bytes\<close>

abbreviation esc :: "bytes \<Rightarrow> bytes" where
  "esc \<equiv> composite_key_append_terminated_bytes"

lemma terminated_loop_esc: "terminated_loop out n (esc v @ rest) = Inr (out @ v, n + length (esc v))"
  by (induction v arbitrary: out n) auto

lemma terminated_loop_Inr:
  "terminated_loop out n bs = Inr (res, m) \<Longrightarrow> \<exists>v rest. res = out @ v \<and> bs = esc v @ rest \<and> m = n + length (esc v)"
proof (induction out n bs rule: terminated_loop.induct)
  case (2 out n b bs)
  show ?case
  proof (cases "b = 0")
    case False
    then obtain v rest where "res = (out @ [b]) @ v" "bs = esc v @ rest" "m = n + 1 + length (esc v)"
      using 2 by auto
    then show ?thesis using False by (intro exI [of _ "b # v"] exI [of _ rest]) auto
  next
    case True
    obtain e es where bs: "bs = e # es" using 2(3) True by (cases bs) auto
    show ?thesis
    proof (cases "e = 0")
      case True
      then show ?thesis using 2(3) \<open>b = 0\<close> bs by (intro exI [of _ "[]"] exI [of _ es]) auto
    next
      case False
      then have "e = 0xff" using 2(3) \<open>b = 0\<close> bs by (auto split: if_splits)
      then obtain v rest where "res = (out @ [0]) @ v" "es = esc v @ rest" "m = n + 2 + length (esc v)"
        using 2 \<open>b = 0\<close> bs False by auto
      then show ?thesis using \<open>b = 0\<close> bs \<open>e = 0xff\<close> by (intro exI [of _ "0 # v"] exI [of _ rest]) auto
    qed
  qed
qed simp

lemma mirrors_terminated: "mirrors composite_key_read_terminated_bytes esc (\<lambda>_. True)"
  unfolding mirrors_def
proof (intro allI impI)
  fix c v c'
  assume "composite_key_read_terminated_bytes c = (Inr v, c')" and le: "cur_pos c \<le> length (cur_data c)"
  then obtain n where "terminated_loop [] 0 (drop (cur_pos c) (cur_data c)) = Inr (v, n)"
      and c': "c' = c\<lparr>cur_pos := cur_pos c + n\<rparr>"
    by (auto simp: composite_key_read_terminated_bytes_def split: sum.splits prod.splits)
  from terminated_loop_Inr [OF this(1)] obtain rest
    where bs: "drop (cur_pos c) (cur_data c) = esc v @ rest" and n: "n = length (esc v)" by auto
  have "length (cur_data c) - cur_pos c = length (esc v) + length rest"
    using arg_cong [OF bs, of length] by simp
  then have "cur_pos c + length (esc v) \<le> length (cur_data c)" using le by simp
  with bs n c' show "c' = c\<lparr>cur_pos := cur_pos c + length (esc v)\<rparr> \<and>
      take (length (esc v)) (drop (cur_pos c) (cur_data c)) = esc v \<and>
      cur_pos c + length (esc v) \<le> length (cur_data c) \<and> True" by simp
qed

lemma reads_terminated: "reads composite_key_read_terminated_bytes (esc v) v"
  by (auto simp: reads_def composite_key_read_terminated_bytes_def terminated_loop_esc)

section \<open>Types and orders of components\<close>

definition type_ok :: "part_type \<Rightarrow> bool" where
  "type_ok t = (case t of IntegralT w sgnd wide \<Rightarrow> w \<in> {8, 16, 32, 64} \<and> (w = 64 \<longrightarrow> wide)
     | CodeUnitT w \<Rightarrow> w \<in> {8, 16, 32} | _ \<Rightarrow> True)"

definition part_typed :: "part_type \<Rightarrow> part \<Rightarrow> bool" where
  "part_typed t p = (case (t, p) of
     (IntegralT w sgnd wide, IntegralP v) \<Rightarrow> integral_min w sgnd \<le> v \<and> v \<le> integral_max w sgnd
   | (CodeUnitT w, CodeUnitP v) \<Rightarrow> v < 2 ^ w
   | (BoolT, BoolP v) \<Rightarrow> True | (FloatT, FloatP v) \<Rightarrow> True | (DoubleT, DoubleP v) \<Rightarrow> True
   | (StringT, StringP v) \<Rightarrow> True | (BytesT, BytesP v) \<Rightarrow> True | _ \<Rightarrow> False)"

text \<open>A component that is not the negative zero of a floating-point type.\<close>

definition part_canonical :: "part \<Rightarrow> bool" where
  "part_canonical p = (case p of FloatP v \<Rightarrow> v \<noteq> 0x80000000 | DoubleP v \<Rightarrow> v \<noteq> 0x8000000000000000 | _ \<Rightarrow> True)"

text \<open>The order of the values: integers, code units and truth values as numbers, IEEE 754 numbers by
  sign and magnitude, strings and byte vectors lexicographically by unsigned bytes.\<close>

definition part_less :: "part \<Rightarrow> part \<Rightarrow> bool" where
  "part_less p q = (case (p, q) of
     (IntegralP v, IntegralP w) \<Rightarrow> v < w | (CodeUnitP v, CodeUnitP w) \<Rightarrow> v < w
   | (BoolP v, BoolP w) \<Rightarrow> \<not> v \<and> w
   | (FloatP v, FloatP w) \<Rightarrow> ieee_order v < ieee_order w | (DoubleP v, DoubleP w) \<Rightarrow> ieee_order v < ieee_order w
   | (StringP v, StringP w) \<Rightarrow> bytes_of_string v < bytes_of_string w | (BytesP v, BytesP w) \<Rightarrow> v < w
   | _ \<Rightarrow> False)"

fun parts_less :: "part list \<Rightarrow> part list \<Rightarrow> bool" where
  "parts_less (p # ps) (q # qs) \<longleftrightarrow> part_less p q \<or> \<not> part_less q p \<and> parts_less ps qs"
| "parts_less _ _ \<longleftrightarrow> False"

section \<open>Keys of the fixed-size components\<close>

lemma float_key:
  "sortable_key_from_float f = (if f AND 0x7fffffff > 0x7f800000
     then Inl (InvalidArgument ''serialize_key: NaN floating-point keys are not supported'') else Inr (ieee_key f))"
proof -
  have m: "mask 31 = (0x7fffffff :: u32)" by (simp add: mask_eq_exp_minus_1)
  have b: "u AND 0x80000000 \<noteq> 0 \<longleftrightarrow> bit u 31" for u :: u32 using and_top_bit [of 31 u] by simp
  show ?thesis by (simp add: sortable_key_from_float_def ieee_key_def Let_def m b)
qed

lemma double_key:
  "sortable_key_from_double f = (if f AND 0x7fffffffffffffff > 0x7ff0000000000000
     then Inl (InvalidArgument ''serialize_key: NaN floating-point keys are not supported'') else Inr (ieee_key f))"
proof -
  have m: "mask 63 = (0x7fffffffffffffff :: u64)" by (simp add: mask_eq_exp_minus_1)
  have b: "u AND 0x8000000000000000 \<noteq> 0 \<longleftrightarrow> bit u 63" for u :: u64 using and_top_bit [of 63 u] by simp
  show ?thesis by (simp add: sortable_key_from_double_def ieee_key_def Let_def m b)
qed

lemma float_from_key: "f \<noteq> 0x80000000 \<Longrightarrow> float_from_sortable_key (ieee_key f) = f"
  using ieee_key_inverse [of 31 f] and_top_bit [of 31 "ieee_key f"]
  by (cases "bit (ieee_key f) 31") (simp_all add: float_from_sortable_key_def)

lemma double_from_key: "f \<noteq> 0x8000000000000000 \<Longrightarrow> double_from_sortable_key (ieee_key f) = f"
  using ieee_key_inverse [of 63 f] and_top_bit [of 63 "ieee_key f"]
  by (cases "bit (ieee_key f) 63") (simp_all add: double_from_sortable_key_def)

lemma neg_zero_key: "ieee_key (0x80000000 :: u32) = 0x80000000" "ieee_key (0x8000000000000000 :: u64) = 0x8000000000000000"
  by (simp_all add: ieee_key_def mask_eq_exp_minus_1)

text \<open>The numbers of each integral type fit the width of its keys.\<close>

lemma integral_fits32:
  assumes "type_ok (IntegralT w sgnd False)" "integral_min w sgnd \<le> v" "v \<le> integral_max w sgnd"
  shows "sgnd \<Longrightarrow> sint (word_of_int v :: u32) = v" "\<not> sgnd \<Longrightarrow> uint (word_of_int v :: u32) = v"
proof -
  have w: "w = 8 \<or> w = 16 \<or> w = 32" using assms(1) by (auto simp: type_ok_def)
  show "sgnd \<Longrightarrow> sint (word_of_int v :: u32) = v"
    using assms(2,3) w by (auto simp: integral_min_def integral_max_def int_word_sint)
  show "\<not> sgnd \<Longrightarrow> uint (word_of_int v :: u32) = v"
    using assms(2,3) w by (auto simp: integral_min_def integral_max_def uint_word_of_int_eq take_bit_int_eq_self_iff)
qed

lemma integral_fits64:
  assumes "type_ok (IntegralT w sgnd True)" "integral_min w sgnd \<le> v" "v \<le> integral_max w sgnd"
  shows "sgnd \<Longrightarrow> sint (word_of_int v :: u64) = v" "\<not> sgnd \<Longrightarrow> uint (word_of_int v :: u64) = v"
proof -
  have w: "w = 8 \<or> w = 16 \<or> w = 32 \<or> w = 64" using assms(1) by (auto simp: type_ok_def)
  show "sgnd \<Longrightarrow> sint (word_of_int v :: u64) = v"
    using assms(2,3) w by (auto simp: integral_min_def integral_max_def int_word_sint)
  show "\<not> sgnd \<Longrightarrow> uint (word_of_int v :: u64) = v"
    using assms(2,3) w by (auto simp: integral_min_def integral_max_def uint_word_of_int_eq take_bit_int_eq_self_iff)
qed

lemma sint_xor32: "sint ((raw :: u32) XOR 0x80000000) = uint raw - 0x80000000"
  using uint_xor_top_bit [of 31 "raw XOR 0x80000000"] by (simp add: xor.assoc)

lemma sint_xor64: "sint ((raw :: u64) XOR 0x8000000000000000) = uint raw - 0x8000000000000000"
  using uint_xor_top_bit [of 63 "raw XOR 0x8000000000000000"] by (simp add: xor.assoc)

definition part_enc :: "part_type \<Rightarrow> part \<Rightarrow> bytes" where
  "part_enc t p = (case part_append t p of Inl _ \<Rightarrow> [] | Inr bs \<Rightarrow> bs)"

definition part_good :: "part_type \<Rightarrow> part \<Rightarrow> bool" where
  "part_good t p \<longleftrightarrow> part_typed t p \<and> part_canonical p \<and> part_append t p = Inr (part_enc t p)"

lemma length_words: "LENGTH(32) = 8 * 4" "LENGTH(64) = 8 * 8"
  by simp_all

lemmas read_be = mirrors_field_last [OF mirrors_read_be [OF length_words(1)]]
  mirrors_field_last [OF mirrors_read_be [OF length_words(2)]]

lemmas part_defs = part_good_def part_enc_def part_typed_def part_canonical_def part_append_def

lemma mirrors_part_read:
  assumes "type_ok t"
  shows "mirrors (part_read t) (part_enc t) (part_good t)"
proof (cases t)
  case (IntegralT w sgnd wide)
  have twice: "(raw XOR c) XOR c = raw" for raw c :: "'a::len word" by (simp add: xor.assoc)
  show ?thesis
  proof (cases wide)
    case False
    show ?thesis unfolding part_read_def IntegralT part_type.case if_P [OF \<open>\<not> wide\<close>]
      by (rule read_be(1), rule mirrors_liftE, rule mirrors_ret)
         (use False in \<open>auto simp: part_defs composite_key_checked_integral_cast_def signed_int32_from_sortable_key_def
            sortable_key_from_signed_int32_def twice split: if_splits\<close>)
  next
    case True
    then have "\<not> \<not> wide" by simp
    show ?thesis unfolding part_read_def IntegralT part_type.case if_not_P [OF \<open>\<not> \<not> wide\<close>]
      by (rule read_be(2), rule mirrors_liftE, rule mirrors_ret)
         (use True in \<open>auto simp: part_defs composite_key_checked_integral_cast_def signed_int64_from_sortable_key_def
            sortable_key_from_signed_int64_def twice split: if_splits\<close>)
  qed
next
  case (CodeUnitT w)
  have w: "w \<le> 32" using assms CodeUnitT by (auto simp: type_ok_def)
  have cu: "code_unit_key_from_bits w raw = Inr v \<Longrightarrow> v < 2 ^ w \<and> word_of_nat v = raw" for raw v
  proof -
    assume "code_unit_key_from_bits w raw = Inr v"
    then have v: "v = unat raw" "uint raw < 2 ^ w" by (simp_all add: code_unit_key_from_bits_def split: if_splits)
    have "int v < int (2 ^ w)" using v by simp
    then have "v < 2 ^ w" by (simp only: of_nat_less_iff)
    then show "v < 2 ^ w \<and> word_of_nat v = raw" using v(1) by simp
  qed
  show ?thesis unfolding part_read_def CodeUnitT part_type.case
    by (rule read_be(1), rule mirrors_liftE, rule mirrors_ret) (auto simp: part_defs code_unit_key_bits_def dest: cu)
next
  case BoolT
  have bl: "(raw :: u32) \<le> 1 \<Longrightarrow> (if raw \<noteq> 0 then 1 else 0) = raw" for raw
    by (metis word_le_less_eq word_less_1)
  show ?thesis unfolding part_read_def BoolT part_type.case
    by (rule read_be(1), rule mirrors_guard, rule mirrors_ret) (use bl in \<open>auto simp: part_defs not_less\<close>)
next
  case FloatT
  have nz: "sortable_key_from_float v = Inr raw \<Longrightarrow> v = float_from_sortable_key raw \<Longrightarrow> v \<noteq> 0x80000000" for v raw
    by (auto simp: float_key neg_zero_key float_from_sortable_key_def split: if_splits)
  show ?thesis unfolding part_read_def FloatT part_type.case Let_def
    by (rule read_be(1), rule mirrors_guard, rule mirrors_ret) (use nz in \<open>auto simp: part_defs\<close>)
next
  case DoubleT
  have nz: "sortable_key_from_double v = Inr raw \<Longrightarrow> v = double_from_sortable_key raw \<Longrightarrow> v \<noteq> 0x8000000000000000" for v raw
    by (auto simp: double_key neg_zero_key double_from_sortable_key_def split: if_splits)
  show ?thesis unfolding part_read_def DoubleT part_type.case Let_def
    by (rule read_be(2), rule mirrors_guard, rule mirrors_ret) (use nz in \<open>auto simp: part_defs\<close>)
next
  case StringT
  show ?thesis unfolding part_read_def StringT part_type.case
    by (rule mirrors_map [OF mirrors_terminated]) (simp add: part_defs)
next
  case BytesT
  show ?thesis unfolding part_read_def BytesT part_type.case
    by (rule mirrors_map [OF mirrors_terminated]) (simp add: part_defs)
qed

lemma reads_part_read:
  assumes "type_ok t" "part_good t p"
  shows "reads (part_read t) (part_enc t p) p"
proof -
  note be = reads_bindM_last [OF reads_read_be [OF length_words(1)]] reads_bindM_last [OF reads_read_be [OF length_words(2)]]
  have lift: "r = Inr v \<Longrightarrow> reads (f v) [] w \<Longrightarrow> reads (bindM (liftE r) f) [] w" for r v f and w :: part
    by (simp add: liftE_def)
  show ?thesis
  proof (cases t)
    case (IntegralT w sgnd wide)
    then obtain v where p: "p = IntegralP v" and v: "integral_min w sgnd \<le> v" "v \<le> integral_max w sgnd"
      using assms(2) by (cases p) (auto simp: part_defs)
    show ?thesis
    proof (cases wide)
      case False
      have "type_ok (IntegralT w sgnd False)" using assms(1) IntegralT False by simp
      note fits = integral_fits32 [OF this v]
      show ?thesis using False v fits unfolding part_read_def IntegralT part_type.case p
        by (auto simp: part_enc_def part_append_def composite_key_checked_integral_cast_def xor.assoc
            signed_int32_from_sortable_key_def sortable_key_from_signed_int32_def liftE_def intro!: be reads_ret)
    next
      case True
      have "type_ok (IntegralT w sgnd True)" using assms(1) IntegralT True by simp
      note fits = integral_fits64 [OF this v]
      show ?thesis using True v fits unfolding part_read_def IntegralT part_type.case p
        by (auto simp: part_enc_def part_append_def composite_key_checked_integral_cast_def xor.assoc
            signed_int64_from_sortable_key_def sortable_key_from_signed_int64_def liftE_def intro!: be reads_ret)
    qed
  next
    case (CodeUnitT w)
    then obtain v where p: "p = CodeUnitP v" and v: "v < 2 ^ w" using assms(2) by (cases p) (auto simp: part_defs)
    have "w \<le> 32" using assms(1) CodeUnitT by (auto simp: type_ok_def)
    then have "(2 :: nat) ^ w \<le> 2 ^ 32" by (intro power_increasing) auto
    with v have u: "unat (word_of_nat v :: u32) = v" by (simp add: unat_of_nat)
    then have "uint (word_of_nat v :: u32) < 2 ^ w" using v by (metis of_nat_less_iff of_nat_numeral of_nat_power uint_nat)
    then have "code_unit_key_from_bits w (word_of_nat v) = Inr v" using u by (simp add: code_unit_key_from_bits_def)
    then show ?thesis unfolding part_read_def CodeUnitT part_type.case p
      by (auto simp: part_enc_def part_append_def code_unit_key_bits_def liftE_def intro!: be reads_ret)
  next
    case BoolT
    then obtain v where p: "p = BoolP v" using assms(2) by (cases p) (auto simp: part_defs)
    show ?thesis unfolding part_read_def BoolT part_type.case p
      by (auto simp: part_enc_def part_append_def intro!: be reads_retI)
  next
    case FloatT
    then obtain v where p: "p = FloatP v" using assms(2) by (cases p) (auto simp: part_defs)
    then have "v \<noteq> 0x80000000" "sortable_key_from_float v = Inr (ieee_key v)"
      using assms(2) FloatT by (auto simp: part_defs float_key split: if_splits)
    then show ?thesis unfolding part_read_def FloatT part_type.case p
      by (auto simp: part_enc_def part_append_def float_from_key intro!: be reads_ret)
  next
    case DoubleT
    then obtain v where p: "p = DoubleP v" using assms(2) by (cases p) (auto simp: part_defs)
    then have "v \<noteq> 0x8000000000000000" "sortable_key_from_double v = Inr (ieee_key v)"
      using assms(2) DoubleT by (auto simp: part_defs double_key split: if_splits)
    then show ?thesis unfolding part_read_def DoubleT part_type.case p
      by (auto simp: part_enc_def part_append_def double_from_key intro!: be reads_ret)
  next
    case StringT
    then obtain v where p: "p = StringP v" using assms(2) by (cases p) (auto simp: part_defs)
    show ?thesis unfolding part_read_def StringT part_type.case p
      by (auto simp: part_enc_def part_append_def intro!: reads_bindM_last [OF reads_terminated] reads_retI)
  next
    case BytesT
    then obtain v where p: "p = BytesP v" using assms(2) by (cases p) (auto simp: part_defs)
    show ?thesis unfolding part_read_def BytesT part_type.case p
      by (auto simp: part_enc_def part_append_def intro!: reads_bindM_last [OF reads_terminated] reads_retI)
  qed
qed

section \<open>Whole keys\<close>

definition key_good :: "part_type list \<Rightarrow> part list \<Rightarrow> bool" where
  "key_good ts ps \<longleftrightarrow> list_all2 part_good ts ps"

definition key_enc :: "part_type list \<Rightarrow> part list \<Rightarrow> bytes" where
  "key_enc ts ps = concat (map2 part_enc ts ps)"

lemma mirrors_ck_read: "list_all type_ok ts \<Longrightarrow> mirrors (ck_read ts) (key_enc ts) (key_good ts)"
proof (induction ts)
  case Nil
  show ?case by (simp add: mirrors_ret key_enc_def key_good_def)
next
  case (Cons t ts)
  have rest: "mirrors (bindM (ck_read ts) (\<lambda>ps. ret (p # ps))) (\<lambda>w. key_enc ts (tl w))
      (\<lambda>w. key_good (t # ts) w \<and> key_enc (t # ts) w = part_enc t p @ key_enc ts (tl w))" if "part_good t p" for p
    by (rule mirrors_map [OF Cons.IH]) (use Cons.prems that in \<open>auto simp: key_good_def key_enc_def\<close>)
  show ?case unfolding ck_read.simps
    by (rule mirrors_bindM [where ?enc2.0 = "\<lambda>_ w. key_enc ts (tl w)", OF mirrors_part_read])
       (use Cons.prems rest in auto)
qed

lemma reads_ck_read: "list_all type_ok ts \<Longrightarrow> key_good ts ps \<Longrightarrow> reads (ck_read ts) (key_enc ts ps) ps"
proof (induction ts arbitrary: ps)
  case Nil
  then show ?case by (simp add: reads_ret key_enc_def key_good_def)
next
  case (Cons t ts)
  then obtain p qs where ps: "ps = p # qs" "part_good t p" "key_good ts qs"
    by (auto simp: key_good_def list_all2_Cons1)
  have "reads (ck_read ts) (key_enc ts qs) qs" using Cons ps by simp
  then have "reads (bindM (ck_read ts) (\<lambda>ps. ret (p # ps))) (key_enc ts qs) (p # qs)"
    by (intro reads_bindM_last) (auto intro: reads_ret)
  moreover have "reads (part_read t) (part_enc t p) p" using Cons.prems ps by (intro reads_part_read) auto
  ultimately show ?case unfolding ps(1) ck_read.simps key_enc_def by (auto intro: reads_bindM)
qed

lemma ck_append_key:
  "list_all2 part_typed ts ps \<Longrightarrow> list_all part_canonical ps \<Longrightarrow>
   ck_append ts ps = Inr bs \<longleftrightarrow> key_good ts ps \<and> bs = key_enc ts ps"
proof (induction arbitrary: bs rule: list_all2_induct)
  case Nil
  then show ?case by (auto simp: key_good_def key_enc_def)
next
  case (Cons t ts p ps)
  then show ?case
    by (cases "part_append t p"; cases "ck_append ts ps")
       (auto simp: key_good_def key_enc_def part_good_def part_enc_def)
qed

lemma from_bytes_iff:
  assumes "list_all type_ok ts"
  shows "from_bytes ts (Some bs) = Inr ps \<longleftrightarrow> key_good ts ps \<and> bs = key_enc ts ps"
  unfolding from_bytes_def
  using decode_consumed_iff [OF mirrors_ck_read [OF assms] reads_ck_read [OF assms]] by simp

section \<open>The order of keys\<close>

text \<open>Encodings that differ decide the comparison, whatever follows.\<close>

definition decides :: "bytes \<Rightarrow> bytes \<Rightarrow> bool" where
  "decides a b \<longleftrightarrow> (\<forall>x y. a @ x < b @ y)"

lemma decides_fixed: "length a = length b \<Longrightarrow> a < b \<Longrightarrow> decides a b"
  unfolding decides_def by (induction a b rule: list_induct2) auto

lemma decides_esc: "v < w \<Longrightarrow> decides (esc v) (esc w)"
proof (induction v arbitrary: w)
  case Nil
  then obtain c cs where w: "w = c # cs" by (cases w) auto
  then show ?case by (cases "c = 0") (auto simp: decides_def word_gt_0)
next
  case (Cons b bs)
  then obtain c cs where w: "w = c # cs" by (cases w) auto
  with Cons.prems consider "b < c" | "b = c" "bs < cs" by auto
  then show ?case
  proof cases
    case 1
    then have "c \<noteq> 0" by (metis word_not_simps(1))
    with 1 show ?thesis by (auto simp: decides_def w)
  next
    case 2
    with Cons.IH [OF 2(2)] show ?thesis by (auto simp: decides_def w)
  qed
qed

lemma decides_be:
  fixes v w :: "'a::len word"
  assumes "LENGTH('a) = 8 * n"
  shows "v < w \<Longrightarrow> decides (composite_key_append_big_endian n v) (composite_key_append_big_endian n w)"
  by (rule decides_fixed) (simp_all add: append_be_less [OF assms])

lemma uint_sortable32: "sint (word_of_int v :: u32) = v \<Longrightarrow> uint (sortable_key_from_signed_int32 v) = v + 0x80000000"
  using uint_xor_top_bit [of 31 "word_of_int v :: u32"] by (simp add: sortable_key_from_signed_int32_def)

lemma uint_sortable64:
  "sint (word_of_int v :: u64) = v \<Longrightarrow> uint (sortable_key_from_signed_int64 v) = v + 0x8000000000000000"
  using uint_xor_top_bit [of 63 "word_of_int v :: u64"] by (simp add: sortable_key_from_signed_int64_def)

lemma ieee_key_eq:
  fixes f g :: "'a::len word"
  assumes "LENGTH('a) = Suc k"
  shows "\<not> ieee_order f < ieee_order g \<Longrightarrow> \<not> ieee_order g < ieee_order f \<Longrightarrow> ieee_key f = ieee_key g"
  using ieee_key_less [OF assms, of f g] ieee_key_less [OF assms, of g f] by (metis linorder_neqE)

lemma code_unit_key:
  assumes "type_ok (CodeUnitT n)" "v < 2 ^ n" "w < 2 ^ n"
  shows "v < w \<Longrightarrow> code_unit_key_bits v < code_unit_key_bits w"
proof -
  have "n \<le> 32" using assms(1) by (auto simp: type_ok_def)
  then have "(2 :: nat) ^ n \<le> 2 ^ 32" by (intro power_increasing) auto
  with assms(2,3) show "v < w \<Longrightarrow> code_unit_key_bits v < code_unit_key_bits w"
    by (simp add: code_unit_key_bits_def word_less_nat_alt unat_of_nat)
qed

lemma part_order:
  assumes t: "type_ok t" "part_typed t p" "part_typed t q" and "part_append t p = Inr a" "part_append t q = Inr b"
  shows "part_less p q \<Longrightarrow> decides a b" "\<not> part_less p q \<Longrightarrow> \<not> part_less q p \<Longrightarrow> a = b"
proof -
  note be = decides_be [OF length_words(1)] decides_be [OF length_words(2)]
  have "(part_less p q \<longrightarrow> decides a b) \<and> (\<not> part_less p q \<longrightarrow> \<not> part_less q p \<longrightarrow> a = b)"
  proof (cases t)
    case (IntegralT n sgnd wide)
    then obtain v w where v: "p = IntegralP v" "integral_min n sgnd \<le> v" "v \<le> integral_max n sgnd"
        and w: "q = IntegralP w" "integral_min n sgnd \<le> w" "w \<le> integral_max n sgnd"
      using t(2,3) by (cases p; cases q) (auto simp: part_typed_def)
    show ?thesis
    proof (cases wide)
      case False
      then have ok: "type_ok (IntegralT n sgnd False)" using t(1) IntegralT by simp
      let ?k = "\<lambda>v. if sgnd then sortable_key_from_signed_int32 v else word_of_int v"
      have "v < w \<Longrightarrow> ?k v < ?k w"
        using integral_fits32 [OF ok v(2,3)] integral_fits32 [OF ok w(2,3)] uint_sortable32
        by (auto simp: word_less_def)
      moreover have "a = composite_key_append_big_endian 4 (?k v)" "b = composite_key_append_big_endian 4 (?k w)"
        using assms(4,5) False IntegralT v(1) w(1) by (simp_all add: part_append_def)
      ultimately show ?thesis using be(1) [of "?k v" "?k w"] v(1) w(1) by (simp add: part_less_def)
    next
      case True
      then have ok: "type_ok (IntegralT n sgnd True)" using t(1) IntegralT by simp
      let ?k = "\<lambda>v. if sgnd then sortable_key_from_signed_int64 v else word_of_int v"
      have "v < w \<Longrightarrow> ?k v < ?k w"
        using integral_fits64 [OF ok v(2,3)] integral_fits64 [OF ok w(2,3)] uint_sortable64
        by (auto simp: word_less_def)
      moreover have "a = composite_key_append_big_endian 8 (?k v)" "b = composite_key_append_big_endian 8 (?k w)"
        using assms(4,5) True IntegralT v(1) w(1) by (simp_all add: part_append_def)
      ultimately show ?thesis using be(2) [of "?k v" "?k w"] v(1) w(1) by (simp add: part_less_def)
    qed
  next
    case (CodeUnitT n)
    then obtain v w where "p = CodeUnitP v" "v < 2 ^ n" "q = CodeUnitP w" "w < 2 ^ n"
      using t(2,3) by (cases p; cases q) (auto simp: part_typed_def)
    then show ?thesis using assms(4,5) CodeUnitT code_unit_key [of n v w] t(1) be(1)
      by (auto simp: part_append_def part_less_def)
  next
    case BoolT
    then obtain v w where "p = BoolP v" "q = BoolP w" using t(2,3) by (cases p; cases q) (auto simp: part_typed_def)
    then show ?thesis using assms(4,5) BoolT be(1) by (auto simp: part_append_def part_less_def)
  next
    case FloatT
    then obtain v w where "p = FloatP v" "q = FloatP w" using t(2,3) by (cases p; cases q) (auto simp: part_typed_def)
    then show ?thesis using assms(4,5) FloatT ieee_key_less [of 31 v w] ieee_key_eq [of 31 v w] be(1) [of "ieee_key v" "ieee_key w"]
      by (auto simp: part_append_def part_less_def float_key split: if_splits)
  next
    case DoubleT
    then obtain v w where "p = DoubleP v" "q = DoubleP w" using t(2,3) by (cases p; cases q) (auto simp: part_typed_def)
    then show ?thesis using assms(4,5) DoubleT ieee_key_less [of 63 v w] ieee_key_eq [of 63 v w] be(2) [of "ieee_key v" "ieee_key w"]
      by (auto simp: part_append_def part_less_def double_key split: if_splits)
  next
    case StringT
    then obtain v w where "p = StringP v" "q = StringP w" using t(2,3) by (cases p; cases q) (auto simp: part_typed_def)
    then show ?thesis using assms(4,5) StringT decides_esc linorder_neqE [of "bytes_of_string v" "bytes_of_string w"]
      by (auto simp: part_append_def part_less_def)
  next
    case BytesT
    then obtain v w where "p = BytesP v" "q = BytesP w" using t(2,3) by (cases p; cases q) (auto simp: part_typed_def)
    then show ?thesis using assms(4,5) BytesT decides_esc linorder_neqE [of v w]
      by (auto simp: part_append_def part_less_def)
  qed
  then show "part_less p q \<Longrightarrow> decides a b" "\<not> part_less p q \<Longrightarrow> \<not> part_less q p \<Longrightarrow> a = b" by blast+
qed

lemma ck_append_Cons:
  "ck_append (t # ts) (p # ps) = Inr bs \<longleftrightarrow> (\<exists>a c. part_append t p = Inr a \<and> ck_append ts ps = Inr c \<and> bs = a @ c)"
  by (auto split: sum.splits)

lemma ck_append_order:
  assumes "list_all type_ok ts" "list_all2 part_typed ts ps" "list_all2 part_typed ts qs"
    and "ck_append ts ps = Inr a" "ck_append ts qs = Inr b"
  shows "a < b \<longleftrightarrow> parts_less ps qs"
  using assms
proof (induction ts arbitrary: ps qs a b)
  case Nil
  then show ?case by simp
next
  case (Cons t ts)
  then obtain p ps' q qs' where pq: "ps = p # ps'" "qs = q # qs'" "part_typed t p" "part_typed t q"
      "list_all2 part_typed ts ps'" "list_all2 part_typed ts qs'"
    by (auto simp: list_all2_Cons1)
  obtain a1 a2 b1 b2 where ab: "part_append t p = Inr a1" "ck_append ts ps' = Inr a2" "a = a1 @ a2"
      "part_append t q = Inr b1" "ck_append ts qs' = Inr b2" "b = b1 @ b2"
    using Cons.prems(4,5) unfolding pq(1,2) ck_append_Cons by blast
  have t: "type_ok t" and IH: "a2 < b2 \<longleftrightarrow> parts_less ps' qs'"
    using Cons.prems(1) Cons.IH [OF _ pq(5,6) ab(2,5)] by simp_all
  note pq_order = part_order [OF t pq(3,4) ab(1,4)] and qp_order = part_order [OF t pq(4,3) ab(4,1)]
  consider "part_less p q" | "\<not> part_less p q" "part_less q p" | "\<not> part_less p q" "\<not> part_less q p" by blast
  then show ?case
  proof cases
    case 1
    then show ?thesis using pq_order(1) by (simp add: pq ab decides_def)
  next
    case 2
    then have "b < a" using qp_order(1) by (simp add: ab decides_def)
    with 2 show ?thesis by (simp add: pq less_not_sym)
  next
    case 3
    then have "a1 = b1" using pq_order(2) by blast
    with 3 IH show ?thesis by (simp add: pq ab list_less_append_prefix)
  qed
qed

end
