(* ===== verification/Composite_Properties.thy ===== *)
theory Composite_Properties
  imports Composite_Key
begin

text \<open>
  What a composite key promises: its bytes are the only encoding of its components, they compare like
  the components, and what is decoded lies in the range of its type.
\<close>

text \<open>C36. The encoding of composite keys is canonical: for components of their types without a negative
  zero, \<open>from_bytes\<close> returns the components from a byte string exactly when \<open>to_bytes\<close> produces that
  string from them. So every key that can be written is read back, no second byte string denotes
  the same key, and truncated, malformed, non-canonical or trailing bytes are refused.\<close>

theorem composite_key_canonical:
  assumes "list_all type_ok ts" and "list_all2 part_typed ts ps" and "list_all part_canonical ps"
  shows "from_bytes ts (Some bs) = Inr ps \<longleftrightarrow> to_bytes ts ps = Inr bs"
  using from_bytes_iff [OF assms(1)] ck_append_key [OF assms(2,3)] by (simp add: to_bytes_def)

text \<open>C35. The bytes sort like the components: for two keys of the same component types, the unsigned
  lexicographic order of the serialized bytes, which is MDBX's default key order and what
  \<open>operator<\<close> uses, is the lexicographic order of the components, with signed integers by value,
  floating-point numbers by sign and magnitude (both zeros equal) and strings and byte vectors
  bytewise, whatever their lengths and whatever zero bytes they contain.\<close>

theorem composite_key_order:
  assumes "list_all type_ok ts" and "list_all2 part_typed ts ps" and "list_all2 part_typed ts qs"
    and "to_bytes ts ps = Inr a" and "to_bytes ts qs = Inr b"
  shows "(a < b \<longleftrightarrow> parts_less ps qs) \<and> ck_less ts ps qs = Inr (parts_less ps qs)"
proof -
  have "a < b \<longleftrightarrow> parts_less ps qs"
    using ck_append_order [OF assms(1-3)] assms(4,5) by (simp add: to_bytes_def)
  then show ?thesis using assms(4,5) by (simp add: ck_less_def)
qed

section \<open>Ranges and sizes\<close>

definition part_max_size :: "part_type \<Rightarrow> part \<Rightarrow> nat" where
  "part_max_size t p = (case p of
     StringP s \<Rightarrow> 2 * length s + 2
   | BytesP v \<Rightarrow> 2 * length v + 2
   | DoubleP v \<Rightarrow> 8
   | IntegralP v \<Rightarrow> (case t of IntegralT w sgnd wide \<Rightarrow> if wide then 8 else 4 | _ \<Rightarrow> 4)
   | _ \<Rightarrow> 4)"

lemma length_esc: "length (esc v) \<le> 2 * length v + 2"
  by (induction v) auto

lemma length_part_enc: "length (part_enc t p) \<le> part_max_size t p"
  using length_esc [of "bytes_of_string (case p of StringP s \<Rightarrow> s | _ \<Rightarrow> [])"]
    length_esc [of "case p of BytesP v \<Rightarrow> v | _ \<Rightarrow> []"]
  by (cases t; cases p) (auto simp: part_enc_def part_append_def part_max_size_def split: sum.splits)

lemma length_key_enc: "length (key_enc ts ps) \<le> sum_list (map2 part_max_size ts ps)"
  unfolding key_enc_def length_concat
  by (induction ts ps rule: list_induct2') (auto intro: add_mono length_part_enc)

text \<open>C37. Decoded components are in range: whatever bytes \<open>from_bytes\<close> accepts, each integral component
  lies between the minimum and the maximum of its type, so that the checked cast never wraps, each
  code unit fits its width, no component is a negative zero, and the bytes are no longer than four
  or eight per number and twice the length plus two per string or byte vector.\<close>

theorem composite_key_bounds:
  assumes "list_all type_ok ts" and "from_bytes ts data = Inr ps"
  shows "list_all2 part_typed ts ps \<and> list_all part_canonical ps \<and>
    (\<exists>bs. data = Some bs \<and> length bs \<le> sum_list (map2 part_max_size ts ps))"
proof -
  obtain bs where bs: "data = Some bs" using assms(2) by (cases data) (auto simp: from_bytes_def)
  then have k: "key_good ts ps" "bs = key_enc ts ps" using assms from_bytes_iff by auto
  then have "list_all2 part_typed ts ps" by (auto simp: key_good_def part_good_def elim: list_all2_mono)
  moreover have "list_all part_canonical ps"
    using k(1) by (auto simp: key_good_def part_good_def list_all2_conv_all_nth list_all_length)
  ultimately show ?thesis using bs k(2) length_key_enc by blast
qed

section \<open>Instances\<close>

definition sample_types :: "part_type list" where
  "sample_types = [IntegralT 16 True False, StringT, FloatT]"

definition sample_key :: "part list" where
  "sample_key = [IntegralP (- 5), StringP ''ab'', FloatP 0xC0000000]"

definition sample_key2 :: "part list" where
  "sample_key2 = [IntegralP (- 5), StringP ''abc'', FloatP 0x3F800000]"

definition sample_bytes :: bytes where
  "sample_bytes = [0x7f, 0xff, 0xff, 0xfb, 97, 98, 0, 0, 0x3f, 0xff, 0xff, 0xff]"

lemma sample_ok: "list_all type_ok sample_types" "list_all2 part_typed sample_types sample_key"
  "list_all2 part_typed sample_types sample_key2" "list_all part_canonical sample_key"
  by (simp_all add: sample_types_def sample_key_def sample_key2_def type_ok_def part_typed_def part_canonical_def
      integral_min_def integral_max_def)

lemma sample_to_bytes: "to_bytes sample_types sample_key = Inr sample_bytes"
  by code_simp

theorem composite_key_canonical_witness:
  "from_bytes sample_types (Some sample_bytes) = Inr sample_key"
  using composite_key_canonical [OF sample_ok(1,2,4), of sample_bytes] sample_to_bytes by simp

theorem composite_key_order_witness:
  "ck_less sample_types sample_key sample_key2 = Inr True"
proof -
  have "\<not> isl (to_bytes sample_types sample_key2)" by code_simp
  then obtain b where b: "to_bytes sample_types sample_key2 = Inr b" by (metis sum.collapse(2))
  have "parts_less sample_key sample_key2"
    by (simp add: sample_key_def sample_key2_def part_less_def bytes_of_string_def)
  then show ?thesis using composite_key_order [OF sample_ok(1-3) sample_to_bytes b] by simp
qed

theorem composite_key_bounds_witness:
  "\<exists>ps. from_bytes sample_types (Some sample_bytes) = Inr ps \<and> list_all2 part_typed sample_types ps"
proof -
  have "\<not> isl (from_bytes sample_types (Some sample_bytes))" by code_simp
  then obtain ps where ps: "from_bytes sample_types (Some sample_bytes) = Inr ps" by (metis sum.collapse(2))
  with composite_key_bounds [OF sample_ok(1) ps] show ?thesis by blast
qed

end
