(* ===== verification/Mdbx_Api.thy ===== *)
theory Mdbx_Api
  imports Bytes
begin

unbundle bit_operations_syntax

text \<open>
  The interface to libmdbx. The database engine is third-party code: its functions are the fields
  of the record \<open>mdbx\<close>, an argument of every definition that calls them, and what the sources
  rely on is the locale \<open>mdbx_engine\<close>, whose assumptions state the documented effect of each call
  on an abstract view of the transaction. The helpers of
  \<^verbatim>\<open>include/mdbx_containers/detail/utils.hpp\<close> that every store uses follow, then the
  calculus \<open>awp\<close> in which the stores are verified against the abstract view.
\<close>

section \<open>The functions of libmdbx that the library calls\<close>

datatype put_flag = MDBX_UPSERT | MDBX_NOOVERWRITE

text \<open>Cursor operations; \<open>MDBX_SET_RANGE\<close> carries the key its caller passes in.\<close>

datatype cursor_op = MDBX_FIRST | MDBX_NEXT | MDBX_SET_RANGE bytes

text \<open>
  \<open>'t\<close> is the state of a live transaction: what it sees of the database and the DBI handles it can
  use. \<open>'c\<close> is a cursor. A DBI handle is a number; 0 is never the handle of a named table.
  \<open>mdbx_entries\<close> is the \<open>ms_entries\<close> field that \<open>mdbx_dbi_stat\<close> reports.
\<close>

record ('t, 'c) mdbx =
  MDBX_CREATE :: u32
  MDBX_REVERSEKEY :: u32
  MDBX_DUPSORT :: u32
  MDBX_INTEGERKEY :: u32
  MDBX_DUPFIXED :: u32
  MDBX_INTEGERDUP :: u32
  MDBX_REVERSEDUP :: u32
  MDBX_DB_ACCEDE :: u32
  mdbx_txn_env :: "'t \<Rightarrow> nat"
  mdbx_dbi_open :: "'t \<Rightarrow> string \<Rightarrow> u32 \<Rightarrow> mdbx_rc \<times> nat \<times> 't"
  mdbx_dbi_flags :: "'t \<Rightarrow> nat \<Rightarrow> mdbx_rc \<times> u32"
  mdbx_entries :: "'t \<Rightarrow> nat \<Rightarrow> nat"
  mdbx_get :: "'t \<Rightarrow> nat \<Rightarrow> bytes \<Rightarrow> mdbx_rc \<times> bytes"
  mdbx_put :: "'t \<Rightarrow> nat \<Rightarrow> bytes \<Rightarrow> bytes \<Rightarrow> put_flag \<Rightarrow> mdbx_rc \<times> 't"
  mdbx_del :: "'t \<Rightarrow> nat \<Rightarrow> bytes \<Rightarrow> mdbx_rc \<times> 't"
  mdbx_drop :: "'t \<Rightarrow> nat \<Rightarrow> mdbx_rc \<times> 't"
  mdbx_cmp :: "'t \<Rightarrow> nat \<Rightarrow> bytes \<Rightarrow> bytes \<Rightarrow> int"
  mdbx_cursor_open :: "'t \<Rightarrow> nat \<Rightarrow> mdbx_rc \<times> 'c"
  mdbx_cursor_get :: "'t \<Rightarrow> 'c \<Rightarrow> cursor_op \<Rightarrow> mdbx_rc \<times> (bytes \<times> bytes) \<times> 'c"
  mdbx_cursor_del :: "'t \<Rightarrow> 'c \<Rightarrow> mdbx_rc \<times> 't \<times> 'c"

section \<open>Calls as statements\<close>

definition api_dbi_open :: "('t, 'c) mdbx \<Rightarrow> string \<Rightarrow> u32 \<Rightarrow> ('t, mdbx_rc \<times> nat) io" where
  "api_dbi_open M name fl t =
     (case mdbx_dbi_open M t name fl of (rc, h, t') \<Rightarrow> (Inr (rc, h), t'))"

definition api_dbi_flags :: "('t, 'c) mdbx \<Rightarrow> nat \<Rightarrow> ('t, mdbx_rc \<times> u32) io" where
  "api_dbi_flags M h t = (Inr (mdbx_dbi_flags M t h), t)"

definition api_entries :: "('t, 'c) mdbx \<Rightarrow> nat \<Rightarrow> ('t, nat) io" where
  "api_entries M h t = (Inr (mdbx_entries M t h), t)"

definition api_get :: "('t, 'c) mdbx \<Rightarrow> nat \<Rightarrow> bytes \<Rightarrow> ('t, mdbx_rc \<times> bytes) io" where
  "api_get M h k t = (Inr (mdbx_get M t h k), t)"

definition api_put ::
  "('t, 'c) mdbx \<Rightarrow> nat \<Rightarrow> bytes \<Rightarrow> bytes \<Rightarrow> put_flag \<Rightarrow> ('t, mdbx_rc) io" where
  "api_put M h k v fl t = (case mdbx_put M t h k v fl of (rc, t') \<Rightarrow> (Inr rc, t'))"

definition api_del :: "('t, 'c) mdbx \<Rightarrow> nat \<Rightarrow> bytes \<Rightarrow> ('t, mdbx_rc) io" where
  "api_del M h k t = (case mdbx_del M t h k of (rc, t') \<Rightarrow> (Inr rc, t'))"

definition api_drop :: "('t, 'c) mdbx \<Rightarrow> nat \<Rightarrow> ('t, mdbx_rc) io" where
  "api_drop M h t = (case mdbx_drop M t h of (rc, t') \<Rightarrow> (Inr rc, t'))"

definition api_cmp :: "('t, 'c) mdbx \<Rightarrow> nat \<Rightarrow> bytes \<Rightarrow> bytes \<Rightarrow> ('t, int) io" where
  "api_cmp M h a b t = (Inr (mdbx_cmp M t h a b), t)"

definition api_cursor_open :: "('t, 'c) mdbx \<Rightarrow> nat \<Rightarrow> ('t, mdbx_rc \<times> 'c) io" where
  "api_cursor_open M h t = (Inr (mdbx_cursor_open M t h), t)"

definition api_cursor_get ::
  "('t, 'c) mdbx \<Rightarrow> 'c \<Rightarrow> cursor_op \<Rightarrow> ('t, mdbx_rc \<times> (bytes \<times> bytes) \<times> 'c) io" where
  "api_cursor_get M c op t = (Inr (mdbx_cursor_get M t c op), t)"

definition api_cursor_del :: "('t, 'c) mdbx \<Rightarrow> 'c \<Rightarrow> ('t, mdbx_rc \<times> 'c) io" where
  "api_cursor_del M c t = (case mdbx_cursor_del M t c of (rc, t', c') \<Rightarrow> (Inr (rc, c'), t'))"

definition api_txn_env :: "('t, 'c) mdbx \<Rightarrow> ('t, nat) io" where
  "api_txn_env M t = (Inr (mdbx_txn_env M t), t)"

section \<open>The helpers of the library\<close>

definition check_mdbx :: "mdbx_rc \<Rightarrow> string \<Rightarrow> ('s, unit) io" where
  "check_mdbx rc context =
     (if rc \<noteq> MDBX_SUCCESS then throw (MdbxException context rc) else ret ())"

definition is_reserved_dbi_name :: "string \<Rightarrow> bool" where
  "is_reserved_dbi_name name \<longleftrightarrow>
     length name \<ge> length ''_mdbxc_'' \<and> take (length ''_mdbxc_'') name = ''_mdbxc_''"

text \<open>
  A live transaction is never null, so only the environment is compared.
\<close>

definition checked_txn_env :: "('t, 'c) mdbx \<Rightarrow> nat \<Rightarrow> string \<Rightarrow> ('t, unit) io" where
  "checked_txn_env M expected_env context =
     bindM (api_txn_env M) (\<lambda>env.
       if env \<noteq> expected_env
       then throw (InvalidArgument
              (context @ '': transaction belongs to a different MDBX environment''))
       else ret ())"

text \<open>\<open>std::string::c_str()\<close> as a C function reads it: up to the first NUL character.\<close>

definition c_str :: "string \<Rightarrow> string" where
  "c_str s = takeWhile (\<lambda>c. c \<noteq> CHR 0x00) s"

lemma c_str_simps [simp]:
  "c_str [] = []" "c_str (c # s) = (if c = CHR 0x00 then [] else c # c_str s)"
  by (simp_all add: c_str_def)

lemma is_reserved_iff: "is_reserved_dbi_name name \<longleftrightarrow> (\<exists>s. name = ''_mdbxc_'' @ s)"
proof
  assume "is_reserved_dbi_name name"
  then have "name = ''_mdbxc_'' @ drop (length ''_mdbxc_'') name"
    unfolding is_reserved_dbi_name_def by (metis append_take_drop_id)
  then show "\<exists>s. name = ''_mdbxc_'' @ s" by blast
qed (auto simp: is_reserved_dbi_name_def)

lemma is_reserved_dbi_name_c_str [simp]:
  "is_reserved_dbi_name (c_str name) \<longleftrightarrow> is_reserved_dbi_name name"
proof
  have name: "name = c_str name @ dropWhile (\<lambda>c. c \<noteq> CHR 0x00) name"
    by (simp add: c_str_def)
  assume "is_reserved_dbi_name (c_str name)"
  with name show "is_reserved_dbi_name name"
    unfolding is_reserved_iff by (metis append.assoc)
qed (auto simp: is_reserved_iff)

section \<open>Walking a cursor\<close>

text \<open>
  The loops \<open>while (rc == MDBX_SUCCESS) { ...; rc = mdbx_cursor_get(..., MDBX_NEXT); }\<close>. The body
  sees the current key, value and cursor and says whether the loop goes on or is left by \<open>break\<close>;
  the loop returns the last return code with the loop variable. \<open>n\<close> bounds the iterations.
\<close>

datatype ('a, 'c) loop = Continue 'a 'c | Break 'a mdbx_rc

fun cursor_loop ::
  "('t, 'c) mdbx \<Rightarrow> nat \<Rightarrow> (bytes \<Rightarrow> bytes \<Rightarrow> 'c \<Rightarrow> 'a \<Rightarrow> ('t, ('a, 'c) loop) io) \<Rightarrow>
     mdbx_rc \<times> (bytes \<times> bytes) \<times> 'c \<Rightarrow> 'a \<Rightarrow> ('t, 'a \<times> mdbx_rc) io" where
  "cursor_loop M 0 body r acc = throw LoopBound"
| "cursor_loop M (Suc n) body (rc, (k, v), c) acc =
     (if rc = MDBX_SUCCESS then
        bindM (body k v c acc) (\<lambda>l. case l of
            Break acc' rc' \<Rightarrow> ret (acc', rc')
          | Continue acc' c' \<Rightarrow>
              bindM (api_cursor_get M c' MDBX_NEXT) (\<lambda>r. cursor_loop M n body r acc'))
      else ret (acc, rc))"

text \<open>A loop over the rows of a table that changes nothing and is never left early.\<close>

definition scan_loop ::
  "('t, 'c) mdbx \<Rightarrow> nat \<Rightarrow> cursor_op \<Rightarrow> string \<Rightarrow> (bytes \<Rightarrow> bytes \<Rightarrow> 'a \<Rightarrow> ('t, 'a) io) \<Rightarrow> 'a \<Rightarrow>
     ('t, 'a \<times> mdbx_rc) io" where
  "scan_loop M h start open_error body acc =
     bindM (api_entries M h) (\<lambda>entries.
     bindM (api_cursor_open M h) (\<lambda>(rc, c).
     thenM (check_mdbx rc open_error)
     (bindM (api_cursor_get M c start) (\<lambda>r.
        cursor_loop M (Suc entries)
          (\<lambda>k v c acc. bindM (body k v acc) (\<lambda>acc'. ret (Continue acc' c))) r acc))))"

section \<open>The abstract view of a transaction\<close>

text \<open>
  A named table: its persistent flags and its rows. For a table with \<open>MDBX_DUPSORT\<close> the contract
  says nothing about \<open>rows\<close>. A view: the environment, whether the transaction can write, the named
  tables, and the handles that are valid in it.
\<close>

record dbtable =
  tflags :: u32
  rows :: "bytes \<rightharpoonup> bytes"

record adb =
  a_env :: nat
  a_writable :: bool
  a_tables :: "string \<rightharpoonup> dbtable"
  a_handles :: "nat \<rightharpoonup> string"

definition content :: "adb \<Rightarrow> string \<Rightarrow> bytes \<rightharpoonup> bytes" where
  "content a n = (case a_tables a n of None \<Rightarrow> Map.empty | Some T \<Rightarrow> rows T)"

definition set_rows :: "string \<Rightarrow> (bytes \<rightharpoonup> bytes) \<Rightarrow> adb \<Rightarrow> adb" where
  "set_rows n r a = (case a_tables a n of None \<Rightarrow> a
     | Some T \<Rightarrow> a\<lparr>a_tables := (a_tables a)(n \<mapsto> T\<lparr>rows := r\<rparr>)\<rparr>)"

definition put_row :: "string \<Rightarrow> bytes \<Rightarrow> bytes \<Rightarrow> adb \<Rightarrow> adb" where
  "put_row n k v a = set_rows n ((content a n)(k \<mapsto> v)) a"

definition del_row :: "string \<Rightarrow> bytes \<Rightarrow> adb \<Rightarrow> adb" where
  "del_row n k a = set_rows n ((content a n)(k := None)) a"

definition clear_rows :: "string \<Rightarrow> adb \<Rightarrow> adb" where
  "clear_rows n a = set_rows n Map.empty a"

text \<open>Persistent DBI flags, and tables whose cursors walk the keys bytewise.\<close>

definition persistent_mask :: "('t, 'c) mdbx \<Rightarrow> u32" where
  "persistent_mask M = MDBX_REVERSEKEY M OR MDBX_DUPSORT M OR MDBX_INTEGERKEY M OR
     MDBX_DUPFIXED M OR MDBX_INTEGERDUP M OR MDBX_REVERSEDUP M"

definition single :: "('t, 'c) mdbx \<Rightarrow> dbtable \<Rightarrow> bool" where
  "single M T \<longleftrightarrow> tflags T AND MDBX_DUPSORT M = 0"

text \<open>
  What \<open>mdbx_dbi_open\<close> makes of the named table: an absent table is created, empty, with the
  persistent part of the flags; an existing one is kept, except that an empty one that is opened
  with \<open>MDBX_CREATE\<close> may take over the flags it is opened with.
\<close>

definition dbi_opened :: "('t, 'c) mdbx \<Rightarrow> u32 \<Rightarrow> dbtable option \<Rightarrow> dbtable \<Rightarrow> bool" where
  "dbi_opened M fl old T' =
    (case old of
       None \<Rightarrow> fl AND MDBX_CREATE M \<noteq> 0 \<and>
               T' = \<lparr>tflags = fl AND persistent_mask M, rows = Map.empty\<rparr>
     | Some T \<Rightarrow> T' = T \<or> fl AND MDBX_CREATE M \<noteq> 0 \<and> rows T = Map.empty \<and>
               T' = \<lparr>tflags = fl AND persistent_mask M, rows = Map.empty\<rparr>)"

text \<open>The row a cursor operation moves to: the first one whose key is admitted.\<close>

definition admitted :: "bytes option \<Rightarrow> cursor_op \<Rightarrow> bytes \<Rightarrow> bool" where
  "admitted pos op k =
    (case op of
       MDBX_FIRST \<Rightarrow> True
     | MDBX_NEXT \<Rightarrow> (case pos of None \<Rightarrow> True | Some p \<Rightarrow> p < k)
     | MDBX_SET_RANGE lo \<Rightarrow> lo \<le> k)"

section \<open>The contract of libmdbx\<close>

text \<open>
  \<open>fails\<close> are the codes that a call may return beyond the outcomes stated for it (I/O errors,
  out of memory, a full map, an oversized key): with \<open>fails = (\<lambda>_. False)\<close> the laws describe an
  engine that never fails, without it every statement below is one about the outcomes that the
  sources distinguish. \<open>ok\<close> is the engine's own invariant of a usable transaction.
\<close>

locale mdbx_engine =
  fixes M :: "('t, 'c) mdbx"
    and ok :: "'t \<Rightarrow> bool"
    and view :: "'t \<Rightarrow> adb"
    and cursor_dbi :: "'c \<Rightarrow> nat"
    and cursor_at :: "'c \<Rightarrow> bytes option"
    and fails :: "mdbx_rc \<Rightarrow> bool"
  assumes create_not_persistent: "MDBX_CREATE M AND persistent_mask M = 0"
    and create_flag: "MDBX_CREATE M \<noteq> 0"
    and env_view: "mdbx_txn_env M t = a_env (view t)"
    and handle_nonzero: "ok t \<Longrightarrow> a_handles (view t) h = Some n \<Longrightarrow> h \<noteq> 0"
    and handle_table: "ok t \<Longrightarrow> a_handles (view t) h = Some n \<Longrightarrow> a_tables (view t) n \<noteq> None"
    and rows_finite: "ok t \<Longrightarrow> a_tables (view t) n = Some T \<Longrightarrow> finite (dom (rows T))"
    and open_success:
      "ok t \<Longrightarrow> mdbx_dbi_open M t n fl = (MDBX_SUCCESS, h, t') \<Longrightarrow>
         ok t' \<and> (\<exists>T'. dbi_opened M fl (a_tables (view t) n) T' \<and>
           a_handles (view t) h \<in> {None, Some n} \<and>
           view t' = (view t)\<lparr>a_tables := (a_tables (view t))(n \<mapsto> T'),
                              a_handles := (a_handles (view t))(h \<mapsto> n)\<rparr>)"
    and open_other:
      "ok t \<Longrightarrow> mdbx_dbi_open M t n fl = (rc, h, t') \<Longrightarrow> rc \<noteq> MDBX_SUCCESS \<Longrightarrow>
         ok t' \<and> view t' = view t \<and>
         (rc = MDBX_NOTFOUND \<longrightarrow> a_tables (view t) n = None \<and> fl AND MDBX_CREATE M = 0) \<and>
         (rc = MDBX_NOTFOUND \<or>
          rc = MDBX_EACCESS \<and> \<not> a_writable (view t) \<and> fl AND MDBX_CREATE M \<noteq> 0 \<or>
          rc \<in> {MDBX_INCOMPATIBLE, MDBX_EINVAL} \<and>
            (\<exists>T. a_tables (view t) n = Some T \<and> tflags T \<noteq> fl AND persistent_mask M) \<or>
          rc \<notin> {MDBX_EACCESS, MDBX_INCOMPATIBLE, MDBX_EINVAL} \<and> fails rc)"
    and flags_law:
      "ok t \<Longrightarrow> a_handles (view t) h = Some n \<Longrightarrow> a_tables (view t) n = Some T \<Longrightarrow>
         mdbx_dbi_flags M t h = (rc, fl) \<Longrightarrow>
         (rc = MDBX_SUCCESS \<and> fl AND persistent_mask M = tflags T AND persistent_mask M) \<or>
         (rc \<noteq> MDBX_SUCCESS \<and> fails rc)"
    and entries_law:
      "ok t \<Longrightarrow> a_handles (view t) h = Some n \<Longrightarrow> a_tables (view t) n = Some T \<Longrightarrow>
         single M T \<Longrightarrow> mdbx_entries M t h = card (dom (rows T))"
    and get_law:
      "ok t \<Longrightarrow> a_handles (view t) h = Some n \<Longrightarrow> a_tables (view t) n = Some T \<Longrightarrow>
         single M T \<Longrightarrow> mdbx_get M t h k = (rc, v) \<Longrightarrow>
         (rc = MDBX_SUCCESS \<and> rows T k = Some v) \<or> (rc = MDBX_NOTFOUND \<and> rows T k = None) \<or>
         (rc \<notin> {MDBX_SUCCESS, MDBX_NOTFOUND} \<and> fails rc)"
    and put_law:
      "ok t \<Longrightarrow> a_handles (view t) h = Some n \<Longrightarrow> a_tables (view t) n = Some T \<Longrightarrow>
         single M T \<Longrightarrow> a_writable (view t) \<Longrightarrow> mdbx_put M t h k v pf = (rc, t') \<Longrightarrow>
         (rc = MDBX_SUCCESS \<and> ok t' \<and> view t' = put_row n k v (view t) \<and>
            (pf = MDBX_NOOVERWRITE \<longrightarrow> rows T k = None)) \<or>
         (rc = MDBX_KEYEXIST \<and> pf = MDBX_NOOVERWRITE \<and> rows T k \<noteq> None \<and>
            ok t' \<and> view t' = view t) \<or>
         (rc \<notin> {MDBX_SUCCESS, MDBX_KEYEXIST} \<and> fails rc \<and> ok t')"
    and del_law:
      "ok t \<Longrightarrow> a_handles (view t) h = Some n \<Longrightarrow> a_tables (view t) n = Some T \<Longrightarrow>
         single M T \<Longrightarrow> a_writable (view t) \<Longrightarrow> mdbx_del M t h k = (rc, t') \<Longrightarrow>
         (rc = MDBX_SUCCESS \<and> rows T k \<noteq> None \<and> ok t' \<and> view t' = del_row n k (view t)) \<or>
         (rc = MDBX_NOTFOUND \<and> rows T k = None \<and> ok t' \<and> view t' = view t) \<or>
         (rc \<notin> {MDBX_SUCCESS, MDBX_NOTFOUND} \<and> fails rc \<and> ok t')"
    and drop_law:
      "ok t \<Longrightarrow> a_handles (view t) h = Some n \<Longrightarrow> a_tables (view t) n = Some T \<Longrightarrow>
         a_writable (view t) \<Longrightarrow> mdbx_drop M t h = (rc, t') \<Longrightarrow>
         (rc = MDBX_SUCCESS \<and> ok t' \<and> view t' = clear_rows n (view t)) \<or>
         (rc \<noteq> MDBX_SUCCESS \<and> fails rc \<and> ok t')"
    and cmp_law:
      "ok t \<Longrightarrow> a_handles (view t) h = Some n \<Longrightarrow> a_tables (view t) n = Some T \<Longrightarrow>
         tflags T = 0 \<Longrightarrow> (mdbx_cmp M t h x y > 0 \<longleftrightarrow> y < x)"
    and cursor_open_law:
      "ok t \<Longrightarrow> a_handles (view t) h = Some n \<Longrightarrow> mdbx_cursor_open M t h = (rc, c) \<Longrightarrow>
         (rc = MDBX_SUCCESS \<and> cursor_dbi c = h \<and> cursor_at c = None) \<or>
         (rc \<noteq> MDBX_SUCCESS \<and> fails rc)"
    and cursor_get_law:
      "ok t \<Longrightarrow> a_handles (view t) (cursor_dbi c) = Some n \<Longrightarrow> a_tables (view t) n = Some T \<Longrightarrow>
         tflags T = 0 \<Longrightarrow> mdbx_cursor_get M t c op = (rc, (k, v), c') \<Longrightarrow>
         (rc = MDBX_SUCCESS \<and> rows T k = Some v \<and> admitted (cursor_at c) op k \<and>
            (\<forall>k' \<in> dom (rows T). admitted (cursor_at c) op k' \<longrightarrow> k \<le> k') \<and>
            cursor_dbi c' = cursor_dbi c \<and> cursor_at c' = Some k) \<or>
         (rc = MDBX_NOTFOUND \<and> (\<forall>k' \<in> dom (rows T). \<not> admitted (cursor_at c) op k')) \<or>
         (rc \<notin> {MDBX_SUCCESS, MDBX_NOTFOUND} \<and> fails rc)"
    and cursor_del_law:
      "ok t \<Longrightarrow> a_handles (view t) (cursor_dbi c) = Some n \<Longrightarrow> a_tables (view t) n = Some T \<Longrightarrow>
         tflags T = 0 \<Longrightarrow> a_writable (view t) \<Longrightarrow> cursor_at c = Some k \<Longrightarrow> rows T k \<noteq> None \<Longrightarrow>
         mdbx_cursor_del M t c = (rc, t', c') \<Longrightarrow>
         (rc = MDBX_SUCCESS \<and> ok t' \<and> view t' = del_row n k (view t) \<and>
            cursor_dbi c' = cursor_dbi c \<and> cursor_at c' = Some k) \<or>
         (rc \<notin> {MDBX_SUCCESS, MDBX_NOTFOUND} \<and> fails rc \<and> ok t')"
begin

text \<open>
  \<open>awp m Q E a\<close>: started in any usable transaction whose view is \<open>a\<close>, \<open>m\<close> either returns a result
  that satisfies \<open>Q\<close> with the new view, in a transaction that is still usable, or throws an
  exception that satisfies \<open>E\<close>.
\<close>

definition awp :: "('t, 'r) io \<Rightarrow> ('r \<Rightarrow> adb \<Rightarrow> bool) \<Rightarrow> (exn \<Rightarrow> bool) \<Rightarrow> adb \<Rightarrow> bool" where
  "awp m Q E a \<longleftrightarrow>
     (\<forall>t. ok t \<and> view t = a \<longrightarrow> wp m (\<lambda>r t'. ok t' \<and> Q r (view t')) (\<lambda>e t'. E e) t)"

definition faulted :: "exn \<Rightarrow> bool" where
  "faulted e \<longleftrightarrow> (\<exists>c rc. e = MdbxException c rc \<and> fails rc)"

lemma faulted_MdbxException [simp]: "faulted (MdbxException c rc) \<longleftrightarrow> fails rc"
  by (simp add: faulted_def)

definition wf_view :: "adb \<Rightarrow> bool" where
  "wf_view a \<longleftrightarrow>
     (\<forall>h n. a_handles a h = Some n \<longrightarrow> h \<noteq> 0 \<and> a_tables a n \<noteq> None) \<and>
     (\<forall>n T. a_tables a n = Some T \<longrightarrow> finite (dom (rows T)))"

lemma awpI:
  "(\<And>t. ok t \<Longrightarrow> view t = a \<Longrightarrow> wp m (\<lambda>r t'. ok t' \<and> Q r (view t')) (\<lambda>e t'. E e) t) \<Longrightarrow>
     awp m Q E a"
  by (simp add: awp_def)

lemma awpD:
  "awp m Q E (view t) \<Longrightarrow> ok t \<Longrightarrow> wp m (\<lambda>r t'. ok t' \<and> Q r (view t')) (\<lambda>e t'. E e) t"
  by (simp add: awp_def)

lemma awp_result:
  "awp m Q E (view t) \<Longrightarrow> ok t \<Longrightarrow> m t = (Inr r, t') \<Longrightarrow> ok t' \<and> Q r (view t')"
  by (drule (1) awpD) (rule wp_InrD)

lemma awp_error: "awp m Q E (view t) \<Longrightarrow> ok t \<Longrightarrow> m t = (Inl e, t') \<Longrightarrow> E e"
  by (drule (1) awpD) (rule wp_InlD)

text \<open>What a run gives, whichever way it ends.\<close>

lemma awp_run:
  assumes "awp m Q E (view t)" "ok t"
  shows "case m t of (r, t') \<Rightarrow> (case r of Inl e \<Rightarrow> E e | Inr x \<Rightarrow> ok t' \<and> Q x (view t'))"
  using awp_result [OF assms] awp_error [OF assms] by (auto split: prod.splits sum.splits)

lemma awp_wf: "(wf_view a \<Longrightarrow> awp m Q E a) \<Longrightarrow> awp m Q E a"
  unfolding awp_def wf_view_def using handle_nonzero handle_table rows_finite by blast

lemma awp_conseq:
  assumes "awp m Q E a" and "\<And>r a'. Q r a' \<Longrightarrow> Q' r a'" and "\<And>e. E e \<Longrightarrow> E' e"
  shows "awp m Q' E' a"
proof (rule awpI)
  fix t
  assume t: "ok t" "view t = a"
  with assms(1) have "wp m (\<lambda>r t'. ok t' \<and> Q r (view t')) (\<lambda>e t'. E e) t"
    by (simp add: awp_def)
  then show "wp m (\<lambda>r t'. ok t' \<and> Q' r (view t')) (\<lambda>e t'. E' e) t"
    by (rule wp_conseq) (auto intro: assms(2,3))
qed

lemma awp_ret: "Q x a \<Longrightarrow> awp (ret x) Q E a"
  by (simp add: awp_def wp_simps)

lemma awp_throw: "E e \<Longrightarrow> awp (throw e) Q E a"
  by (simp add: awp_def wp_simps)

lemma awp_bindM: "awp m (\<lambda>r. awp (f r) Q E) E a \<Longrightarrow> awp (bindM m f) Q E a"
proof (rule awpI)
  fix t
  assume a: "awp m (\<lambda>r. awp (f r) Q E) E a" and t: "ok t" "view t = a"
  then have "wp m (\<lambda>r t'. ok t' \<and> awp (f r) Q E (view t')) (\<lambda>e t'. E e) t"
    by (simp add: awp_def)
  then show "wp (bindM m f) (\<lambda>r t'. ok t' \<and> Q r (view t')) (\<lambda>e t'. E e) t"
    unfolding wp_bindM by (rule wp_conseq) (auto intro: awpD)
qed

lemma awp_bindM':
  assumes "awp m P E a" and "\<And>r a'. P r a' \<Longrightarrow> awp (f r) Q E a'"
  shows "awp (bindM m f) Q E a"
  by (rule awp_bindM, rule awp_conseq [OF assms(1)]) (auto intro: assms(2))

lemma awp_thenM: "awp m (\<lambda>_. awp k Q E) E a \<Longrightarrow> awp (thenM m k) Q E a"
  unfolding thenM_def by (rule awp_bindM)

lemma awp_thenM':
  assumes "awp m P E a" and "\<And>r a'. P r a' \<Longrightarrow> awp k Q E a'"
  shows "awp (thenM m k) Q E a"
  unfolding thenM_def using assms by (rule awp_bindM')

lemma awp_liftE: "(case r of Inl e \<Rightarrow> E e | Inr x \<Rightarrow> Q x a) \<Longrightarrow> awp (liftE r) Q E a"
  by (auto simp: liftE_def split: sum.splits intro: awp_ret awp_throw)

lemma awp_if:
  "(c \<Longrightarrow> awp m Q E a) \<Longrightarrow> (\<not> c \<Longrightarrow> awp k Q E a) \<Longrightarrow> awp (if c then m else k) Q E a"
  by simp

lemma awp_check:
  "(rc = MDBX_SUCCESS \<Longrightarrow> Q () a) \<Longrightarrow> (rc \<noteq> MDBX_SUCCESS \<Longrightarrow> E (MdbxException c rc)) \<Longrightarrow>
     awp (check_mdbx rc c) Q E a"
  unfolding check_mdbx_def by (auto intro: awp_ret awp_throw)

lemma awp_foldM:
  assumes "I xs b a"
    and "\<And>x xs b a. I (x # xs) b a \<Longrightarrow> awp (f x b) (\<lambda>b'. I xs b') E a"
    and "\<And>b a. I [] b a \<Longrightarrow> Q b a"
  shows "awp (foldM f xs b) Q E a"
  using assms(1)
proof (induction xs arbitrary: b a)
  case Nil
  then show ?case by (auto intro: awp_ret assms(3))
next
  case (Cons x xs)
  show ?case
    unfolding foldM.simps by (rule awp_bindM' [OF assms(2) [OF Cons.prems]]) (rule Cons.IH)
qed

lemma awp_txn_env: "Q (a_env a) a \<Longrightarrow> awp (api_txn_env M) Q E a"
  by (auto simp: awp_def wp_def api_txn_env_def env_view)

lemma awp_checked_txn_env:
  "(a_env a = env \<Longrightarrow> Q () a) \<Longrightarrow>
   (a_env a \<noteq> env \<Longrightarrow>
      E (InvalidArgument (c @ '': transaction belongs to a different MDBX environment''))) \<Longrightarrow>
     awp (checked_txn_env M env c) Q E a"
  unfolding checked_txn_env_def
  by (auto intro!: awp_bindM awp_txn_env awp_if awp_throw awp_ret)

lemma awp_dbi_open:
  assumes "\<And>h T'. h \<noteq> 0 \<Longrightarrow> dbi_opened M fl (a_tables a n) T' \<Longrightarrow> a_handles a h \<in> {None, Some n} \<Longrightarrow>
      Q (MDBX_SUCCESS, h) (a\<lparr>a_tables := (a_tables a)(n \<mapsto> T'), a_handles := (a_handles a)(h \<mapsto> n)\<rparr>)"
    and "\<And>h. a_tables a n = None \<Longrightarrow> fl AND MDBX_CREATE M = 0 \<Longrightarrow> Q (MDBX_NOTFOUND, h) a"
    and "\<And>h. \<not> a_writable a \<Longrightarrow> fl AND MDBX_CREATE M \<noteq> 0 \<Longrightarrow> Q (MDBX_EACCESS, h) a"
    and "\<And>rc h T. rc \<in> {MDBX_INCOMPATIBLE, MDBX_EINVAL} \<Longrightarrow> a_tables a n = Some T \<Longrightarrow>
      tflags T \<noteq> fl AND persistent_mask M \<Longrightarrow> Q (rc, h) a"
    and "\<And>rc h. rc \<notin> {MDBX_SUCCESS, MDBX_NOTFOUND, MDBX_EACCESS, MDBX_INCOMPATIBLE, MDBX_EINVAL} \<Longrightarrow>
      fails rc \<Longrightarrow> Q (rc, h) a"
  shows "awp (api_dbi_open M n fl) Q E a"
proof (rule awpI)
  fix t
  assume t: "ok t" "view t = a"
  obtain rc h t' where o: "mdbx_dbi_open M t n fl = (rc, h, t')" by (cases "mdbx_dbi_open M t n fl")
  have "ok t' \<and> Q (rc, h) (view t')"
  proof (cases "rc = MDBX_SUCCESS")
    case True
    from open_success [OF t(1), of n fl h t'] o True t(2)
    obtain T' where s: "ok t'" "dbi_opened M fl (a_tables a n) T'" "a_handles a h \<in> {None, Some n}"
      "view t' = a\<lparr>a_tables := (a_tables a)(n \<mapsto> T'), a_handles := (a_handles a)(h \<mapsto> n)\<rparr>"
      by auto
    moreover have "h \<noteq> 0" using handle_nonzero [OF s(1), of h n] s(4) by simp
    ultimately show ?thesis using True assms(1) by auto
  next
    case False
    from open_other [OF t(1) o False] t(2) assms(2-5) False show ?thesis
      by (cases "rc = MDBX_NOTFOUND") auto
  qed
  with o show "wp (api_dbi_open M n fl) (\<lambda>r t'. ok t' \<and> Q r (view t')) (\<lambda>e t'. E e) t"
    by (simp add: wp_def api_dbi_open_def)
qed

lemma awp_dbi_flags:
  assumes "a_handles a h = Some n" "a_tables a n = Some T"
    and "\<And>fl. fl AND persistent_mask M = tflags T AND persistent_mask M \<Longrightarrow> Q (MDBX_SUCCESS, fl) a"
    and "\<And>rc fl. rc \<noteq> MDBX_SUCCESS \<Longrightarrow> fails rc \<Longrightarrow> Q (rc, fl) a"
  shows "awp (api_dbi_flags M h) Q E a"
proof (rule awpI)
  fix t
  assume "ok t" "view t = a"
  with flags_law [of t h n T "fst (mdbx_dbi_flags M t h)" "snd (mdbx_dbi_flags M t h)"] assms
  show "wp (api_dbi_flags M h) (\<lambda>r t'. ok t' \<and> Q r (view t')) (\<lambda>e t'. E e) t"
    by (cases "mdbx_dbi_flags M t h") (auto simp: wp_def api_dbi_flags_def)
qed

lemma awp_entries:
  assumes "a_handles a h = Some n" "a_tables a n = Some T" "single M T"
    and "Q (card (dom (rows T))) a"
  shows "awp (api_entries M h) Q E a"
  using assms entries_law by (auto simp: awp_def wp_def api_entries_def)

lemma awp_get:
  assumes "a_handles a h = Some n" "a_tables a n = Some T" "single M T"
    and "\<And>v. rows T k = Some v \<Longrightarrow> Q (MDBX_SUCCESS, v) a"
    and "\<And>v. rows T k = None \<Longrightarrow> Q (MDBX_NOTFOUND, v) a"
    and "\<And>rc v. rc \<noteq> MDBX_SUCCESS \<Longrightarrow> rc \<noteq> MDBX_NOTFOUND \<Longrightarrow> fails rc \<Longrightarrow> Q (rc, v) a"
  shows "awp (api_get M h k) Q E a"
proof (rule awpI)
  fix t
  assume "ok t" "view t = a"
  with get_law [of t h n T k "fst (mdbx_get M t h k)" "snd (mdbx_get M t h k)"] assms
  show "wp (api_get M h k) (\<lambda>r t'. ok t' \<and> Q r (view t')) (\<lambda>e t'. E e) t"
    by (cases "mdbx_get M t h k") (auto simp: wp_def api_get_def)
qed

lemma awp_put:
  assumes "a_handles a h = Some n" "a_tables a n = Some T" "single M T" "a_writable a"
    and "pf = MDBX_NOOVERWRITE \<longrightarrow> rows T k = None \<Longrightarrow> Q MDBX_SUCCESS (put_row n k v a)"
    and "pf = MDBX_NOOVERWRITE \<Longrightarrow> rows T k \<noteq> None \<Longrightarrow> Q MDBX_KEYEXIST a"
    and "\<And>rc a'. rc \<noteq> MDBX_SUCCESS \<Longrightarrow> rc \<noteq> MDBX_KEYEXIST \<Longrightarrow> fails rc \<Longrightarrow> Q rc a'"
  shows "awp (api_put M h k v pf) Q E a"
proof (rule awpI)
  fix t
  assume "ok t" "view t = a"
  with put_law [of t h n T k v pf "fst (mdbx_put M t h k v pf)" "snd (mdbx_put M t h k v pf)"] assms
  show "wp (api_put M h k v pf) (\<lambda>r t'. ok t' \<and> Q r (view t')) (\<lambda>e t'. E e) t"
    by (cases "mdbx_put M t h k v pf") (auto simp: wp_def api_put_def)
qed

lemma awp_del:
  assumes "a_handles a h = Some n" "a_tables a n = Some T" "single M T" "a_writable a"
    and "rows T k \<noteq> None \<Longrightarrow> Q MDBX_SUCCESS (del_row n k a)"
    and "rows T k = None \<Longrightarrow> Q MDBX_NOTFOUND a"
    and "\<And>rc a'. rc \<noteq> MDBX_SUCCESS \<Longrightarrow> rc \<noteq> MDBX_NOTFOUND \<Longrightarrow> fails rc \<Longrightarrow> Q rc a'"
  shows "awp (api_del M h k) Q E a"
proof (rule awpI)
  fix t
  assume "ok t" "view t = a"
  with del_law [of t h n T k "fst (mdbx_del M t h k)" "snd (mdbx_del M t h k)"] assms
  show "wp (api_del M h k) (\<lambda>r t'. ok t' \<and> Q r (view t')) (\<lambda>e t'. E e) t"
    by (cases "mdbx_del M t h k") (auto simp: wp_def api_del_def)
qed

lemma awp_drop:
  assumes "a_handles a h = Some n" "a_tables a n = Some T" "a_writable a"
    and "Q MDBX_SUCCESS (clear_rows n a)"
    and "\<And>rc a'. rc \<noteq> MDBX_SUCCESS \<Longrightarrow> fails rc \<Longrightarrow> Q rc a'"
  shows "awp (api_drop M h) Q E a"
proof (rule awpI)
  fix t
  assume "ok t" "view t = a"
  with drop_law [of t h n T "fst (mdbx_drop M t h)" "snd (mdbx_drop M t h)"] assms
  show "wp (api_drop M h) (\<lambda>r t'. ok t' \<and> Q r (view t')) (\<lambda>e t'. E e) t"
    by (cases "mdbx_drop M t h") (auto simp: wp_def api_drop_def)
qed

lemma awp_cmp:
  assumes "a_handles a h = Some n" "a_tables a n = Some T" "tflags T = 0"
    and "\<And>r. (r > 0 \<longleftrightarrow> y < x) \<Longrightarrow> Q r a"
  shows "awp (api_cmp M h x y) Q E a"
  using assms cmp_law by (auto simp: awp_def wp_def api_cmp_def)

lemma awp_cursor_open:
  assumes "a_handles a h = Some n"
    and "\<And>c. cursor_dbi c = h \<Longrightarrow> cursor_at c = None \<Longrightarrow> Q (MDBX_SUCCESS, c) a"
    and "\<And>rc c. rc \<noteq> MDBX_SUCCESS \<Longrightarrow> fails rc \<Longrightarrow> Q (rc, c) a"
  shows "awp (api_cursor_open M h) Q E a"
proof (rule awpI)
  fix t
  assume "ok t" "view t = a"
  with cursor_open_law [of t h n "fst (mdbx_cursor_open M t h)" "snd (mdbx_cursor_open M t h)"] assms
  show "wp (api_cursor_open M h) (\<lambda>r t'. ok t' \<and> Q r (view t')) (\<lambda>e t'. E e) t"
    by (cases "mdbx_cursor_open M t h") (auto simp: wp_def api_cursor_open_def)
qed

text \<open>The key a cursor operation finds, as a function of the rows.\<close>

lemma awp_cursor_get:
  assumes "a_handles a (cursor_dbi c) = Some n" "a_tables a n = Some T" "tflags T = 0"
    and "\<And>k v c'. rows T k = Some v \<Longrightarrow> admitted (cursor_at c) op k \<Longrightarrow>
      (\<And>k'. k' \<in> dom (rows T) \<Longrightarrow> admitted (cursor_at c) op k' \<Longrightarrow> k \<le> k') \<Longrightarrow>
      cursor_dbi c' = cursor_dbi c \<Longrightarrow> cursor_at c' = Some k \<Longrightarrow> Q (MDBX_SUCCESS, (k, v), c') a"
    and "\<And>k v c'. (\<And>k'. k' \<in> dom (rows T) \<Longrightarrow> \<not> admitted (cursor_at c) op k') \<Longrightarrow>
      Q (MDBX_NOTFOUND, (k, v), c') a"
    and "\<And>rc k v c'. rc \<noteq> MDBX_SUCCESS \<Longrightarrow> rc \<noteq> MDBX_NOTFOUND \<Longrightarrow> fails rc \<Longrightarrow> Q (rc, (k, v), c') a"
  shows "awp (api_cursor_get M c op) Q E a"
proof (rule awpI)
  fix t
  assume t: "ok t" "view t = a"
  obtain rc k v c' where g: "mdbx_cursor_get M t c op = (rc, (k, v), c')"
    by (metis prod.exhaust)
  from cursor_get_law [of t c n T op rc k v c'] t g assms
  show "wp (api_cursor_get M c op) (\<lambda>r t'. ok t' \<and> Q r (view t')) (\<lambda>e t'. E e) t"
    by (auto simp: wp_def api_cursor_get_def)
qed

lemma awp_cursor_del:
  assumes "a_handles a (cursor_dbi c) = Some n" "a_tables a n = Some T" "tflags T = 0"
    and "a_writable a" "cursor_at c = Some k" "rows T k \<noteq> None"
    and "\<And>c'. cursor_dbi c' = cursor_dbi c \<Longrightarrow> cursor_at c' = Some k \<Longrightarrow>
      Q (MDBX_SUCCESS, c') (del_row n k a)"
    and "\<And>rc c' a'. rc \<noteq> MDBX_SUCCESS \<Longrightarrow> rc \<noteq> MDBX_NOTFOUND \<Longrightarrow> fails rc \<Longrightarrow> Q (rc, c') a'"
  shows "awp (api_cursor_del M c) Q E a"
proof (rule awpI)
  fix t
  assume t: "ok t" "view t = a"
  obtain rc t' c' where g: "mdbx_cursor_del M t c = (rc, t', c')"
    by (metis prod.exhaust)
  from cursor_del_law [of t c n T k rc t' c'] t g assms
  show "wp (api_cursor_del M c) (\<lambda>r t'. ok t' \<and> Q r (view t')) (\<lambda>e t'. E e) t"
    by (auto simp: wp_def api_cursor_del_def)
qed

end

section \<open>Cursor walks visit the rows in key order\<close>

text \<open>The rows of a table whose keys satisfy \<open>P\<close>, in key order.\<close>

definition rows_where :: "(bytes \<Rightarrow> bool) \<Rightarrow> (bytes \<rightharpoonup> bytes) \<Rightarrow> (bytes \<times> bytes) list" where
  "rows_where P m = map (\<lambda>k. (k, the (m k))) (sorted_list_of_set {k \<in> dom m. P k})"

lemma rows_where_empty: "finite (dom m) \<Longrightarrow> rows_where P m = [] \<longleftrightarrow> (\<forall>k \<in> dom m. \<not> P k)"
  by (auto simp: rows_where_def)

lemma set_rows_where: "finite (dom m) \<Longrightarrow> set (rows_where P m) = {(k, v). m k = Some v \<and> P k}"
  by (force simp: rows_where_def)

lemma sorted_rows_where: "finite (dom m) \<Longrightarrow> sorted (map fst (rows_where P m))"
  by (simp add: rows_where_def comp_def)

lemma distinct_rows_where: "finite (dom m) \<Longrightarrow> distinct (map fst (rows_where P m))"
  by (simp add: rows_where_def comp_def)

lemma rows_where_least:
  assumes "finite (dom m)" and "m k = Some v" and "P k"
    and least: "\<And>k'. k' \<in> dom m \<Longrightarrow> P k' \<Longrightarrow> k \<le> k'"
    and up: "\<And>k'. k < k' \<Longrightarrow> P k'"
  shows "rows_where P m = (k, v) # rows_where (\<lambda>k'. k < k') m"
proof -
  let ?S = "{k' \<in> dom m. P k'}"
  have "k \<in> ?S" and "finite ?S" using assms(1-3) by auto
  have "Min ?S = k" using \<open>k \<in> ?S\<close> \<open>finite ?S\<close> least by (auto intro!: Min_eqI)
  moreover have "?S - {k} = {k' \<in> dom m. k < k'}" using least up by fastforce
  ultimately have "sorted_list_of_set ?S = k # sorted_list_of_set {k' \<in> dom m. k < k'}"
    using sorted_list_of_set_nonempty [OF \<open>finite ?S\<close>] \<open>k \<in> ?S\<close> by fastforce
  then show ?thesis using assms(2) by (simp add: rows_where_def)
qed

lemma rows_where_del: "\<not> P k \<Longrightarrow> rows_where P (m(k := None)) = rows_where P m"
proof -
  assume "\<not> P k"
  then have "{k' \<in> dom (m(k := None)). P k'} = {k' \<in> dom m. P k'}" by auto
  moreover have "the ((m(k := None)) k') = the (m k')" if "P k'" for k' using that \<open>\<not> P k\<close> by auto
  ultimately show ?thesis
    by (cases "finite {k' \<in> dom m. P k'}") (auto simp: rows_where_def)
qed

lemma length_rows_where: "finite (dom m) \<Longrightarrow> length (rows_where P m) \<le> card (dom m)"
  by (auto simp: rows_where_def intro!: card_mono)

lemma admitted_up: "admitted pos op k \<Longrightarrow> k < k' \<Longrightarrow> admitted pos op k'"
  by (auto simp: admitted_def split: cursor_op.splits option.splits)

lemma admitted_None [simp]:
  "admitted pos MDBX_FIRST = (\<lambda>_. True)" "admitted (Some p) MDBX_NEXT = (\<lambda>k. p < k)"
  "admitted pos (MDBX_SET_RANGE lo) = (\<lambda>k. lo \<le> k)"
  by (simp_all add: admitted_def fun_eq_iff)

context mdbx_engine
begin

lemma awp_cursor_loop:
  assumes inv: "\<And>ks acc a. I ks acc a \<Longrightarrow> a_handles a h = Some n \<and>
      (\<exists>T. a_tables a n = Some T \<and> tflags T = 0)"
    and body: "\<And>k v rest c acc a. I ((k, v) # rest) acc a \<Longrightarrow> cursor_dbi c = h \<Longrightarrow>
      cursor_at c = Some k \<Longrightarrow> content a n k = Some v \<Longrightarrow> rest = rows_where (\<lambda>k'. k < k') (content a n) \<Longrightarrow>
      awp (body k v c acc) (\<lambda>l a'. case l of
          Continue acc' c' \<Rightarrow> cursor_dbi c' = h \<and> cursor_at c' = Some k \<and> I rest acc' a' \<and>
            rest = rows_where (\<lambda>k'. k < k') (content a' n)
        | Break acc' rc \<Rightarrow> Q (acc', rc) a') E a"
    and fin: "\<And>acc a. I [] acc a \<Longrightarrow> Q (acc, MDBX_NOTFOUND) a"
    and flt: "\<And>ks acc a rc. I ks acc a \<Longrightarrow> rc \<noteq> MDBX_SUCCESS \<Longrightarrow> rc \<noteq> MDBX_NOTFOUND \<Longrightarrow> fails rc \<Longrightarrow>
      Q (acc, rc) a"
    and start: "I ks acc a" "ks = rows_where (admitted (cursor_at c) op) (content a n)"
      "length ks < m" "cursor_dbi c = h"
  shows "awp (bindM (api_cursor_get M c op) (\<lambda>r. cursor_loop M m body r acc)) Q E a"
  using start
proof (induction ks arbitrary: acc a c op m)
  case Nil
  obtain T where T: "a_handles a h = Some n" "a_tables a n = Some T" "tflags T = 0"
    using inv [OF Nil.prems(1)] by blast
  obtain m' where m: "m = Suc m'" using Nil.prems(3) by (cases m) auto
  show ?case
  proof (rule awp_wf)
    assume "wf_view a"
    then have "finite (dom (rows T))" using T by (auto simp: wf_view_def)
    then have none: "\<forall>k \<in> dom (rows T). \<not> admitted (cursor_at c) op k"
      using Nil.prems(2) T rows_where_empty by (metis content_def option.simps(5))
    show ?thesis
      using none m
      by (intro awp_bindM awp_cursor_get [OF _ T(2,3)])
        (auto simp: T Nil.prems intro!: awp_ret fin [OF Nil.prems(1)] flt [OF Nil.prems(1)])
  qed
next
  case (Cons kv ks)
  obtain T where T: "a_handles a h = Some n" "a_tables a n = Some T" "tflags T = 0"
    using inv [OF Cons.prems(1)] by blast
  have ct: "content a n = rows T" using T by (simp add: content_def)
  obtain m' where m: "m = Suc m'" "length ks < m'" using Cons.prems(3) by (cases m) auto
  show ?case
  proof (rule awp_wf)
    assume "wf_view a"
    then have fin_T: "finite (dom (rows T))" using T by (auto simp: wf_view_def)
    have some: "\<not> (\<forall>k \<in> dom (rows T). \<not> admitted (cursor_at c) op k)"
      using Cons.prems(2) ct rows_where_empty [OF fin_T] by (metis list.distinct(1))
    have step: "awp (cursor_loop M m body (MDBX_SUCCESS, (k, v), c') acc) Q E a"
      if k: "rows T k = Some v" "admitted (cursor_at c) op k"
        "\<And>k'. k' \<in> dom (rows T) \<Longrightarrow> admitted (cursor_at c) op k' \<Longrightarrow> k \<le> k'"
        "cursor_dbi c' = cursor_dbi c" "cursor_at c' = Some k" for k v c'
    proof -
      have rw: "kv # ks = (k, v) # rows_where (\<lambda>k'. k < k') (rows T)"
        using Cons.prems(2) ct rows_where_least [OF fin_T k(1), of "admitted (cursor_at c) op"] k
        by (auto intro: admitted_up)
      have "awp (body k v c' acc) (\<lambda>l a'. case l of
          Continue acc' c' \<Rightarrow> cursor_dbi c' = h \<and> cursor_at c' = Some k \<and> I ks acc' a' \<and>
            ks = rows_where (\<lambda>k'. k < k') (content a' n)
        | Break acc' rc \<Rightarrow> Q (acc', rc) a') E a"
        using Cons.prems(1,4) rw k ct by (intro body) auto
      moreover have "awp (case l of Break acc' rc' \<Rightarrow> ret (acc', rc') | Continue acc' c' \<Rightarrow>
            bindM (api_cursor_get M c' MDBX_NEXT) (\<lambda>r. cursor_loop M m' body r acc')) Q E a'"
        if "case l of
            Continue acc' c' \<Rightarrow> cursor_dbi c' = h \<and> cursor_at c' = Some k \<and> I ks acc' a' \<and>
              ks = rows_where (\<lambda>k'. k < k') (content a' n)
          | Break acc' rc \<Rightarrow> Q (acc', rc) a'" for l a'
        using that m(2) Cons.IH by (cases l) (auto intro!: awp_ret simp: admitted_def)
      ultimately show ?thesis
        unfolding m cursor_loop.simps by (simp only: simp_thms if_True) (rule awp_bindM')
    qed
    show ?thesis
      using some m
      by (intro awp_bindM awp_cursor_get [OF _ T(2,3)] step)
        (auto simp: T Cons.prems intro!: awp_ret flt [OF Cons.prems(1)])
  qed
qed

text \<open>A scan that changes nothing runs its body over the rows in key order.\<close>

lemma awp_scan_loop:
  assumes "a_handles a h = Some n" "a_tables a n = Some T" "tflags T = 0"
    and start: "I (rows_where (admitted None op) (rows T)) acc"
    and step: "\<And>k v rest acc. I ((k, v) # rest) acc \<Longrightarrow> rows T k = Some v \<Longrightarrow>
      awp (body k v acc) (\<lambda>acc' a'. a' = a \<and> I rest acc') E a"
    and fin: "\<And>acc. I [] acc \<Longrightarrow> Q (acc, MDBX_NOTFOUND) a"
    and flt: "\<And>acc rc. rc \<noteq> MDBX_SUCCESS \<Longrightarrow> rc \<noteq> MDBX_NOTFOUND \<Longrightarrow> fails rc \<Longrightarrow> Q (acc, rc) a"
    and E: "\<And>rc. fails rc \<Longrightarrow> E (MdbxException err rc)"
  shows "awp (scan_loop M h op err body acc) Q E a"
proof (rule awp_wf)
  assume "wf_view a"
  then have fin_T: "finite (dom (rows T))" using assms(2) by (auto simp: wf_view_def)
  have single: "single M T" using assms(3) by (simp add: single_def)
  have ct: "content a n = rows T" using assms(2) by (simp add: content_def)
  have loop: "awp (bindM (api_cursor_get M c op) (\<lambda>r. cursor_loop M (Suc (card (dom (rows T))))
      (\<lambda>k v c acc. bindM (body k v acc) (\<lambda>acc'. ret (Continue acc' c))) r acc)) Q E a"
    if c: "cursor_dbi c = h" "cursor_at c = None" for c
  proof (rule awp_cursor_loop [where I = "\<lambda>ks acc a'. a' = a \<and> I ks acc" and n = n and h = h
        and ks = "rows_where (admitted None op) (rows T)"])
    fix k v rest c acc a'
    assume "a' = a \<and> I ((k, v) # rest) acc" "cursor_dbi c = h" "cursor_at c = Some k"
      "content a' n k = Some v" "rest = rows_where (\<lambda>k'. k < k') (content a' n)"
    then show "awp (bindM (body k v acc) (\<lambda>acc'. ret (Continue acc' c))) (\<lambda>l a'. case l of
        Continue acc' c' \<Rightarrow> cursor_dbi c' = h \<and> cursor_at c' = Some k \<and> (a' = a \<and> I rest acc') \<and>
          rest = rows_where (\<lambda>k'. k < k') (content a' n)
      | Break acc' rc \<Rightarrow> Q (acc', rc) a') E a'"
      using step [of k v rest acc] ct by (auto intro!: awp_bindM' awp_ret)
  qed (use assms c ct length_rows_where [OF fin_T] in \<open>auto simp: le_imp_less_Suc\<close>)
  show ?thesis
    unfolding scan_loop_def
    by (intro awp_bindM awp_entries [OF assms(1,2) single] awp_cursor_open [OF assms(1)])
      (auto intro!: awp_thenM awp_check loop E)
qed

end

end
