(* ===== verification/Txn_Model.thy ===== *)
theory Txn_Model
  imports Mdbx_Api
begin

text \<open>
  The lifecycle of native transactions: \<^verbatim>\<open>common/TransactionTracker.ipp\<close> (which thread has which
  transaction and how many handles are open), \<^verbatim>\<open>common/Transaction.ipp\<close> (the guard around one native
  handle) and the part of \<^verbatim>\<open>common/Connection.ipp\<close> that opens, commits and closes.

  Threads, guard objects, native handles (\<open>MDBX_txn*\<close>) and environments (\<open>MDBX_env*\<close>) are numbers; \<open>None\<close>
  is the null pointer. The answers of libmdbx to the calls of one operation are the argument \<open>N\<close>, a
  record with one field per function; so is the outcome of the capture sinks' \<open>flush_in_txn\<close>. What
  the library promises about them is stated where the steps of a program are put together.
\<close>

type_synonym tid = nat
type_synonym oid = nat
type_synonym hnd = nat

section \<open>State\<close>

datatype transaction_mode = READ_ONLY | WRITABLE

text \<open>The members of \<open>Transaction\<close>; \<open>m_registry\<close> is whether the pointer is set.\<close>

record transaction =
  m_registry :: bool
  m_env_of :: "nat option"
  m_txn :: "hnd option"
  m_mode :: transaction_mode
  m_started :: bool
  m_handle_registered :: bool

text \<open>
  The members of \<open>Connection\<close> and of its base class \<open>TransactionTracker\<close>. \<open>discard_calls\<close> records the
  \<open>discard_txn\<close> calls the attached capture sinks received.
\<close>

record connection =
  m_env :: "nat option"
  m_config :: bool
  m_shutdown_requested :: bool
  m_transactions :: "tid \<rightharpoonup> oid"
  m_thread_txns :: "tid \<rightharpoonup> hnd"
  m_thread_txn_handle_counts :: "tid \<rightharpoonup> nat"
  m_open_txn_handles :: nat
  m_sync_capture_failed_txn :: "hnd option"
  discard_calls :: "hnd list"

record native =
  n_begin :: "mdbx_rc \<times> hnd"
  n_renew :: mdbx_rc
  n_reset :: mdbx_rc
  n_abort :: mdbx_rc
  n_commit :: mdbx_rc
  n_close :: mdbx_rc
  n_db_init :: "nat option \<times> exn option"
  n_flush :: "exn + unit"

section \<open>The tracker\<close>

definition bind_txn :: "tid \<Rightarrow> hnd \<Rightarrow> connection \<Rightarrow> connection" where
  "bind_txn t txn c = c\<lparr>m_thread_txns := (m_thread_txns c)(t \<mapsto> txn)\<rparr>"

definition register_txn_handle :: "tid \<Rightarrow> connection \<Rightarrow> connection" where
  "register_txn_handle t c =
    (let n = (case m_thread_txn_handle_counts c t of None \<Rightarrow> 0 | Some n \<Rightarrow> n) in
     c\<lparr>m_open_txn_handles := m_open_txn_handles c + 1,
       m_thread_txn_handle_counts := (m_thread_txn_handle_counts c)(t \<mapsto> n + 1)\<rparr>)"

definition unregister_txn_handle :: "tid \<Rightarrow> connection \<Rightarrow> connection" where
  "unregister_txn_handle t c =
    (let c' = c\<lparr>m_open_txn_handles := (if m_open_txn_handles c > 0 then m_open_txn_handles c - 1
       else m_open_txn_handles c)\<rparr> in
     case m_thread_txn_handle_counts c t of
       None \<Rightarrow> c'
     | Some n \<Rightarrow> c'\<lparr>m_thread_txn_handle_counts := (m_thread_txn_handle_counts c)
         (t := if n > 1 then Some (n - 1) else None)\<rparr>)"

definition unbind_txn :: "tid \<Rightarrow> hnd \<Rightarrow> connection \<Rightarrow> connection" where
  "unbind_txn t expected c =
    (if m_thread_txns c t = Some expected then c\<lparr>m_thread_txns := (m_thread_txns c)(t := None)\<rparr> else c)"

definition thread_txn :: "tid \<Rightarrow> connection \<Rightarrow> hnd option" where
  "thread_txn t c = m_thread_txns c t"

definition current_thread_has_txn :: "tid \<Rightarrow> connection \<Rightarrow> bool" where
  "current_thread_has_txn t c \<longleftrightarrow> m_thread_txns c t \<noteq> None"

definition current_thread_has_txn_handle :: "tid \<Rightarrow> connection \<Rightarrow> bool" where
  "current_thread_has_txn_handle t c \<longleftrightarrow> m_thread_txn_handle_counts c t \<noteq> None"

definition has_txn_handles :: "connection \<Rightarrow> bool" where
  "has_txn_handles c \<longleftrightarrow> m_open_txn_handles c \<noteq> 0"

section \<open>Capture failures\<close>

definition mark_sync_capture_failed :: "hnd option \<Rightarrow> connection \<Rightarrow> connection" where
  "mark_sync_capture_failed txn c =
    (case txn of None \<Rightarrow> c | Some h \<Rightarrow> c\<lparr>m_sync_capture_failed_txn := Some h\<rparr>)"

definition sync_capture_failed :: "hnd option \<Rightarrow> connection \<Rightarrow> bool" where
  "sync_capture_failed txn c \<longleftrightarrow> (case txn of None \<Rightarrow> False | Some h \<Rightarrow> m_sync_capture_failed_txn c = Some h)"

definition clear_sync_capture_failed :: "hnd option \<Rightarrow> connection \<Rightarrow> connection" where
  "clear_sync_capture_failed txn c = (case txn of None \<Rightarrow> c
    | Some h \<Rightarrow> if m_sync_capture_failed_txn c = Some h then c\<lparr>m_sync_capture_failed_txn := None\<rparr> else c)"

definition on_pre_commit :: "native \<Rightarrow> hnd \<Rightarrow> (connection, unit) io" where
  "on_pre_commit N txn c =
    (if sync_capture_failed (Some txn) c
     then (Inl (LogicError ''Cannot commit transaction after sync capture failure''), c)
     else case n_flush N of
       Inl e \<Rightarrow> (Inl e, mark_sync_capture_failed (Some txn) c)
     | Inr _ \<Rightarrow> (Inr (), c))"

definition on_discard :: "hnd \<Rightarrow> connection \<Rightarrow> connection" where
  "on_discard txn c = (let c' = clear_sync_capture_failed (Some txn) c in
     c'\<lparr>discard_calls := discard_calls c' @ [txn]\<rparr>)"

section \<open>The guard\<close>

definition safe_unbind_txn :: "tid \<Rightarrow> bool \<Rightarrow> hnd option \<Rightarrow> connection \<Rightarrow> connection" where
  "safe_unbind_txn t registry txn c = (if \<not> registry then c
     else case txn of None \<Rightarrow> c | Some h \<Rightarrow> unbind_txn t h c)"

definition safe_unregister_txn_handle :: "tid \<Rightarrow> bool \<Rightarrow> connection \<Rightarrow> connection" where
  "safe_unregister_txn_handle t registry c = (if \<not> registry then c else unregister_txn_handle t c)"

text \<open>\<open>release\<close> ignores what \<open>mdbx_txn_abort\<close> answers.\<close>

definition release :: "tid \<Rightarrow> transaction \<times> connection \<Rightarrow> transaction \<times> connection" where
  "release t = (\<lambda>(g, c). let
     c1 = (case m_txn g of None \<Rightarrow> c | Some txn \<Rightarrow>
       if m_registry g \<and> m_started g \<and> m_mode g = WRITABLE then on_discard txn c else c);
     c2 = (if m_registry g \<and> m_txn g \<noteq> None \<and> m_started g then safe_unbind_txn t (m_registry g) (m_txn g) c1 else c1);
     c3 = (if m_registry g \<and> m_handle_registered g then safe_unregister_txn_handle t (m_registry g) c2 else c2)
     in (g\<lparr>m_registry := False, m_env_of := None, m_txn := None, m_started := False,
           m_handle_registered := False\<rparr>, c3))"

text \<open>The guard that takes over, and what is left of the one moved from.\<close>

definition move_from :: "transaction \<Rightarrow> transaction \<Rightarrow> transaction \<times> transaction" where
  "move_from self other =
    (self\<lparr>m_registry := m_registry other, m_env_of := m_env_of other, m_txn := m_txn other,
       m_mode := m_mode other, m_started := m_started other, m_handle_registered := m_handle_registered other\<rparr>,
     other\<lparr>m_registry := False, m_env_of := None, m_txn := None, m_started := False,
       m_handle_registered := False\<rparr>)"

text \<open>
  \<open>begin\<close>: a failing \<open>mdbx_txn_begin\<close> leaves the null pointer in \<open>m_txn\<close>. The handler's \<open>mdbx_txn_reset\<close> of
  a reader that could not be renewed has no effect on the wrapper.
\<close>

definition txn_begin :: "tid \<Rightarrow> native \<Rightarrow> (transaction \<times> connection, unit) io" where
  "txn_begin t N = (\<lambda>(g, c).
    if m_started g then (Inr (), g, c)
    else if m_txn g \<noteq> None \<and> m_mode g = READ_ONLY then
      (if n_renew N \<noteq> MDBX_SUCCESS then (Inl (MdbxException ''Failed to renew transaction'' (n_renew N)), g, c)
       else (Inr (), g\<lparr>m_started := True\<rparr>, bind_txn t (the (m_txn g)) c))
    else
      (let reserved = m_handle_registered g \<and> m_txn g = None; (rc, h) = n_begin N in
       if rc \<noteq> MDBX_SUCCESS then
         (Inl (MdbxException ''Failed to begin transaction'' rc),
          if reserved then (g\<lparr>m_txn := None, m_handle_registered := False\<rparr>, unregister_txn_handle t c)
          else (g\<lparr>m_txn := None\<rparr>, c))
       else
         (let c1 = (if \<not> m_handle_registered g then register_txn_handle t c else c) in
          (Inr (), g\<lparr>m_txn := Some h, m_handle_registered := True, m_started := True\<rparr>, bind_txn t h c1))))"

definition txn_commit :: "tid \<Rightarrow> native \<Rightarrow> (transaction \<times> connection, unit) io" where
  "txn_commit t N = (\<lambda>(g, c). case m_txn g of
     None \<Rightarrow> (Inl (MdbxException ''No active transaction to commit.'' (MDBX_ERRNO (-1))), g, c)
   | Some txn \<Rightarrow>
    if \<not> m_started g then (Inl (MdbxException ''No active transaction to commit.'' (MDBX_ERRNO (-1))), g, c)
    else (case m_mode g of
      READ_ONLY \<Rightarrow>
       (if n_reset N \<noteq> MDBX_SUCCESS
        then (Inl (MdbxException ''Failed to reset read-only transaction'' (n_reset N)), g, c)
        else (Inr (), g\<lparr>m_started := False\<rparr>, safe_unbind_txn t (m_registry g) (Some txn) c))
    | WRITABLE \<Rightarrow> (case on_pre_commit N txn c of
        (Inl e, c1) \<Rightarrow> (Inl e, g, c1)
      | (Inr _, c1) \<Rightarrow>
         (if n_commit N = MDBX_THREAD_MISMATCH
          then (Inl (MdbxException ''Failed to commit writable transaction'' (n_commit N)), g, c1)
          else (let c2 = (if n_commit N \<noteq> MDBX_SUCCESS then on_discard txn c1 else c1);
                    c3 = safe_unbind_txn t (m_registry g) (Some txn) c2;
                    c4 = safe_unregister_txn_handle t (m_registry g) c3 in
            (if n_commit N \<noteq> MDBX_SUCCESS
             then Inl (MdbxException ''Failed to commit writable transaction'' (n_commit N)) else Inr (),
             g\<lparr>m_txn := None, m_started := False, m_handle_registered := False\<rparr>, c4))))))"

definition txn_rollback :: "tid \<Rightarrow> native \<Rightarrow> (transaction \<times> connection, unit) io" where
  "txn_rollback t N = (\<lambda>(g, c). case m_txn g of
     None \<Rightarrow> (Inl (MdbxException ''No active transaction to rollback.'' (MDBX_ERRNO (-1))), g, c)
   | Some txn \<Rightarrow>
    if \<not> m_started g then (Inl (MdbxException ''No active transaction to rollback.'' (MDBX_ERRNO (-1))), g, c)
    else (case m_mode g of
      READ_ONLY \<Rightarrow>
       (if n_reset N \<noteq> MDBX_SUCCESS
        then (Inl (MdbxException ''Failed to reset read-only transaction'' (n_reset N)), g, c)
        else (Inr (), g\<lparr>m_started := False\<rparr>, safe_unbind_txn t (m_registry g) (Some txn) c))
    | WRITABLE \<Rightarrow>
       (let c1 = on_discard txn c in
        if n_abort N \<noteq> MDBX_SUCCESS
        then (Inl (MdbxException ''Failed to abort writable transaction'' (n_abort N)), g, c1)
        else (Inr (), g\<lparr>m_txn := None, m_started := False, m_handle_registered := False\<rparr>,
              safe_unregister_txn_handle t (m_registry g) (safe_unbind_txn t (m_registry g) (Some txn) c1)))))"

section \<open>The connection\<close>

text \<open>
  \<open>transaction(mode)\<close> and \<open>begin(mode)\<close> check and reserve under the mutex; the guard they build, with its
  slot reserved, opens the native transaction after the mutex is released.
\<close>

definition reserved_guard :: "nat option \<Rightarrow> transaction_mode \<Rightarrow> transaction" where
  "reserved_guard env mode = \<lparr>m_registry = True, m_env_of = env, m_txn = None, m_mode = mode,
     m_started = False, m_handle_registered = True\<rparr>"

definition conn_transaction :: "tid \<Rightarrow> transaction_mode \<Rightarrow> (connection, transaction) io" where
  "conn_transaction t mode c =
    (if m_shutdown_requested c then (Inl (LogicError ''Connection shutdown is in progress.''), c)
     else if m_env c = None then (Inl (LogicError ''Connection is not connected.''), c)
     else if current_thread_has_txn t c then
       (Inl (LogicError (''A transaction is already active on this connection's thread. '' @
          ''Reuse it through table operations or pass the active transaction explicitly.'')), c)
     else (Inr (reserved_guard (m_env c) mode), register_txn_handle t c))"

definition conn_begin :: "tid \<Rightarrow> transaction_mode \<Rightarrow> (connection, transaction) io" where
  "conn_begin t mode c =
    (if m_shutdown_requested c then (Inl (LogicError ''Connection shutdown is in progress.''), c)
     else if m_env c = None then (Inl (LogicError ''Connection is not connected.''), c)
     else if m_transactions c t \<noteq> None then
       (Inl (LogicError ''Transaction already started for this thread.''), c)
     else if current_thread_has_txn t c then
       (Inl (LogicError (''A transaction is already active on this connection's thread. '' @
          ''Commit or roll it back before starting a manual transaction.'')), c)
     else (Inr (reserved_guard (m_env c) mode), register_txn_handle t c))"

definition conn_begin_insert :: "tid \<Rightarrow> oid \<Rightarrow> (connection, unit) io" where
  "conn_begin_insert t o' c =
    (if m_transactions c t \<noteq> None then (Inl (LogicError ''Transaction already started for this thread.''), c)
     else (Inr (), c\<lparr>m_transactions := (m_transactions c)(t \<mapsto> o')\<rparr>))"

definition erase_manual_transaction_if_current :: "tid \<Rightarrow> oid \<Rightarrow> connection \<Rightarrow> connection" where
  "erase_manual_transaction_if_current t o' c =
    (if m_transactions c t = Some o' then c\<lparr>m_transactions := (m_transactions c)(t := None)\<rparr> else c)"

definition current_txn :: "tid \<Rightarrow> connection \<Rightarrow> oid option" where
  "current_txn t c = m_transactions c t"

text \<open>\<open>connect\<close>; \<open>db_init\<close> is a sequence of native calls and file-system calls, so its outcome (the
  environment pointer it leaves and the exception it throws, if any) is part of the answers.\<close>

definition initialize :: "native \<Rightarrow> (connection, unit) io" where
  "initialize N c = (case n_db_init N of (env, err) \<Rightarrow>
     (case err of
        None \<Rightarrow> (Inr (), c\<lparr>m_env := env\<rparr>)
      | Some e \<Rightarrow> (Inl e, c\<lparr>m_env := (if env \<noteq> None \<and> n_close N = MDBX_SUCCESS then None else env)\<rparr>)))"

definition configure :: "connection \<Rightarrow> connection" where
  "configure c = c\<lparr>m_config := True\<rparr>"

definition is_connected :: "connection \<Rightarrow> bool" where
  "is_connected c \<longleftrightarrow> m_env c \<noteq> None"

definition connect :: "native \<Rightarrow> (connection, unit) io" where
  "connect N c =
    (if m_env c \<noteq> None then (Inr (), c)
     else if \<not> m_config c then (Inl (LogicError ''No configuration provided.''), c)
     else initialize N (c\<lparr>m_shutdown_requested := False\<rparr>))"

definition connect_config :: "native \<Rightarrow> (connection, unit) io" where
  "connect_config N c =
    (if m_env c \<noteq> None then (Inr (), c)
     else initialize N (c\<lparr>m_config := True, m_shutdown_requested := False\<rparr>))"

definition cleanup :: "bool \<Rightarrow> native \<Rightarrow> (connection, unit) io" where
  "cleanup use_throw N c =
    (if has_txn_handles c then
       (if use_throw then (Inl (MdbxException ''Cannot disconnect while transaction handles are open.'' MDBX_BUSY), c)
        else (Inr (), c))
     else (let c1 = c\<lparr>m_transactions := Map.empty\<rparr> in
       if m_env c1 = None then (Inr (), c1)
       else if n_close N \<noteq> MDBX_SUCCESS then
         (if use_throw then Inl (MdbxException ''Failed to close environment'' (n_close N)) else Inr (), c1)
       else (Inr (), c1\<lparr>m_env := None, m_shutdown_requested := False\<rparr>)))"

definition disconnect :: "native \<Rightarrow> (connection, unit) io" where
  "disconnect N = cleanup True N"

definition request_shutdown :: "tid \<Rightarrow> (connection, bool) io" where
  "request_shutdown t c =
    (if m_env c = None then (Inr False, c\<lparr>m_shutdown_requested := False\<rparr>)
     else if current_thread_has_txn_handle t c then
       (Inl (LogicError ''Cannot shutdown from a thread with an open transaction handle.''), c)
     else (Inr True, c\<lparr>m_shutdown_requested := True\<rparr>))"

text \<open>\<open>shutdown\<close> on a state that does not change while it waits; \<open>None\<close> is a wait that does not end.\<close>

definition shutdown :: "tid \<Rightarrow> native \<Rightarrow> connection \<Rightarrow> ((exn + unit) \<times> connection) option" where
  "shutdown t N c = (case request_shutdown t c of
     (Inl e, c1) \<Rightarrow> Some (Inl e, c1)
   | (Inr False, c1) \<Rightarrow> Some (Inr (), c1)
   | (Inr True, c1) \<Rightarrow> if has_txn_handles c1 then None else Some (disconnect N c1))"

section \<open>Programs of several threads\<close>

text \<open>
  A world: the connection, the guard objects with the thread each belongs to, and the handles the
  library has open. \<open>constructing\<close> marks a guard between the reservation and the end of its
  constructor, \<open>manual\<close> one that \<open>Connection::begin\<close> made and keeps in \<open>m_transactions\<close>.
\<close>

record obj =
  owner :: tid
  constructing :: bool
  manual :: bool
  guard :: transaction

record world =
  conn :: connection
  objs :: "oid \<rightharpoonup> obj"
  live :: "hnd set"

text \<open>
  Running a method of object \<open>o'\<close>. The library has a handle open from the \<open>mdbx_txn_begin\<close> that
  returned it until the commit or abort that terminates it; the guard keeps the pointer for that time.
\<close>

definition run_guard :: "oid \<Rightarrow> (transaction \<times> connection, 'a) io \<Rightarrow> (world, 'a) io" where
  "run_guard o' m w = (let x = the (objs w o'); (r, g, c) = m (guard x, conn w) in
     (r, w\<lparr>conn := c, objs := (objs w)(o' \<mapsto> x\<lparr>guard := g\<rparr>),
           live := live w - set_option (m_txn (guard x)) \<union> set_option (m_txn g)\<rparr>))"

text \<open>\<open>Connection::commit\<close> and \<open>Connection::rollback\<close>: the guard leaves \<open>m_transactions\<close> on every path.\<close>

definition conn_finish :: "(transaction \<times> connection, unit) io \<Rightarrow> tid \<Rightarrow> (world, unit) io" where
  "conn_finish m t w = (case m_transactions (conn w) t of
     None \<Rightarrow> (Inl (LogicError ''No transaction for this thread.''), w)
   | Some o' \<Rightarrow> (case run_guard o' m w of (r, w') \<Rightarrow>
       (r, w'\<lparr>conn := erase_manual_transaction_if_current t o' (conn w')\<rparr>)))"

definition conn_commit :: "tid \<Rightarrow> native \<Rightarrow> (world, unit) io" where
  "conn_commit t N = conn_finish (txn_commit t N) t"

definition conn_rollback :: "tid \<Rightarrow> native \<Rightarrow> (world, unit) io" where
  "conn_rollback t N = conn_finish (txn_rollback t N) t"

text \<open>
  What libmdbx documents for transactions used by their own thread. A successful begin returns a
  handle that is not open, needs an open environment, is refused to a thread that has an active
  transaction, and is refused to a writer while there is another writer; a renewal is refused to a
  thread that has an active transaction. Aborting on the owning thread succeeds.
\<close>

definition thread_idle :: "world \<Rightarrow> tid \<Rightarrow> bool" where
  "thread_idle w t \<longleftrightarrow> (\<forall>o' x. objs w o' = Some x \<longrightarrow> owner x = t \<longrightarrow> \<not> m_started (guard x))"

definition no_writer :: "world \<Rightarrow> bool" where
  "no_writer w \<longleftrightarrow> (\<forall>o' x. objs w o' = Some x \<longrightarrow> m_mode (guard x) = WRITABLE \<longrightarrow> m_txn (guard x) = None)"

definition begin_contract :: "world \<Rightarrow> obj \<Rightarrow> native \<Rightarrow> bool" where
  "begin_contract w x N \<longleftrightarrow>
    (fst (n_begin N) = MDBX_SUCCESS \<longrightarrow> snd (n_begin N) \<notin> live w \<and> thread_idle w (owner x) \<and>
       m_env_of (guard x) \<noteq> None \<and> m_env_of (guard x) = m_env (conn w) \<and>
       (m_mode (guard x) = WRITABLE \<longrightarrow> no_writer w)) \<and>
    (n_renew N = MDBX_SUCCESS \<longrightarrow> thread_idle w (owner x))"

inductive step :: "world \<Rightarrow> world \<Rightarrow> bool" where
  configure: "step w (w\<lparr>conn := configure (conn w)\<rparr>)"
| connect: "n_db_init N \<noteq> (None, None) \<Longrightarrow> step w (w\<lparr>conn := snd (connect N (conn w))\<rparr>)"
| connect_config: "n_db_init N \<noteq> (None, None) \<Longrightarrow> step w (w\<lparr>conn := snd (connect_config N (conn w))\<rparr>)"
| reserve: "conn_transaction t mode (conn w) = (Inr g, c) \<Longrightarrow> objs w o' = None \<Longrightarrow>
    step w (w\<lparr>conn := c, objs := (objs w)(o' \<mapsto> \<lparr>owner = t, constructing = True, manual = False, guard = g\<rparr>)\<rparr>)"
| reserve_manual: "conn_begin t mode (conn w) = (Inr g, c) \<Longrightarrow> objs w o' = None \<Longrightarrow>
    step w (w\<lparr>conn := c, objs := (objs w)(o' \<mapsto> \<lparr>owner = t, constructing = True, manual = True, guard = g\<rparr>)\<rparr>)"
| construct: "objs w o' = Some x \<Longrightarrow> constructing x \<Longrightarrow> begin_contract w x N \<Longrightarrow>
    run_guard o' (txn_begin (owner x) N) w = (Inr (), w') \<Longrightarrow>
    step w (w'\<lparr>objs := (objs w')(o' \<mapsto> (the (objs w' o'))\<lparr>constructing := False\<rparr>)\<rparr>)"
| construct_fails: "objs w o' = Some x \<Longrightarrow> constructing x \<Longrightarrow> begin_contract w x N \<Longrightarrow>
    run_guard o' (txn_begin (owner x) N) w = (Inl e, w') \<Longrightarrow>
    step w (w'\<lparr>objs := (objs w')(o' := None)\<rparr>)"
| insert_manual: "objs w o' = Some x \<Longrightarrow> manual x \<Longrightarrow> \<not> constructing x \<Longrightarrow>
    conn_begin_insert (owner x) o' (conn w) = (Inr (), c) \<Longrightarrow> step w (w\<lparr>conn := c\<rparr>)"
| begin_again: "objs w o' = Some x \<Longrightarrow> \<not> constructing x \<Longrightarrow> begin_contract w x N \<Longrightarrow>
    step w (snd (run_guard o' (txn_begin (owner x) N) w))"
| commit: "objs w o' = Some x \<Longrightarrow> \<not> constructing x \<Longrightarrow>
    step w (snd (run_guard o' (txn_commit (owner x) N) w))"
| rollback: "objs w o' = Some x \<Longrightarrow> \<not> constructing x \<Longrightarrow> n_abort N = MDBX_SUCCESS \<Longrightarrow>
    step w (snd (run_guard o' (txn_rollback (owner x) N) w))"
| commit_manual: "step w (snd (conn_commit t N w))"
| rollback_manual: "n_abort N = MDBX_SUCCESS \<Longrightarrow> step w (snd (conn_rollback t N w))"
| destroy: "objs w o' = Some x \<Longrightarrow> \<not> constructing x \<Longrightarrow> o' \<notin> ran (m_transactions (conn w)) \<Longrightarrow>
    run_guard o' (\<lambda>s. (Inr (), release (owner x) s)) w = (Inr (), w') \<Longrightarrow>
    step w (w'\<lparr>objs := (objs w')(o' := None)\<rparr>)"
| move_construct: "objs w o' = Some x \<Longrightarrow> \<not> constructing x \<Longrightarrow> objs w p = None \<Longrightarrow>
    move_from g (guard x) = (g1, g2) \<Longrightarrow>
    step w (w\<lparr>objs := (objs w)(o' \<mapsto> x\<lparr>guard := g2\<rparr>, p \<mapsto> x\<lparr>manual := False, guard := g1\<rparr>)\<rparr>)"
| move_assign: "objs w o' = Some x \<Longrightarrow> \<not> constructing x \<Longrightarrow> objs w p = Some y \<Longrightarrow> \<not> constructing y \<Longrightarrow>
    o' \<noteq> p \<Longrightarrow> owner x = owner y \<Longrightarrow>
    run_guard p (\<lambda>s. (Inr (), release (owner y) s)) w = (Inr (), w') \<Longrightarrow>
    move_from (guard (the (objs w' p))) (guard x) = (g1, g2) \<Longrightarrow>
    step w (w'\<lparr>objs := (objs w')(o' \<mapsto> x\<lparr>guard := g2\<rparr>, p \<mapsto> y\<lparr>guard := g1\<rparr>)\<rparr>)"
| capture_fails: "objs w o' = Some x \<Longrightarrow> m_mode (guard x) = WRITABLE \<Longrightarrow> m_txn (guard x) \<noteq> None \<Longrightarrow>
    step w (w\<lparr>conn := mark_sync_capture_failed (m_txn (guard x)) (conn w)\<rparr>)"
| request_shutdown: "step w (w\<lparr>conn := snd (request_shutdown t (conn w))\<rparr>)"
| disconnect: "step w (w\<lparr>conn := snd (disconnect N (conn w))\<rparr>)"

definition start_world :: world where
  "start_world = \<lparr>conn = \<lparr>m_env = None, m_config = False, m_shutdown_requested = False,
     m_transactions = Map.empty, m_thread_txns = Map.empty, m_thread_txn_handle_counts = Map.empty,
     m_open_txn_handles = 0, m_sync_capture_failed_txn = None, discard_calls = []\<rparr>,
     objs = Map.empty, live = {}\<rparr>"

abbreviation reachable :: "world \<Rightarrow> bool" where
  "reachable w \<equiv> step\<^sup>*\<^sup>* start_world w"

end
