(* ===== verification/Txn_Invariant.thy ===== *)
theory Txn_Invariant
  imports Txn_Model
begin

text \<open>
  The invariant of the transaction lifecycle. \<open>change_ok\<close> collects what one method of one guard may
  change; every method satisfies it, and the invariant survives every such change. So the steps of
  a program are covered by one preservation lemma.
\<close>

section \<open>The invariant\<close>

definition active :: "transaction \<Rightarrow> hnd option" where
  "active g = (if m_started g then m_txn g else None)"

definition writer :: "transaction \<Rightarrow> hnd option" where
  "writer g = (if m_mode g = WRITABLE then m_txn g else None)"

definition tracked :: "connection \<Rightarrow> nat \<times> (tid \<rightharpoonup> nat)" where
  "tracked c = (m_open_txn_handles c, m_thread_txn_handle_counts c)"

definition registered :: "(oid \<rightharpoonup> obj) \<Rightarrow> oid set" where
  "registered X = {o'. \<exists>x. X o' = Some x \<and> m_handle_registered (guard x)}"

definition registered_of :: "(oid \<rightharpoonup> obj) \<Rightarrow> tid \<Rightarrow> oid set" where
  "registered_of X t = {o'. \<exists>x. X o' = Some x \<and> m_handle_registered (guard x) \<and> owner x = t}"

definition counts_ok :: "connection \<Rightarrow> (oid \<rightharpoonup> obj) \<Rightarrow> bool" where
  "counts_ok c X \<longleftrightarrow> m_open_txn_handles c = card (registered X) \<and>
    (\<forall>t. m_thread_txn_handle_counts c t =
       (if registered_of X t = {} then None else Some (card (registered_of X t))))"

definition guard_ok :: "connection \<Rightarrow> bool \<Rightarrow> transaction \<Rightarrow> bool" where
  "guard_ok c opening g \<longleftrightarrow>
    (m_handle_registered g \<longleftrightarrow> m_txn g \<noteq> None \<or> opening) \<and> (opening \<longrightarrow> m_txn g = None) \<and>
    (m_started g \<longrightarrow> m_txn g \<noteq> None) \<and> (m_mode g = WRITABLE \<longrightarrow> m_txn g \<noteq> None \<longrightarrow> m_started g) \<and>
    (m_env_of g \<noteq> None \<longrightarrow> m_registry g) \<and>
    (m_handle_registered g \<longrightarrow> m_env_of g = m_env c \<and> m_env c \<noteq> None)"

text \<open>The object that holds the handle, as the active transaction of its thread or as the writer.\<close>

definition holds :: "(oid \<rightharpoonup> obj) \<Rightarrow> (transaction \<Rightarrow> hnd option) \<Rightarrow> oid \<Rightarrow> hnd \<Rightarrow> bool" where
  "holds X f o' h \<longleftrightarrow> (\<exists>x. X o' = Some x \<and> f (guard x) = Some h)"

definition txn_inv :: "world \<Rightarrow> bool" where
  "txn_inv w \<longleftrightarrow> finite (dom (objs w)) \<and> counts_ok (conn w) (objs w) \<and>
    (\<forall>o' x. objs w o' = Some x \<longrightarrow> guard_ok (conn w) (constructing x) (guard x)) \<and>
    (\<forall>o' p h. holds (objs w) m_txn o' h \<longrightarrow> holds (objs w) m_txn p h \<longrightarrow> o' = p) \<and>
    live w = {h. \<exists>o'. holds (objs w) m_txn o' h} \<and>
    (\<forall>t h. m_thread_txns (conn w) t = Some h \<longleftrightarrow>
       (\<exists>o' x. objs w o' = Some x \<and> owner x = t \<and> active (guard x) = Some h)) \<and>
    (\<forall>o' p h k. holds (objs w) writer o' h \<longrightarrow> holds (objs w) writer p k \<longrightarrow> o' = p) \<and>
    (\<forall>h. m_sync_capture_failed_txn (conn w) = Some h \<longrightarrow> (\<exists>o'. holds (objs w) writer o' h)) \<and>
    (\<forall>t o'. m_transactions (conn w) t = Some o' \<longrightarrow> (\<exists>x. objs w o' = Some x \<and> owner x = t \<and> \<not> constructing x))"

lemma invI:
  assumes "conn w = c" "objs w = X" "live w = L"
    and "finite (dom X)" "counts_ok c X"
    and "\<And>o' x. X o' = Some x \<Longrightarrow> guard_ok c (constructing x) (guard x)"
    and "\<And>o' p h. holds X m_txn o' h \<Longrightarrow> holds X m_txn p h \<Longrightarrow> o' = p"
    and "L = {h. \<exists>o'. holds X m_txn o' h}"
    and "\<And>t h. m_thread_txns c t = Some h \<longleftrightarrow> (\<exists>o' x. X o' = Some x \<and> owner x = t \<and> active (guard x) = Some h)"
    and "\<And>o' p h k. holds X writer o' h \<Longrightarrow> holds X writer p k \<Longrightarrow> o' = p"
    and "\<And>h. m_sync_capture_failed_txn c = Some h \<Longrightarrow> \<exists>o'. holds X writer o' h"
    and "\<And>t o'. m_transactions c t = Some o' \<Longrightarrow> \<exists>x. X o' = Some x \<and> owner x = t \<and> \<not> constructing x"
  shows "txn_inv w"
  unfolding txn_inv_def assms(1-3) by (intro conjI allI impI) (fact assms)+

section \<open>Counting handles\<close>

lemma finite_registered [simp]:
  "finite (dom X) \<Longrightarrow> finite (registered X)" "finite (dom X) \<Longrightarrow> finite (registered_of X t)"
  by (auto simp: registered_def registered_of_def elim!: finite_subset [rotated])

lemma counts_ok_tracked: "tracked c = tracked c' \<Longrightarrow> counts_ok c X \<longleftrightarrow> counts_ok c' X"
  by (auto simp: tracked_def counts_ok_def)

text \<open>An object that takes or gives up its slot.\<close>

lemma registered_add:
  assumes "X o' = None \<or> (\<exists>y. X o' = Some y \<and> \<not> m_handle_registered (guard y) \<and> owner y = owner x)"
    and "m_handle_registered (guard x)"
  shows "registered (X(o' \<mapsto> x)) = insert o' (registered X)" "o' \<notin> registered X"
    "registered_of (X(o' \<mapsto> x)) t = (if owner x = t then insert o' (registered_of X t) else registered_of X t)"
    "o' \<notin> registered_of X t"
  using assms by (auto simp: registered_def registered_of_def)

lemma counts_ok_register:
  assumes "counts_ok c X" and "finite (dom X)"
    and "X o' = None \<or> (\<exists>y. X o' = Some y \<and> \<not> m_handle_registered (guard y) \<and> owner y = owner x)"
    and "m_handle_registered (guard x)"
  shows "counts_ok (register_txn_handle (owner x) c) (X(o' \<mapsto> x))"
  using assms(1,2) registered_add [where X = X and o' = o', OF assms(3,4)]
  by (auto simp: counts_ok_def register_txn_handle_def Let_def split: if_splits)

lemma registered_drop:
  assumes "X o' = Some x" and "m_handle_registered (guard x)"
    and "Y = X(o' := None) \<or> (\<exists>y. Y = X(o' \<mapsto> y) \<and> \<not> m_handle_registered (guard y))"
  shows "registered X = insert o' (registered Y)" "o' \<notin> registered Y"
    "registered_of X t = (if owner x = t then insert o' (registered_of Y t) else registered_of Y t)"
    "o' \<notin> registered_of Y t"
  using assms by (auto simp: registered_def registered_of_def split: if_splits)

lemma counts_ok_unregister:
  assumes "counts_ok c X" and "finite (dom X)" and "X o' = Some x" and "m_handle_registered (guard x)"
    and "Y = X(o' := None) \<or> (\<exists>y. Y = X(o' \<mapsto> y) \<and> \<not> m_handle_registered (guard y))"
  shows "counts_ok (unregister_txn_handle (owner x) c) Y"
proof -
  have fin: "finite (dom Y)" using assms(2,5) by auto
  note R = registered_drop [where X = X and o' = o', OF assms(3,4,5)]
  have card: "card (insert o' (registered Y)) = Suc (card (registered Y))"
    "card (insert o' (registered_of Y t)) = Suc (card (registered_of Y t))" for t
    using R fin by simp_all
  have "card (registered_of Y t) = 0 \<longleftrightarrow> registered_of Y t = {}" for t
    using fin by simp
  then show ?thesis using assms(1) card
    by (auto simp: counts_ok_def unregister_txn_handle_def Let_def R split: if_splits)
qed

lemma counts_ok_same:
  assumes "counts_ok c X" and "X o' = Some x" and "owner y = owner x"
    and "m_handle_registered (guard y) = m_handle_registered (guard x)"
  shows "counts_ok c (X(o' \<mapsto> y))"
proof -
  have "registered (X(o' \<mapsto> y)) = registered X" "registered_of (X(o' \<mapsto> y)) t = registered_of X t" for t
    using assms by (auto simp: registered_def registered_of_def)
  then show ?thesis using assms(1) by (simp add: counts_ok_def)
qed

section \<open>Changes by one guard\<close>

definition change_ok :: "world \<Rightarrow> tid \<Rightarrow> transaction \<Rightarrow> transaction \<Rightarrow> connection \<Rightarrow> bool" where
  "change_ok w t g g' c \<longleftrightarrow>
    m_env c = m_env (conn w) \<and> m_transactions c = m_transactions (conn w) \<and>
    tracked c = tracked (if m_handle_registered g = m_handle_registered g' then conn w
      else if m_handle_registered g' then register_txn_handle t (conn w)
      else unregister_txn_handle t (conn w)) \<and>
    m_thread_txns c = (m_thread_txns (conn w))(t := if active g' \<noteq> None then active g'
      else if active g \<noteq> None then None else m_thread_txns (conn w) t) \<and>
    (active g' \<noteq> None \<longrightarrow> active g \<noteq> None \<or> m_thread_txns (conn w) t = None) \<and>
    (\<forall>h. m_txn g' = Some h \<longrightarrow> m_txn g = Some h \<or> h \<notin> live w) \<and>
    (writer g' \<noteq> None \<longrightarrow> writer g = writer g' \<or> no_writer w) \<and>
    (\<forall>h. m_sync_capture_failed_txn c = Some h \<longrightarrow>
       m_sync_capture_failed_txn (conn w) = Some h \<and> (writer g = Some h \<longrightarrow> writer g' = Some h) \<or>
       writer g' = Some h) \<and>
    (\<forall>h. m_sync_capture_failed_txn (conn w) = Some h \<longrightarrow> m_sync_capture_failed_txn c = Some h \<or>
       m_txn g = Some h \<and> m_txn g' = None \<or> writer g \<noteq> None \<and> m_sync_capture_failed_txn c = writer g)"

lemma holds_update [simp]:
  "holds (X(o' \<mapsto> y)) f p h \<longleftrightarrow> (if p = o' then f (guard y) = Some h else holds X f p h)"
  "holds (X(o' := None)) f p h \<longleftrightarrow> p \<noteq> o' \<and> holds X f p h"
  by (auto simp: holds_def)

lemma holdsI: "X o' = Some x \<Longrightarrow> f (guard x) = Some h \<Longrightarrow> holds X f o' h"
  by (auto simp: holds_def)

lemma active_txn: "active g = Some h \<Longrightarrow> m_txn g = Some h"
  by (simp add: active_def split: if_splits)

text \<open>The bindings of threads after a change.\<close>

lemma bindings_change:
  assumes w: "txn_inv w" "objs w o' = Some x" and c: "change_ok w (owner x) (guard x) g' c"
    and y: "owner y = owner x" "guard y = g'"
  shows "m_thread_txns c s = Some h \<longleftrightarrow>
    (\<exists>p z. ((objs w)(o' \<mapsto> y)) p = Some z \<and> owner z = s \<and> active (guard z) = Some h)"
proof -
  have bind: "m_thread_txns (conn w) s = Some h \<longleftrightarrow>
      (\<exists>p z. objs w p = Some z \<and> owner z = s \<and> active (guard z) = Some h)" for s h
    using w(1) unfolding txn_inv_def by blast
  have uniq: "p = o'" if "objs w p = Some z" "m_txn (guard z) = Some k" "m_txn (guard x) = Some k" for p z k
    using w that unfolding txn_inv_def holds_def by blast
  have new: "m_thread_txns c = (m_thread_txns (conn w))(owner x := if active g' \<noteq> None then active g'
      else if active (guard x) \<noteq> None then None else m_thread_txns (conn w) (owner x))"
    and free: "active g' \<noteq> None \<Longrightarrow> active (guard x) \<noteq> None \<or> m_thread_txns (conn w) (owner x) = None"
    using c by (simp_all add: change_ok_def)
  have other: "p = o'" if "objs w p = Some z" "owner z = owner x" "active (guard z) = Some k"
    "active (guard x) \<noteq> None \<or> m_thread_txns (conn w) (owner x) = None" for p z k
  proof -
    from that have b: "m_thread_txns (conn w) (owner x) = Some k" using bind by blast
    with that(4) obtain l where l: "active (guard x) = Some l" by auto
    then have "m_thread_txns (conn w) (owner x) = Some l" using bind w(2) by blast
    with b l have "active (guard x) = Some k" by simp
    with that show ?thesis using uniq active_txn by blast
  qed
  show ?thesis
  proof (cases "s = owner x")
    case False
    have "(\<exists>p z. ((objs w)(o' \<mapsto> y)) p = Some z \<and> owner z = s \<and> active (guard z) = Some h) \<longleftrightarrow>
        (\<exists>p z. objs w p = Some z \<and> owner z = s \<and> active (guard z) = Some h)"
      using False w(2) y(1) by (metis fun_upd_apply option.inject)
    then show ?thesis using False bind [of s h] new by simp
  next
    case True
    consider k where "active g' = Some k" | k where "active g' = None" "active (guard x) = Some k"
      | "active g' = None" "active (guard x) = None" by blast
    then show ?thesis
    proof cases
      case 1
      then show ?thesis using True new free other y by (auto split: if_splits)
    next
      case 2
      then show ?thesis using True new other y by (fastforce split: if_splits)
    next
      case 3
      then have "(\<exists>p z. ((objs w)(o' \<mapsto> y)) p = Some z \<and> owner z = s \<and> active (guard z) = Some h) \<longleftrightarrow>
          (\<exists>p z. objs w p = Some z \<and> owner z = s \<and> active (guard z) = Some h)"
        using w(2) y(2) by (metis fun_upd_apply option.inject option.distinct(1))
      then show ?thesis using 3 True bind [of s h] new by simp
    qed
  qed
qed

lemma counts_change:
  assumes w: "txn_inv w" "objs w o' = Some x" and c: "change_ok w (owner x) (guard x) g' c"
    and y: "owner y = owner x" "guard y = g'"
  shows "counts_ok c ((objs w)(o' \<mapsto> y))"
proof -
  let ?r = "m_handle_registered (guard x)" and ?r' = "m_handle_registered g'"
  have tr: "tracked c = tracked (if ?r = ?r' then conn w else if ?r' then register_txn_handle (owner x) (conn w)
      else unregister_txn_handle (owner x) (conn w))" (is "_ = tracked ?d")
    using c by (simp add: change_ok_def)
  have old: "counts_ok (conn w) (objs w)" "finite (dom (objs w))" using w by (simp_all add: txn_inv_def)
  have "counts_ok ?d ((objs w)(o' \<mapsto> y))"
  proof (cases "?r = ?r'")
    case True
    then show ?thesis using counts_ok_same [OF old(1) w(2)] y by simp
  next
    case False
    then consider "?r'" "\<not> ?r" | "?r" "\<not> ?r'" by blast
    then show ?thesis
    proof cases
      case 1
      then show ?thesis using counts_ok_register [OF old, of o' y] w(2) y by simp
    next
      case 2
      then show ?thesis using counts_ok_unregister [OF old w(2)] y by auto
    qed
  qed
  then show ?thesis using counts_ok_tracked [OF tr] by simp
qed

lemma inv_change:
  assumes w: "txn_inv w" "objs w o' = Some x" and c: "change_ok w (owner x) (guard x) g' c"
    and y: "owner y = owner x" "guard y = g'" "constructing y \<longrightarrow> constructing x"
    and g: "guard_ok c (constructing y) g'"
    and L: "L = live w - set_option (m_txn (guard x)) \<union> set_option (m_txn g')"
  shows "txn_inv (w\<lparr>conn := c, objs := (objs w)(o' \<mapsto> y), live := L\<rparr>)"
proof -
  have c': "m_env c = m_env (conn w)" "m_transactions c = m_transactions (conn w)"
      "m_txn g' = Some h \<Longrightarrow> m_txn (guard x) = Some h \<or> h \<notin> live w"
      "writer g' \<noteq> None \<Longrightarrow> writer (guard x) = writer g' \<or> no_writer w"
      "m_sync_capture_failed_txn c = Some h \<Longrightarrow> m_sync_capture_failed_txn (conn w) = Some h \<and>
         (writer (guard x) = Some h \<longrightarrow> writer g' = Some h) \<or> writer g' = Some h" for h
    using c unfolding change_ok_def by blast+
  have w': "finite (dom (objs w))"
      "objs w p = Some z \<Longrightarrow> guard_ok (conn w) (constructing z) (guard z)"
      "holds (objs w) m_txn p h \<Longrightarrow> holds (objs w) m_txn q h \<Longrightarrow> p = q"
      "live w = {h. \<exists>p. holds (objs w) m_txn p h}"
      "holds (objs w) writer p h \<Longrightarrow> holds (objs w) writer q k \<Longrightarrow> p = q"
      "m_sync_capture_failed_txn (conn w) = Some h \<Longrightarrow> \<exists>p. holds (objs w) writer p h"
      "m_transactions (conn w) t = Some p \<Longrightarrow> \<exists>z. objs w p = Some z \<and> owner z = t \<and> \<not> constructing z"
      for p q h k z t
    using w(1) unfolding txn_inv_def by blast+
  have x: "holds (objs w) f o' h \<longleftrightarrow> f (guard x) = Some h" for f h
    using w(2) by (simp add: holds_def)
  have nw: "no_writer w \<Longrightarrow> \<not> holds (objs w) writer p h" for p h
    by (auto simp: no_writer_def holds_def writer_def split: if_splits)
  have ok: "guard_ok c (constructing z) (guard z)" if "((objs w)(o' \<mapsto> y)) p = Some z" for p z
    using that g y(2) w'(2) c'(1) by (auto simp: guard_ok_def split: if_splits)
  have uniq: "p = q" if "holds ((objs w)(o' \<mapsto> y)) m_txn p h" "holds ((objs w)(o' \<mapsto> y)) m_txn q h" for p q h
  proof -
    have "\<not> holds (objs w) m_txn r h" if "m_txn g' = Some h" "r \<noteq> o'" for r
      using c'(3) [OF that(1)] w'(3) [of r h o'] w'(4) x that(2) by blast
    then show ?thesis using that w'(3) y(2) by (auto split: if_splits)
  qed
  have lv: "L = {h. \<exists>p. holds ((objs w)(o' \<mapsto> y)) m_txn p h}"
    unfolding L using w'(3) w'(4) x y(2) by (auto split: if_splits) metis
  have wr: "p = q" if "holds ((objs w)(o' \<mapsto> y)) writer p h" "holds ((objs w)(o' \<mapsto> y)) writer q k" for p q h k
  proof -
    have "\<not> holds (objs w) writer r l" if "writer g' = Some m" "r \<noteq> o'" for r l m
      using c'(4) nw w'(5) [of r l o' m] x that by (metis option.distinct(1))
    moreover have "holds (objs w) writer p h" if "p \<noteq> o'" using that \<open>holds ((objs w)(o' \<mapsto> y)) writer p h\<close> by simp
    moreover have "holds (objs w) writer q k" if "q \<noteq> o'" using that \<open>holds ((objs w)(o' \<mapsto> y)) writer q k\<close> by simp
    moreover have "writer g' = Some h" if "p = o'" using that \<open>holds ((objs w)(o' \<mapsto> y)) writer p h\<close> y(2) by simp
    moreover have "writer g' = Some k" if "q = o'" using that \<open>holds ((objs w)(o' \<mapsto> y)) writer q k\<close> y(2) by simp
    ultimately show ?thesis using w'(5) [of p h q k] by (cases "p = o'"; cases "q = o'") blast+
  qed
  have fl: "\<exists>p. holds ((objs w)(o' \<mapsto> y)) writer p h" if "m_sync_capture_failed_txn c = Some h" for h
    using c'(5) [OF that] w'(6) [of h] x y(2) by (metis holds_update(1))
  have mt: "\<exists>z. ((objs w)(o' \<mapsto> y)) p = Some z \<and> owner z = t \<and> \<not> constructing z"
    if "m_transactions c t = Some p" for t p
    using w'(7) [of t p] that c'(2) w(2) y by auto
  show ?thesis
    by (rule invI [where c = c and X = "(objs w)(o' \<mapsto> y)" and L = L])
       (simp, simp, simp, simp add: w'(1), fact counts_change [OF w c y(1,2)], fact ok, fact uniq, fact lv,
        fact bindings_change [OF w c y(1,2)], fact wr, fact fl, fact mt)
qed

lemma inv_remove:
  assumes "txn_inv w" "objs w o' = Some x" "m_txn (guard x) = None" "\<not> m_handle_registered (guard x)"
    "o' \<notin> ran (m_transactions (conn w))"
  shows "txn_inv (w\<lparr>objs := (objs w)(o' := None)\<rparr>)"
proof -
  have no: "holds (objs w) f p h \<Longrightarrow> p \<noteq> o'" if "f = m_txn \<or> f = writer \<or> f = active" for f p h
    using assms(2,3) that by (auto simp: holds_def writer_def active_def split: if_splits)
  have "registered ((objs w)(o' := None)) = registered (objs w)"
    "registered_of ((objs w)(o' := None)) t = registered_of (objs w) t" for t
    using assms(2,4) by (auto simp: registered_def registered_of_def split: if_splits)
  then have cnt: "counts_ok (conn w) ((objs w)(o' := None))"
    using assms(1) by (simp add: txn_inv_def counts_ok_def)
  have bnd: "m_thread_txns (conn w) t = Some h \<longleftrightarrow>
    (\<exists>p z. ((objs w)(o' := None)) p = Some z \<and> owner z = t \<and> active (guard z) = Some h)" for t h
  proof -
    have "(\<exists>p z. ((objs w)(o' := None)) p = Some z \<and> owner z = t \<and> active (guard z) = Some h) \<longleftrightarrow>
        (\<exists>p z. objs w p = Some z \<and> owner z = t \<and> active (guard z) = Some h)"
      using assms(2,3) active_txn by (metis fun_upd_apply option.inject option.distinct(1))
    then show ?thesis using assms(1) by (simp add: txn_inv_def)
  qed
  have mt: "\<exists>z. ((objs w)(o' := None)) p = Some z \<and> owner z = t \<and> \<not> constructing z"
    if "m_transactions (conn w) t = Some p" for t p
  proof -
    have "p \<noteq> o'" using that assms(5) by (auto simp: ran_def)
    then show ?thesis using that assms(1) by (simp add: txn_inv_def)
  qed
  have hd: "holds ((objs w)(o' := None)) f p h \<longleftrightarrow> holds (objs w) f p h" if "f = m_txn \<or> f = writer" for f p h
    using no that by auto
  have ok: "guard_ok (conn w) (constructing z) (guard z)" if "((objs w)(o' := None)) p = Some z" for p z
    using that assms(1) by (simp add: txn_inv_def split: if_splits)
  show ?thesis using assms(1) cnt bnd mt ok unfolding txn_inv_def
    by (simp add: hd del: holds_update)
qed

end
