(* ===== verification/Txn_Steps.thy ===== *)
theory Txn_Steps
  imports Txn_Invariant
begin

text \<open>Every step of a program with several threads keeps the invariant of the transaction lifecycle.\<close>

section \<open>The methods of a guard\<close>

lemma inv_guard_ok: "txn_inv w \<Longrightarrow> objs w o' = Some x \<Longrightarrow> guard_ok (conn w) (constructing x) (guard x)"
  unfolding txn_inv_def by blast

lemma inv_manual:
  assumes "txn_inv w" "m_transactions (conn w) t = Some p"
  obtains z where "objs w p = Some z" "owner z = t" "\<not> constructing z"
  using assms unfolding txn_inv_def by blast

lemma inv_parts:
  assumes "txn_inv w"
  shows "finite (dom (objs w))" "counts_ok (conn w) (objs w)" "live w = {h. \<exists>p. holds (objs w) m_txn p h}"
    "holds (objs w) m_txn p h \<Longrightarrow> holds (objs w) m_txn q h \<Longrightarrow> p = q"
    "holds (objs w) writer p h \<Longrightarrow> holds (objs w) writer q k \<Longrightarrow> p = q"
    "m_sync_capture_failed_txn (conn w) = Some h \<Longrightarrow> \<exists>p. holds (objs w) writer p h"
    "m_thread_txns (conn w) t = Some h \<longleftrightarrow>
       (\<exists>p z. objs w p = Some z \<and> owner z = t \<and> active (guard z) = Some h)"
  using assms unfolding txn_inv_def by blast+

lemma guard_ok_env: "m_env c = m_env c' \<Longrightarrow> guard_ok c b g \<longleftrightarrow> guard_ok c' b g"
  by (simp add: guard_ok_def)

lemma inv_bound:
  "txn_inv w \<Longrightarrow> objs w o' = Some x \<Longrightarrow> active (guard x) = Some h \<Longrightarrow> m_thread_txns (conn w) (owner x) = Some h"
  unfolding txn_inv_def by blast

lemma thread_idle_unbound: "txn_inv w \<Longrightarrow> thread_idle w t \<Longrightarrow> m_thread_txns (conn w) t = None"
  unfolding txn_inv_def thread_idle_def active_def by (metis not_None_eq)

lemmas tracker_defs = bind_txn_def unbind_txn_def register_txn_handle_def unregister_txn_handle_def
  safe_unbind_txn_def safe_unregister_txn_handle_def on_discard_def clear_sync_capture_failed_def
  mark_sync_capture_failed_def tracked_def

lemma unregister_keeps [simp]:
  "m_env (unregister_txn_handle t c) = m_env c" "m_transactions (unregister_txn_handle t c) = m_transactions c"
  "m_thread_txns (unregister_txn_handle t c) = m_thread_txns c"
  "m_sync_capture_failed_txn (unregister_txn_handle t c) = m_sync_capture_failed_txn c"
  by (simp_all add: unregister_txn_handle_def Let_def split: option.splits)

lemma register_keeps [simp]:
  "m_env (register_txn_handle t c) = m_env c" "m_transactions (register_txn_handle t c) = m_transactions c"
  "m_thread_txns (register_txn_handle t c) = m_thread_txns c"
  "m_sync_capture_failed_txn (register_txn_handle t c) = m_sync_capture_failed_txn c"
  by (simp_all add: register_txn_handle_def Let_def)

lemma bind_keeps [simp]:
  "m_env (bind_txn t h c) = m_env c" "m_transactions (bind_txn t h c) = m_transactions c"
  "m_thread_txns (bind_txn t h c) = (m_thread_txns c)(t \<mapsto> h)"
  "m_sync_capture_failed_txn (bind_txn t h c) = m_sync_capture_failed_txn c"
  "tracked (bind_txn t h c) = tracked c" "tracked (unregister_txn_handle s (bind_txn t h c)) = tracked (unregister_txn_handle s c)"
  by (simp_all add: bind_txn_def tracked_def unregister_txn_handle_def Let_def split: option.splits)

lemma unbind_keeps [simp]:
  "m_env (unbind_txn t h c) = m_env c" "m_transactions (unbind_txn t h c) = m_transactions c"
  "m_thread_txns (unbind_txn t h c) =
     (if m_thread_txns c t = Some h then (m_thread_txns c)(t := None) else m_thread_txns c)"
  "m_sync_capture_failed_txn (unbind_txn t h c) = m_sync_capture_failed_txn c"
  "tracked (unbind_txn t h c) = tracked c" "tracked (unregister_txn_handle s (unbind_txn t h c)) = tracked (unregister_txn_handle s c)"
  by (simp_all add: unbind_txn_def tracked_def unregister_txn_handle_def Let_def split: option.splits)

lemma discard_keeps [simp]:
  "m_env (on_discard h c) = m_env c" "m_transactions (on_discard h c) = m_transactions c"
  "m_thread_txns (on_discard h c) = m_thread_txns c"
  "m_sync_capture_failed_txn (on_discard h c) =
     (if m_sync_capture_failed_txn c = Some h then None else m_sync_capture_failed_txn c)"
  "tracked (on_discard h c) = tracked c" "tracked (unregister_txn_handle s (on_discard h c)) = tracked (unregister_txn_handle s c)"
  by (simp_all add: on_discard_def clear_sync_capture_failed_def Let_def tracked_def unregister_txn_handle_def
      split: option.splits)

lemma mark_keeps [simp]:
  "m_env (mark_sync_capture_failed (Some h) c) = m_env c"
  "m_transactions (mark_sync_capture_failed (Some h) c) = m_transactions c"
  "m_thread_txns (mark_sync_capture_failed (Some h) c) = m_thread_txns c"
  "m_sync_capture_failed_txn (mark_sync_capture_failed (Some h) c) = Some h"
  "tracked (mark_sync_capture_failed (Some h) c) = tracked c"
  by (simp_all add: mark_sync_capture_failed_def tracked_def)

lemma upd_same_iff [simp]: "f = f(t := y) \<longleftrightarrow> f t = y" "f(t := y) = f \<longleftrightarrow> f t = y"
  by (metis fun_upd_triv fun_upd_same)+

lemma txn_begin_cases:
  assumes "txn_begin t N (g, c) = (r, g', c')"
  obtains (started) "m_started g" "r = Inr ()" "g' = g" "c' = c"
  | (renew_fails) h e where "\<not> m_started g" "m_txn g = Some h" "m_mode g = READ_ONLY" "r = Inl e" "g' = g" "c' = c"
  | (renewed) h where "\<not> m_started g" "m_txn g = Some h" "m_mode g = READ_ONLY" "n_renew N = MDBX_SUCCESS" "r = Inr ()"
      "g' = g\<lparr>m_started := True\<rparr>" "c' = bind_txn t h c"
  | (fails_reserved) e where "\<not> m_started g" "m_handle_registered g" "m_txn g = None" "r = Inl e"
      "g' = g\<lparr>m_txn := None, m_handle_registered := False\<rparr>" "c' = unregister_txn_handle t c"
  | (fails) e where "\<not> m_started g" "m_txn g = None \<or> m_mode g = WRITABLE" "m_handle_registered g \<Longrightarrow> m_txn g \<noteq> None"
      "r = Inl e" "g' = g\<lparr>m_txn := None\<rparr>" "c' = c"
  | (opened) h where "\<not> m_started g" "m_txn g = None \<or> m_mode g = WRITABLE" "n_begin N = (MDBX_SUCCESS, h)"
      "r = Inr ()" "g' = g\<lparr>m_txn := Some h, m_handle_registered := True, m_started := True\<rparr>"
      "c' = bind_txn t h (if \<not> m_handle_registered g then register_txn_handle t c else c)"
proof (cases "m_started g")
  case True
  with assms show thesis by (intro started) (simp_all add: txn_begin_def)
next
  case idle: False
  show thesis
  proof (cases "m_txn g \<noteq> None \<and> m_mode g = READ_ONLY")
    case True
    then obtain h where h: "m_txn g = Some h" "m_mode g = READ_ONLY" by blast
    show thesis
    proof (cases "n_renew N = MDBX_SUCCESS")
      case True
      with idle h assms show thesis by (intro renewed [of h]) (simp_all add: txn_begin_def)
    next
      case False
      with idle h assms show thesis by (intro renew_fails [of h]) (auto simp: txn_begin_def)
    qed
  next
    case new: False
    then have no: "m_txn g = None \<or> m_mode g = WRITABLE" by (cases "m_mode g") auto
    obtain rc h where nb: "n_begin N = (rc, h)" by (cases "n_begin N")
    consider "rc = MDBX_SUCCESS" | "rc \<noteq> MDBX_SUCCESS" "m_handle_registered g \<and> m_txn g = None"
      | "rc \<noteq> MDBX_SUCCESS" "\<not> (m_handle_registered g \<and> m_txn g = None)" by blast
    then show thesis
    proof cases
      case 1
      with idle new no nb assms show thesis by (intro opened [of h]) (auto simp: txn_begin_def Let_def)
    next
      case 2
      with idle new nb assms show thesis by (intro fails_reserved) (auto simp: txn_begin_def Let_def)
    next
      case 3
      with idle new no nb assms show thesis by (intro fails) (auto simp: txn_begin_def Let_def)
    qed
  qed
qed

lemma begin_change:
  assumes w: "txn_inv w" "objs w o' = Some x" and n: "begin_contract w x N"
    and r: "txn_begin (owner x) N (guard x, conn w) = (r, g', c)"
  shows "change_ok w (owner x) (guard x) g' c" "guard_ok c False g'"
    "r = Inl e \<Longrightarrow> m_txn g' = m_txn (guard x) \<and> (constructing x \<longrightarrow> \<not> m_handle_registered g')"
proof -
  note ok = inv_guard_ok [OF w] and idle = thread_idle_unbound [OF w(1), of "owner x"]
  have bound: "m_started (guard x) \<Longrightarrow> m_thread_txns (conn w) (owner x) = m_txn (guard x)"
    using inv_bound [OF w] ok by (auto simp: active_def guard_ok_def)
  from r have "change_ok w (owner x) (guard x) g' c \<and> guard_ok c False g' \<and>
    (r = Inl e \<longrightarrow> m_txn g' = m_txn (guard x) \<and> (constructing x \<longrightarrow> \<not> m_handle_registered g'))"
  proof (cases rule: txn_begin_cases)
    case started
    then show ?thesis using ok bound by (auto simp: change_ok_def guard_ok_def active_def writer_def)
  next
    case renew_fails
    then show ?thesis using ok by (auto simp: change_ok_def guard_ok_def active_def writer_def)
  next
    case renewed
    then show ?thesis using ok idle n
      by (auto simp: change_ok_def guard_ok_def active_def writer_def begin_contract_def)
  next
    case fails_reserved
    then show ?thesis using ok by (auto simp: change_ok_def guard_ok_def active_def writer_def)
  next
    case fails
    then show ?thesis using ok by (auto simp: change_ok_def guard_ok_def active_def writer_def)
  next
    case (opened h)
    have no: "m_txn (guard x) = None" using opened ok by (auto simp: guard_ok_def)
    have free: "h \<notin> live w" "m_thread_txns (conn w) (owner x) = None" "m_env_of (guard x) \<noteq> None"
        "m_env_of (guard x) = m_env (conn w)" "m_env (conn w) \<noteq> None" "m_mode (guard x) = WRITABLE \<Longrightarrow> no_writer w"
      using opened(3) n idle by (auto simp: begin_contract_def)
    have reg: "m_registry (guard x)" using ok free(3) by (simp add: guard_ok_def)
    show ?thesis using opened(1) no free reg
      by (cases "m_handle_registered (guard x)")
         (simp_all add: opened change_ok_def guard_ok_def active_def writer_def)
  qed
  then show "change_ok w (owner x) (guard x) g' c" "guard_ok c False g'"
    "r = Inl e \<Longrightarrow> m_txn g' = m_txn (guard x) \<and> (constructing x \<longrightarrow> \<not> m_handle_registered g')" by simp_all
qed

text \<open>The other methods fall back on four changes of the guard.\<close>

lemma change_none:
  assumes "txn_inv w" "objs w o' = Some x" "\<not> constructing x"
    and "c = conn w \<or> writer (guard x) = Some h \<and> c = mark_sync_capture_failed (Some h) (conn w)"
  shows "change_ok w (owner x) (guard x) (guard x) c" "guard_ok c False (guard x)"
proof -
  note ok = inv_guard_ok [OF assms(1,2)]
  have b: "active (guard x) = Some k \<Longrightarrow> m_thread_txns (conn w) (owner x) = Some k" for k
    by (rule inv_bound [OF assms(1,2)])
  from assms(4) show "change_ok w (owner x) (guard x) (guard x) c"
    using b by (cases "active (guard x)") (auto simp: change_ok_def)
  from assms(3,4) show "guard_ok c False (guard x)" using ok by (auto simp: guard_ok_def)
qed

lemma change_reset:
  assumes "txn_inv w" "objs w o' = Some x" "\<not> constructing x"
    and "m_started (guard x)" "m_txn (guard x) = Some h" "m_mode (guard x) = READ_ONLY"
    and "g' = (guard x)\<lparr>m_started := False\<rparr>" "c = unbind_txn (owner x) h (conn w)"
  shows "change_ok w (owner x) (guard x) g' c" "guard_ok c False g'"
proof -
  note ok = inv_guard_ok [OF assms(1,2)]
  have b: "m_thread_txns (conn w) (owner x) = Some h"
    by (rule inv_bound [OF assms(1,2)]) (simp add: active_def assms)
  show "change_ok w (owner x) (guard x) g' c" using assms(4-6) b
    by (simp add: assms(7,8) change_ok_def active_def writer_def)
  show "guard_ok c False g'" using ok assms(3-6) by (simp add: assms(7,8) guard_ok_def)
qed

lemma change_close:
  assumes "txn_inv w" "objs w o' = Some x" "\<not> constructing x"
    and "m_started (guard x)" "m_txn (guard x) = Some h"
    and "m_txn g' = None" "\<not> m_started g'" "\<not> m_handle_registered g'" "m_env_of g' \<noteq> None \<longrightarrow> m_registry g'"
    and "c = unregister_txn_handle (owner x) (unbind_txn (owner x) h d)"
    and "d = on_discard h (conn w) \<or> 
      d = conn w \<and> (m_sync_capture_failed_txn (conn w) \<noteq> Some h \<or> m_mode (guard x) = READ_ONLY)"
  shows "change_ok w (owner x) (guard x) g' c" "guard_ok c False g'"
proof -
  note ok = inv_guard_ok [OF assms(1,2)]
  have b: "m_thread_txns (conn w) (owner x) = Some h"
    by (rule inv_bound [OF assms(1,2)]) (simp add: active_def assms)
  have r: "m_handle_registered (guard x)" using ok assms(5) by (simp add: guard_ok_def)
  show "change_ok w (owner x) (guard x) g' c" using assms(4-9,11) b r
    by (auto simp: assms(10) change_ok_def active_def writer_def split: if_splits)
  show "guard_ok c False g'" using assms(6-9,11) by (auto simp: assms(10) guard_ok_def)
qed

lemma change_drop:
  assumes "txn_inv w" "objs w o' = Some x" "\<not> constructing x"
    and "\<not> m_started (guard x)"
    and "m_txn g' = None" "\<not> m_started g'" "\<not> m_handle_registered g'" "m_env_of g' = None"
    and "c = (if m_handle_registered (guard x) then unregister_txn_handle (owner x) (conn w) else conn w)"
  shows "change_ok w (owner x) (guard x) g' c" "guard_ok c False g'"
proof -
  note ok = inv_guard_ok [OF assms(1,2)]
  have wr: "writer (guard x) = None" using ok assms(4) by (auto simp: writer_def guard_ok_def)
  show "change_ok w (owner x) (guard x) g' c" using assms(4-8) wr
    by (auto simp: assms(9) change_ok_def active_def writer_def split: if_splits)
  show "guard_ok c False g'" using assms(5-8) by (auto simp: assms(9) guard_ok_def)
qed

subsection \<open>Commit, rollback and release\<close>

lemma txn_commit_change:
  assumes w: "txn_inv w" "objs w o' = Some x" "\<not> constructing x"
    and r: "txn_commit (owner x) N (guard x, conn w) = (r, g', c)"
  shows "change_ok w (owner x) (guard x) g' c \<and> guard_ok c False g'"
proof (cases "m_txn (guard x) = None \<or> \<not> m_started (guard x)")
  case True
  then have "g' = guard x" "c = conn w" using r by (auto simp: txn_commit_def split: option.splits)
  then show ?thesis using change_none [OF w] by simp
next
  case False
  then obtain h where h: "m_started (guard x)" "m_txn (guard x) = Some h" by auto
  note ok = inv_guard_ok [OF w(1,2)]
  have reg: "m_registry (guard x)" using ok h by (auto simp: guard_ok_def)
  show ?thesis
  proof (cases "m_mode (guard x)")
    case READ_ONLY
    show ?thesis
    proof (cases "n_reset N = MDBX_SUCCESS")
      case True
      then have "g' = (guard x)\<lparr>m_started := False\<rparr>" "c = unbind_txn (owner x) h (conn w)"
        using r h READ_ONLY reg by (auto simp: txn_commit_def safe_unbind_txn_def)
      then show ?thesis using change_reset [OF w h READ_ONLY] by simp
    next
      case False
      then have "g' = guard x" "c = conn w" using r h READ_ONLY by (auto simp: txn_commit_def)
      then show ?thesis using change_none [OF w] by simp
    qed
  next
    case WRITABLE
    have wr: "writer (guard x) = Some h" using WRITABLE h by (simp add: writer_def)
    obtain q c1 where q: "on_pre_commit N h (conn w) = (q, c1)" by fastforce
    show ?thesis
    proof (cases q)
      case (Inl e)
      then have "g' = guard x" "c = c1" using r h WRITABLE q by (auto simp: txn_commit_def)
      moreover have "c1 = conn w \<or> c1 = mark_sync_capture_failed (Some h) (conn w)"
        using q by (auto simp: on_pre_commit_def split: if_splits sum.splits)
      ultimately show ?thesis using change_none [OF w, of c h] wr by blast
    next
      case (Inr u)
      then have c1: "c1 = conn w" "m_sync_capture_failed_txn (conn w) \<noteq> Some h"
        using q by (auto simp: on_pre_commit_def sync_capture_failed_def split: if_splits sum.splits)
      show ?thesis
      proof (cases "n_commit N = MDBX_THREAD_MISMATCH")
        case True
        then have "g' = guard x" "c = conn w" using r h WRITABLE q c1 Inr by (auto simp: txn_commit_def)
        then show ?thesis using change_none [OF w] by simp
      next
        case False
        define d where "d = (if n_commit N \<noteq> MDBX_SUCCESS then on_discard h (conn w) else conn w)"
        have "g' = (guard x)\<lparr>m_txn := None, m_started := False, m_handle_registered := False\<rparr>"
          "c = unregister_txn_handle (owner x) (unbind_txn (owner x) h d)"
          using r h WRITABLE q c1 Inr False reg
          by (auto simp: txn_commit_def safe_unbind_txn_def safe_unregister_txn_handle_def d_def Let_def)
        then show ?thesis using change_close [OF w h, of g' c d] c1 reg by (simp add: d_def)
      qed
    qed
  qed
qed

lemma txn_rollback_change:
  assumes w: "txn_inv w" "objs w o' = Some x" "\<not> constructing x" and n: "n_abort N = MDBX_SUCCESS"
    and r: "txn_rollback (owner x) N (guard x, conn w) = (r, g', c)"
  shows "change_ok w (owner x) (guard x) g' c \<and> guard_ok c False g'"
proof (cases "m_txn (guard x) = None \<or> \<not> m_started (guard x)")
  case True
  then have "g' = guard x" "c = conn w" using r by (auto simp: txn_rollback_def split: option.splits)
  then show ?thesis using change_none [OF w] by simp
next
  case False
  then obtain h where h: "m_started (guard x)" "m_txn (guard x) = Some h" by auto
  note ok = inv_guard_ok [OF w(1,2)]
  have reg: "m_registry (guard x)" using ok h by (auto simp: guard_ok_def)
  show ?thesis
  proof (cases "m_mode (guard x)")
    case READ_ONLY
    show ?thesis
    proof (cases "n_reset N = MDBX_SUCCESS")
      case True
      then have "g' = (guard x)\<lparr>m_started := False\<rparr>" "c = unbind_txn (owner x) h (conn w)"
        using r h READ_ONLY reg by (auto simp: txn_rollback_def safe_unbind_txn_def)
      then show ?thesis using change_reset [OF w h READ_ONLY] by simp
    next
      case False
      then have "g' = guard x" "c = conn w" using r h READ_ONLY by (auto simp: txn_rollback_def)
      then show ?thesis using change_none [OF w] by simp
    qed
  next
    case WRITABLE
    have "g' = (guard x)\<lparr>m_txn := None, m_started := False, m_handle_registered := False\<rparr>"
      "c = unregister_txn_handle (owner x) (unbind_txn (owner x) h (on_discard h (conn w)))"
      using r h WRITABLE n reg
      by (auto simp: txn_rollback_def safe_unbind_txn_def safe_unregister_txn_handle_def Let_def)
    then show ?thesis using change_close [OF w h, of g' c "on_discard h (conn w)"] reg by simp
  qed
qed

lemma release_change:
  assumes w: "txn_inv w" "objs w o' = Some x" "\<not> constructing x"
    and r: "release (owner x) (guard x, conn w) = (g', c)"
  shows "change_ok w (owner x) (guard x) g' c \<and> guard_ok c False g'"
    and "m_txn g' = None \<and> \<not> m_handle_registered g' \<and> \<not> m_started g'"
proof -
  note ok = inv_guard_ok [OF w(1,2)]
  have g': "g' = (guard x)\<lparr>m_registry := False, m_env_of := None, m_txn := None, m_started := False,
      m_handle_registered := False\<rparr>"
    using r by (simp add: release_def Let_def)
  then show "m_txn g' = None \<and> \<not> m_handle_registered g' \<and> \<not> m_started g'" by simp
  show "change_ok w (owner x) (guard x) g' c \<and> guard_ok c False g'"
  proof (cases "m_started (guard x)")
    case True
    then obtain h where h: "m_txn (guard x) = Some h" using ok by (auto simp: guard_ok_def)
    then have reg: "m_registry (guard x)" "m_handle_registered (guard x)" using ok by (auto simp: guard_ok_def)
    define d where "d = (if m_mode (guard x) = WRITABLE then on_discard h (conn w) else conn w)"
    have "c = unregister_txn_handle (owner x) (unbind_txn (owner x) h d)"
      using r True h reg by (simp add: release_def Let_def safe_unbind_txn_def safe_unregister_txn_handle_def d_def)
    moreover have "m_mode (guard x) \<noteq> WRITABLE \<Longrightarrow> m_mode (guard x) = READ_ONLY" by (cases "m_mode (guard x)") auto
    ultimately show ?thesis using change_close [OF w True h, of g' c d] g' by (auto simp: d_def)
  next
    case False
    have reg: "m_registry (guard x)" if "m_handle_registered (guard x)" using ok that by (auto simp: guard_ok_def)
    have "c = (if m_handle_registered (guard x) then unregister_txn_handle (owner x) (conn w) else conn w)"
      using r False reg by (auto simp: release_def Let_def safe_unregister_txn_handle_def split: option.splits)
    then show ?thesis using change_drop [OF w False, of g' c] g' by simp
  qed
qed

section \<open>The steps\<close>

lemma inv_cong: "txn_inv w \<Longrightarrow> conn v = conn w \<Longrightarrow> objs v = objs w \<Longrightarrow> live v = live w \<Longrightarrow> txn_inv v"
  unfolding txn_inv_def by simp

lemma run_guard_eq:
  assumes "objs w o' = Some x" "m (guard x, conn w) = (r, g', c)"
  shows "run_guard o' m w = (r, w\<lparr>conn := c, objs := (objs w)(o' \<mapsto> x\<lparr>guard := g'\<rparr>),
     live := live w - set_option (m_txn (guard x)) \<union> set_option (m_txn g')\<rparr>)"
  using assms by (simp add: run_guard_def)

lemma inv_run_guard:
  assumes w: "txn_inv w" "objs w o' = Some x" "\<not> constructing x"
    and ch: "\<And>r g' c. m (guard x, conn w) = (r, g', c) \<Longrightarrow>
      change_ok w (owner x) (guard x) g' c \<and> guard_ok c False g'"
    and r: "run_guard o' m w = (r, w')"
  shows "txn_inv w'"
proof -
  obtain q g' c where m: "m (guard x, conn w) = (q, g', c)" by (metis prod.exhaust)
  have "w' = w\<lparr>conn := c, objs := (objs w)(o' \<mapsto> x\<lparr>guard := g'\<rparr>),
      live := live w - set_option (m_txn (guard x)) \<union> set_option (m_txn g')\<rparr>"
    using r run_guard_eq [where m = m, OF w(2) m] by simp
  then show ?thesis using inv_change [OF w(1,2), of g' c "x\<lparr>guard := g'\<rparr>"] ch [OF m] w(3) by simp
qed

lemma inv_construct:
  assumes w: "txn_inv w" "objs w o' = Some x" "constructing x" "begin_contract w x N"
    and r: "run_guard o' (txn_begin (owner x) N) w = (Inr (), w')"
  shows "txn_inv (w'\<lparr>objs := (objs w')(o' \<mapsto> (the (objs w' o'))\<lparr>constructing := False\<rparr>)\<rparr>)"
proof -
  obtain q g' c where m: "txn_begin (owner x) N (guard x, conn w) = (q, g', c)" by (metis prod.exhaust)
  have w': "w' = w\<lparr>conn := c, objs := (objs w)(o' \<mapsto> x\<lparr>guard := g'\<rparr>),
      live := live w - set_option (m_txn (guard x)) \<union> set_option (m_txn g')\<rparr>"
    using r run_guard_eq [where m = "txn_begin (owner x) N", OF w(2) m] by simp
  have "txn_inv (w\<lparr>conn := c, objs := (objs w)(o' \<mapsto> x\<lparr>guard := g', constructing := False\<rparr>),
      live := live w - set_option (m_txn (guard x)) \<union> set_option (m_txn g')\<rparr>)"
    by (rule inv_change [OF w(1,2) begin_change(1) [OF w(1,2,4) m]])
       (use begin_change(2) [OF w(1,2,4) m] in simp_all)
  then show ?thesis by (rule inv_cong) (simp_all add: w')
qed

lemma constructing_unreferenced:
  "txn_inv w \<Longrightarrow> objs w o' = Some x \<Longrightarrow> constructing x \<Longrightarrow> o' \<notin> ran (m_transactions (conn w))"
  unfolding txn_inv_def ran_def by fastforce

lemma inv_construct_fails:
  assumes w: "txn_inv w" "objs w o' = Some x" "constructing x" "begin_contract w x N"
    and r: "run_guard o' (txn_begin (owner x) N) w = (Inl e, w')"
  shows "txn_inv (w'\<lparr>objs := (objs w')(o' := None)\<rparr>)"
proof -
  obtain q g' c where m: "txn_begin (owner x) N (guard x, conn w) = (q, g', c)" by (metis prod.exhaust)
  have w': "q = Inl e" "w' = w\<lparr>conn := c, objs := (objs w)(o' \<mapsto> x\<lparr>guard := g'\<rparr>),
      live := live w - set_option (m_txn (guard x)) \<union> set_option (m_txn g')\<rparr>"
    using r run_guard_eq [where m = "txn_begin (owner x) N", OF w(2) m] by simp_all
  note ok = inv_guard_ok [OF w(1,2)]
  note b = begin_change [OF w(1,2,4) m]
  have g': "m_txn g' = None" "\<not> m_handle_registered g'"
    using b(3) [OF w'(1)] w(3) ok by (auto simp: guard_ok_def)
  let ?v = "w\<lparr>conn := c, objs := (objs w)(o' \<mapsto> x\<lparr>guard := g', constructing := False\<rparr>),
      live := live w - set_option (m_txn (guard x)) \<union> set_option (m_txn g')\<rparr>"
  have "txn_inv ?v" by (rule inv_change [OF w(1,2) b(1)]) (use b(2) in simp_all)
  moreover have "o' \<notin> ran (m_transactions c)"
    using constructing_unreferenced [OF w(1-3)] b(1) by (simp add: change_ok_def)
  ultimately have "txn_inv (?v\<lparr>objs := (objs ?v)(o' := None)\<rparr>)"
    by (intro inv_remove [where x = "x\<lparr>guard := g', constructing := False\<rparr>"]) (simp_all add: g')
  then show ?thesis by (rule inv_cong) (simp_all add: w')
qed

text \<open>A new guard with its slot reserved.\<close>

lemma inv_reserve:
  assumes w: "txn_inv w" "objs w o' = None" "m_env (conn w) \<noteq> None"
    and y: "owner y = t" "constructing y" "guard y = reserved_guard (m_env (conn w)) mode"
  shows "txn_inv (w\<lparr>conn := register_txn_handle t (conn w), objs := (objs w)(o' \<mapsto> y)\<rparr>)"
proof -
  have g: "m_txn (guard y) = None" "active (guard y) = None" "writer (guard y) = None" "m_handle_registered (guard y)"
      "guard_ok (register_txn_handle t (conn w)) True (guard y)"
    using w(3) by (simp_all add: y reserved_guard_def active_def writer_def guard_ok_def)
  have no: "\<not> holds (objs w) f o' h" for f h using w(2) by (simp add: holds_def)
  have hd: "holds ((objs w)(o' \<mapsto> y)) f p h \<longleftrightarrow> holds (objs w) f p h" if "f (guard y) = None" for f p h
    using that no by simp
  have cnt: "counts_ok (register_txn_handle t (conn w)) ((objs w)(o' \<mapsto> y))"
    using counts_ok_register [where c = "conn w" and X = "objs w" and o' = o' and x = y] w g y
    by (simp add: txn_inv_def)
  have bnd: "m_thread_txns (register_txn_handle t (conn w)) s = Some h \<longleftrightarrow>
    (\<exists>p z. ((objs w)(o' \<mapsto> y)) p = Some z \<and> owner z = s \<and> active (guard z) = Some h)" for s h
  proof -
    have "(\<exists>p z. ((objs w)(o' \<mapsto> y)) p = Some z \<and> owner z = s \<and> active (guard z) = Some h) \<longleftrightarrow>
        (\<exists>p z. objs w p = Some z \<and> owner z = s \<and> active (guard z) = Some h)"
      using w(2) g(2) by (metis fun_upd_apply option.inject option.distinct(1))
    then show ?thesis using w(1) by (simp add: txn_inv_def)
  qed
  have ok: "guard_ok (register_txn_handle t (conn w)) (constructing z) (guard z)"
    if "((objs w)(o' \<mapsto> y)) p = Some z" for p z
    using that g(5) y(2) inv_guard_ok [OF w(1), of p z] guard_ok_env [of "register_txn_handle t (conn w)" "conn w"]
    by (cases "p = o'") simp_all
  have mt: "\<exists>z. ((objs w)(o' \<mapsto> y)) p = Some z \<and> owner z = s \<and> \<not> constructing z"
    if "m_transactions (register_txn_handle t (conn w)) s = Some p" for s p
  proof -
    have "m_transactions (conn w) s = Some p" using that by simp
    then obtain z where "objs w p = Some z" "owner z = s" "\<not> constructing z" by (rule inv_manual [OF w(1)])
    then show ?thesis using w(2) by auto
  qed
  have fl: "m_sync_capture_failed_txn (register_txn_handle t (conn w)) = Some h \<Longrightarrow> \<exists>p. holds (objs w) writer p h" for h
    using inv_parts(6) [OF w(1)] by simp
  note old = inv_parts [OF w(1)]
  show ?thesis
    by (rule invI [where c = "register_txn_handle t (conn w)" and X = "(objs w)(o' \<mapsto> y)" and L = "live w"])
       (simp, simp, simp, simp add: old(1), fact cnt, fact ok, unfold hd [where f = m_txn, OF g(1)] hd [where f = writer, OF g(3)],
        fact old(4), fact old(3), fact bnd, fact old(5), fact fl, fact mt)
qed

text \<open>Moving a guard to an object that has none.\<close>

lemma inv_move:
  assumes w: "txn_inv w" "objs w o' = Some x" "\<not> constructing x" "o' \<noteq> p"
    and p: "objs w p = None \<or> (\<exists>z. objs w p = Some z \<and> owner z = owner x \<and> \<not> constructing z \<and>
      m_txn (guard z) = None \<and> \<not> m_handle_registered (guard z))"
    and y: "owner y = owner x" "\<not> constructing y" "m_txn (guard y) = m_txn (guard x)"
      "active (guard y) = active (guard x)" "writer (guard y) = writer (guard x)"
      "m_handle_registered (guard y) = m_handle_registered (guard x)" "guard_ok (conn w) False (guard y)"
    and g: "m_txn g = None" "\<not> m_started g" "\<not> m_handle_registered g" "m_env_of g = None"
  shows "txn_inv (w\<lparr>objs := (objs w)(o' \<mapsto> x\<lparr>guard := g\<rparr>, p \<mapsto> y)\<rparr>)"
proof -
  let ?X = "(objs w)(o' \<mapsto> x\<lparr>guard := g\<rparr>, p \<mapsto> y)"
  have f0: "m_txn h = None \<Longrightarrow> writer h = None" "m_txn h = None \<Longrightarrow> active h = None" for h
    by (simp_all add: writer_def active_def)
  have ex: "(\<exists>q z. ?X q = Some z \<and> P z) \<longleftrightarrow> (\<exists>q z. objs w q = Some z \<and> P z)"
    if "P y = P x" "\<not> P (x\<lparr>guard := g\<rparr>)" "\<And>z. m_txn (guard z) = None \<Longrightarrow> \<not> P z" for P
  proof
    assume "\<exists>q z. ?X q = Some z \<and> P z"
    then obtain q z where "?X q = Some z" "P z" by blast
    then show "\<exists>q z. objs w q = Some z \<and> P z" using that(1,2) w(2,4) by (metis fun_upd_apply option.inject)
  next
    assume "\<exists>q z. objs w q = Some z \<and> P z"
    then obtain q z where q: "objs w q = Some z" "P z" by blast
    then have "q \<noteq> p" using p that(3) by (metis option.distinct(1) option.inject)
    then show "\<exists>q z. ?X q = Some z \<and> P z" using q that(1) w(2,4) by (metis fun_upd_apply option.inject)
  qed
  have ho: "holds ?X f q h \<longleftrightarrow> q \<noteq> o' \<and> (if q = p then holds (objs w) f o' h else holds (objs w) f q h)"
    if "f = m_txn \<or> f = writer" for f q h
    using that w(2,4) y(3,5) g(1) f0(1) [of g] by (auto simp: holds_def)
  have exh: "(\<exists>q. holds ?X f q h) \<longleftrightarrow> (\<exists>q. holds (objs w) f q h)" if "f = m_txn \<or> f = writer" for f h
    unfolding holds_def by (rule ex) (use that y(3,5) g(1) f0 in auto)
  have fin: "finite (dom ?X)" using inv_parts(1) [OF w(1)] by simp
  have cnt: "counts_ok (conn w) ?X"
  proof -
    define sw where "sw q = (if q = o' then p else if q = p then o' else q)" for q
    have inj: "inj_on sw A" for A by (auto simp: inj_on_def sw_def split: if_splits)
    have "registered ?X = sw ` registered (objs w)" "registered_of ?X t = sw ` registered_of (objs w) t" for t
      using p w(2,4) y(1,6) g(3)
      by (force simp: registered_def registered_of_def sw_def image_iff split: if_splits)+
    then show ?thesis using inv_parts(2) [OF w(1)] by (simp add: counts_ok_def card_image [OF inj])
  qed
  have ok: "guard_ok (conn w) (constructing z) (guard z)" if "?X q = Some z" for q z
  proof -
    have "guard_ok (conn w) False g" using g by (simp add: guard_ok_def)
    then show ?thesis using that w(3) y(2,7) inv_guard_ok [OF w(1), of q z]
      by (cases "q = p"; cases "q = o'") auto
  qed
  have uq: "q = r" if "holds ?X m_txn q h" "holds ?X m_txn r h" for q r h
    using that inv_parts(4) [OF w(1)] by (simp only: ho simp_thms split: if_splits)
  have wr: "q = r" if "holds ?X writer q h" "holds ?X writer r k" for q r h k
    using that inv_parts(5) [OF w(1)] by (simp only: ho simp_thms split: if_splits)
  have bnd: "m_thread_txns (conn w) t = Some h \<longleftrightarrow>
      (\<exists>q z. ?X q = Some z \<and> owner z = t \<and> active (guard z) = Some h)" for t h
    unfolding inv_parts(7) [OF w(1)] by (rule ex [symmetric]) (use y(1,4) f0(2) g(1) in auto)
  have mt: "\<exists>z. ?X q = Some z \<and> owner z = t \<and> \<not> constructing z" if q: "m_transactions (conn w) t = Some q" for t q
  proof -
    obtain z where "objs w q = Some z" "owner z = t" "\<not> constructing z" by (rule inv_manual [OF w(1) q])
    then show ?thesis using p w(2,3) y(1,2) by auto
  qed
  have lv: "live w = {h. \<exists>q. holds ?X m_txn q h}"
    using inv_parts(3) [OF w(1)] exh [of m_txn] by simp
  have fl: "\<exists>q. holds ?X writer q h" if "m_sync_capture_failed_txn (conn w) = Some h" for h
    using inv_parts(6) [OF w(1) that] exh [of writer] by simp
  show ?thesis
    by (rule invI [where c = "conn w" and X = ?X and L = "live w"])
       (simp, simp, simp, fact fin, fact cnt, fact ok, fact uq, fact lv, fact bnd, fact wr, fact fl, fact mt)
qed

lemma inv_destroy:
  assumes w: "txn_inv w" "objs w o' = Some x" "\<not> constructing x" "o' \<notin> ran (m_transactions (conn w))"
    and r: "run_guard o' (\<lambda>s. (Inr (), release (owner x) s)) w = (Inr (), w')"
  shows "txn_inv (w'\<lparr>objs := (objs w')(o' := None)\<rparr>)"
proof -
  obtain g' c where m: "release (owner x) (guard x, conn w) = (g', c)" by (metis prod.exhaust)
  have w': "w' = w\<lparr>conn := c, objs := (objs w)(o' \<mapsto> x\<lparr>guard := g'\<rparr>),
      live := live w - set_option (m_txn (guard x)) \<union> set_option (m_txn g')\<rparr>"
    using r run_guard_eq [where m = "\<lambda>s. (Inr (), release (owner x) s)" and w = w, OF w(2)] m by simp
  note ch = release_change [OF w(1-3) m]
  have "txn_inv w'" by (rule inv_run_guard [OF w(1-3) _ r]) (use ch m in auto)
  then show ?thesis
    using ch w(4) by (intro inv_remove [where x = "x\<lparr>guard := g'\<rparr>"]) (auto simp: w' change_ok_def)
qed

text \<open>Steps of the connection that touch no guard.\<close>

lemma inv_conn_change:
  assumes w: "txn_inv w" and c: "tracked c = tracked (conn w)" "m_thread_txns c = m_thread_txns (conn w)"
    "m_env c = m_env (conn w) \<or> registered (objs w) = {}"
    "m_sync_capture_failed_txn c = m_sync_capture_failed_txn (conn w) \<or>
       (\<exists>o' h. m_sync_capture_failed_txn c = Some h \<and> holds (objs w) writer o' h)"
    "\<And>t p. m_transactions c t = Some p \<Longrightarrow> m_transactions (conn w) t = Some p \<or>
       (\<exists>z. objs w p = Some z \<and> owner z = t \<and> \<not> constructing z)"
  shows "txn_inv (w\<lparr>conn := c\<rparr>)"
proof -
  have ok: "guard_ok c (constructing z) (guard z)" if "objs w q = Some z" for q z
  proof (cases "m_env c = m_env (conn w)")
    case True
    then show ?thesis using inv_guard_ok [OF w that] guard_ok_env by blast
  next
    case False
    then have "\<not> m_handle_registered (guard z)" using c(3) that by (auto simp: registered_def)
    then show ?thesis using inv_guard_ok [OF w that] by (auto simp: guard_ok_def)
  qed
  have fl: "\<exists>q. holds (objs w) writer q h" if "m_sync_capture_failed_txn c = Some h" for h
    using that c(4) inv_parts(6) [OF w, of h] by auto
  have mt: "\<exists>z. objs w p = Some z \<and> owner z = t \<and> \<not> constructing z" if "m_transactions c t = Some p" for t p
    using c(5) [OF that] by (metis inv_manual [OF w])
  have bnd: "m_thread_txns c t = Some h \<longleftrightarrow>
      (\<exists>q z. objs w q = Some z \<and> owner z = t \<and> active (guard z) = Some h)" for t h
    unfolding c(2) by (rule inv_parts(7) [OF w])
  note old = inv_parts [OF w]
  show ?thesis
    by (rule invI [where c = c and X = "objs w" and L = "live w"])
       (simp, simp, simp, fact old(1), simp only: counts_ok_tracked [OF c(1)] old(2), fact ok, fact old(4),
        fact old(3), fact bnd, fact old(5), fact fl, fact mt)
qed

lemma no_handles: "txn_inv w \<Longrightarrow> \<not> has_txn_handles (conn w) \<Longrightarrow> registered (objs w) = {}"
  using inv_parts(1,2) by (force simp: has_txn_handles_def counts_ok_def)

lemma closed_env_no_handles: "txn_inv w \<Longrightarrow> m_env (conn w) = None \<Longrightarrow> registered (objs w) = {}"
  using inv_guard_ok by (fastforce simp: registered_def guard_ok_def)

lemma inv_erase:
  assumes "txn_inv w"
  shows "txn_inv (w\<lparr>conn := erase_manual_transaction_if_current t o' (conn w)\<rparr>)"
  by (rule inv_conn_change [OF assms]) (auto simp: erase_manual_transaction_if_current_def tracked_def split: if_splits)

lemma inv_conn_finish:
  assumes w: "txn_inv w"
    and ch: "\<And>o' x r g' c. objs w o' = Some x \<Longrightarrow> owner x = t \<Longrightarrow> \<not> constructing x \<Longrightarrow>
      m (guard x, conn w) = (r, g', c) \<Longrightarrow> change_ok w (owner x) (guard x) g' c \<and> guard_ok c False g'"
  shows "txn_inv (snd (conn_finish m t w))"
proof (cases "m_transactions (conn w) t")
  case None
  then show ?thesis using w by (simp add: conn_finish_def)
next
  case (Some o')
  obtain x where x: "objs w o' = Some x" "owner x = t" "\<not> constructing x" by (rule inv_manual [OF w Some])
  obtain r w' where r: "run_guard o' m w = (r, w')" by fastforce
  have "txn_inv w'" by (rule inv_run_guard [OF w x(1,3) _ r]) (use ch x in blast)
  then show ?thesis
    using Some r by (simp add: conn_finish_def) (rule inv_erase)
qed

lemma inv_cleanup: "txn_inv w \<Longrightarrow> txn_inv (w\<lparr>conn := snd (cleanup use_throw N (conn w))\<rparr>)"
  by (rule inv_conn_change)
     (auto simp: cleanup_def Let_def tracked_def dest: no_handles split: if_splits)

lemma inv_connect:
  assumes "txn_inv w"
  shows "txn_inv (w\<lparr>conn := snd (connect_config N (conn w))\<rparr>)" "txn_inv (w\<lparr>conn := snd (connect N (conn w))\<rparr>)"
  by (rule inv_conn_change [OF assms]; use closed_env_no_handles [OF assms] in \<open>auto simp: connect_config_def
      connect_def initialize_def tracked_def split: if_splits prod.splits option.splits\<close>)+

lemma inv_move_from:
  assumes w: "txn_inv w" "objs w o' = Some x" "\<not> constructing x" "o' \<noteq> p"
    and p: "objs w p = None \<or> (\<exists>z. objs w p = Some z \<and> owner z = owner x \<and> \<not> constructing z \<and>
      m_txn (guard z) = None \<and> \<not> m_handle_registered (guard z))"
    and y: "owner y = owner x" "\<not> constructing y" "guard y = g1" and m: "move_from g (guard x) = (g1, g2)"
  shows "txn_inv (w\<lparr>objs := (objs w)(o' \<mapsto> x\<lparr>guard := g2\<rparr>, p \<mapsto> y)\<rparr>)"
proof -
  have g1: "guard y = guard x" using m y(3) by (cases g; cases "guard x") (auto simp: move_from_def)
  have g2: "m_txn g2 = None" "\<not> m_started g2" "\<not> m_handle_registered g2" "m_env_of g2 = None"
    using m by (auto simp: move_from_def)
  show ?thesis
    by (rule inv_move [OF w p y(1,2)]) (use inv_guard_ok [OF w(1,2)] w(3) in \<open>simp_all add: g1 g2\<close>)
qed

lemma inv_move_assign:
  assumes w: "txn_inv w" "objs w o' = Some x" "\<not> constructing x" "objs w p = Some y" "\<not> constructing y"
      "o' \<noteq> p" "owner x = owner y"
    and r: "run_guard p (\<lambda>s. (Inr (), release (owner y) s)) w = (Inr (), w')"
    and m: "move_from (guard (the (objs w' p))) (guard x) = (g1, g2)"
  shows "txn_inv (w'\<lparr>objs := (objs w')(o' \<mapsto> x\<lparr>guard := g2\<rparr>, p \<mapsto> y\<lparr>guard := g1\<rparr>)\<rparr>)"
proof -
  obtain g' c where rl: "release (owner y) (guard y, conn w) = (g', c)" by (metis prod.exhaust)
  have w': "objs w' = (objs w)(p \<mapsto> y\<lparr>guard := g'\<rparr>)"
    using r run_guard_eq [where m = "\<lambda>s. (Inr (), release (owner y) s)" and w = w, OF w(4)] rl by auto
  note ch = release_change [OF w(1,4,5) rl]
  have inv': "txn_inv w'" by (rule inv_run_guard [OF w(1,4,5) _ r]) (use ch rl in auto)
  show ?thesis
    by (rule inv_move_from [OF inv' _ w(3,6) _ _ _ _ m]) (use w ch(2) in \<open>auto simp: w'\<close>)
qed

lemma inv_step:
  assumes "step w w'" and "txn_inv w"
  shows "txn_inv w'"
  using assms
proof (induction rule: step.induct)
  case (configure w)
  then show ?case by (intro inv_conn_change) (auto simp: configure_def tracked_def)
next
  case (connect N w)
  then show ?case by (intro inv_connect)
next
  case (connect_config N w)
  then show ?case by (intro inv_connect)
next
  case (reserve t mode w g c o')
  then have c: "m_env (conn w) \<noteq> None" "g = reserved_guard (m_env (conn w)) mode" "c = register_txn_handle t (conn w)"
    by (auto simp: conn_transaction_def split: if_splits)
  show ?case unfolding c(3) by (rule inv_reserve) (use reserve c in simp_all)
next
  case (reserve_manual t mode w g c o')
  then have c: "m_env (conn w) \<noteq> None" "g = reserved_guard (m_env (conn w)) mode" "c = register_txn_handle t (conn w)"
    by (auto simp: conn_begin_def split: if_splits)
  show ?case unfolding c(3) by (rule inv_reserve) (use reserve_manual c in simp_all)
next
  case (construct w o' x N w')
  then show ?case by (intro inv_construct)
next
  case (construct_fails w o' x N e w')
  then show ?case by (intro inv_construct_fails)
next
  case (insert_manual w o' x c)
  then show ?case
    by (intro inv_conn_change) (auto simp: conn_begin_insert_def tracked_def split: if_splits)
next
  case (begin_again w o' x N)
  obtain r w' where r: "run_guard o' (txn_begin (owner x) N) w = (r, w')" by fastforce
  have "txn_inv w'" by (rule inv_run_guard [OF begin_again(4,1,2) _ r])
    (use begin_change [OF begin_again(4,1,3)] in blast)
  then show ?case by (simp add: r)
next
  case (commit w o' x N)
  obtain r w' where r: "run_guard o' (txn_commit (owner x) N) w = (r, w')" by fastforce
  have "txn_inv w'" by (rule inv_run_guard [OF commit(3,1,2) _ r])
    (use txn_commit_change [OF commit(3,1,2)] in blast)
  then show ?case by (simp add: r)
next
  case (rollback w o' x N)
  obtain r w' where r: "run_guard o' (txn_rollback (owner x) N) w = (r, w')" by fastforce
  have "txn_inv w'" by (rule inv_run_guard [OF rollback(4,1,2) _ r])
    (use txn_rollback_change [OF rollback(4,1,2,3)] in blast)
  then show ?case by (simp add: r)
next
  case (commit_manual w t N)
  show ?case unfolding conn_commit_def
    by (rule inv_conn_finish [OF commit_manual]) (use txn_commit_change [OF commit_manual] in blast)
next
  case (rollback_manual N w t)
  show ?case unfolding conn_rollback_def
    by (rule inv_conn_finish [OF rollback_manual(2)]) (use txn_rollback_change [OF rollback_manual(2)] rollback_manual(1) in blast)
next
  case (destroy w o' x w')
  then show ?case by (intro inv_destroy)
next
  case (move_construct w o' x p g g1 g2)
  then show ?case by (intro inv_move_from) auto
next
  case (move_assign w o' x p y w' g1 g2)
  then show ?case by (intro inv_move_assign)
next
  case (capture_fails w o' x)
  then obtain h where "m_txn (guard x) = Some h" "holds (objs w) writer o' h"
    by (auto simp: holds_def writer_def)
  then show ?case by (auto intro!: inv_conn_change [OF capture_fails(4)])
next
  case (request_shutdown w t)
  then show ?case by (intro inv_conn_change) (auto simp: request_shutdown_def tracked_def split: if_splits)
next
  case (disconnect w N)
  then show ?case unfolding disconnect_def by (intro inv_cleanup)
qed

lemma inv_start: "txn_inv start_world"
  by (auto simp: txn_inv_def start_world_def counts_ok_def registered_def registered_of_def holds_def)

lemma reachable_inv: "reachable w \<Longrightarrow> txn_inv w"
  by (induction rule: rtranclp_induct) (auto intro: inv_start inv_step)

end
