(* ===== verification/Txn_Properties.thy ===== *)
theory Txn_Properties
  imports Txn_Steps
begin

text \<open>
  What the transaction lifecycle guarantees in every state that a program of several threads can
  reach, and two gaps of it: a guard that begins again is not covered by the shutdown protocol, and
  a rollback tells the capture sinks to discard before it knows that the native abort succeeded.
\<close>

section \<open>Handles are accounted for\<close>




section \<open>The environment outlives its transactions\<close>


section \<open>Shutdown can always complete\<close>

definition dead_native :: native where
  "dead_native = \<lparr>n_begin = (MDBX_BUSY, 0), n_renew = MDBX_BUSY, n_reset = MDBX_SUCCESS, n_abort = MDBX_SUCCESS,
     n_commit = MDBX_SUCCESS, n_close = MDBX_SUCCESS, n_db_init = (None, Some LoopBound), n_flush = Inr ()\<rparr>"

lemma destroy_guard:
  assumes "txn_inv w" "objs w o' = Some x" "\<not> constructing x" "o' \<notin> ran (m_transactions (conn w))"
  shows "\<exists>w'. step w w' \<and> objs w' = (objs w)(o' := None)"
proof -
  obtain g c where "release (owner x) (guard x, conn w) = (g, c)" by fastforce
  then obtain w' where w': "run_guard o' (\<lambda>s. (Inr (), release (owner x) s)) w = (Inr (), w')"
      "objs w' = (objs w)(o' \<mapsto> x\<lparr>guard := g\<rparr>)"
    using assms(2) by (simp add: run_guard_def)
  from step.destroy [OF assms(2-4) w'(1)] w'(2) show ?thesis by fastforce
qed

lemma fail_construction:
  assumes "txn_inv w" "objs w o' = Some x" "constructing x"
  shows "\<exists>w'. step w w' \<and> objs w' = (objs w)(o' := None)"
proof -
  have g: "\<not> m_started (guard x)" "m_txn (guard x) = None"
    using inv_guard_ok [OF assms(1,2)] assms(3) by (auto simp: guard_ok_def)
  then obtain e g' c where "txn_begin (owner x) dead_native (guard x, conn w) = (Inl e, g', c)"
    by (cases "m_handle_registered (guard x)") (auto simp: txn_begin_def dead_native_def)
  then obtain w' where w': "run_guard o' (txn_begin (owner x) dead_native) w = (Inl e, w')"
      "objs w' = (objs w)(o' \<mapsto> x\<lparr>guard := g'\<rparr>)"
    using assms(2) by (simp add: run_guard_def)
  have "begin_contract w x dead_native" by (simp add: begin_contract_def dead_native_def)
  from step.construct_fails [OF assms(2,3) this w'(1)] w'(2) show ?thesis by fastforce
qed

text \<open>\<open>Connection::rollback\<close> takes the guard out of \<open>m_transactions\<close>.\<close>

lemma rollback_unreferences:
  assumes "txn_inv w" "m_transactions (conn w) t = Some o'" "objs w o' = Some x"
  shows "\<exists>w'. step w w' \<and> (\<exists>g. objs w' = (objs w)(o' \<mapsto> x\<lparr>guard := g\<rparr>)) \<and> o' \<notin> ran (m_transactions (conn w'))"
proof -
  let ?m = "txn_rollback t dead_native"
  obtain r g c where m: "?m (guard x, conn w) = (r, g, c)" by (metis prod.exhaust)
  have x: "owner x = t" "\<not> constructing x" using inv_manual [OF assms(1,2)] assms(3) by auto
  have "change_ok w (owner x) (guard x) g c"
    using txn_rollback_change [OF assms(1,3) x(2), of dead_native r g c] m x(1) by (simp add: dead_native_def)
  then have mt: "m_transactions c = m_transactions (conn w)" by (simp add: change_ok_def)
  define w' where "w' = snd (conn_rollback t dead_native w)"
  have objs: "objs w' = (objs w)(o' \<mapsto> x\<lparr>guard := g\<rparr>)"
    and tr: "m_transactions (conn w') = (m_transactions (conn w))(t := None)"
    using assms(2,3) m mt
    by (simp_all add: w'_def conn_rollback_def conn_finish_def run_guard_def erase_manual_transaction_if_current_def)
  have "step w w'" unfolding w'_def by (rule step.rollback_manual) (simp add: dead_native_def)
  moreover have "s = t" if "m_transactions (conn w) s = Some o'" for s
    using inv_manual [OF assms(1) that] assms(3) x(1) by auto
  then have "o' \<notin> ran (m_transactions (conn w'))" unfolding tr by (auto simp: ran_def split: if_splits)
  ultimately show ?thesis using objs by blast
qed

lemma removed_one:
  "\<exists>w'. step w w' \<and> objs w' = (objs w)(o' := None) \<Longrightarrow>
   \<exists>w'. step\<^sup>*\<^sup>* w w' \<and> dom (objs w') = dom (objs w) - {o'}"
  by (metis dom_fun_upd r_into_rtranclp)

lemma remove_one:
  assumes "txn_inv w" "objs w o' = Some x"
  shows "\<exists>w'. step\<^sup>*\<^sup>* w w' \<and> dom (objs w') = dom (objs w) - {o'}"
proof (cases "constructing x")
  case True
  then show ?thesis by (intro removed_one fail_construction [OF assms])
next
  case False
  show ?thesis
  proof (cases "o' \<in> ran (m_transactions (conn w))")
    case False
    then show ?thesis by (intro removed_one destroy_guard [OF assms \<open>\<not> constructing x\<close>])
  next
    case True
    then obtain t where "m_transactions (conn w) t = Some o'" by (auto simp: ran_def)
    then obtain v g where v: "step w v" "objs v = (objs w)(o' \<mapsto> x\<lparr>guard := g\<rparr>)" "o' \<notin> ran (m_transactions (conn v))"
      using rollback_unreferences [OF assms(1) _ assms(2)] by blast
    have "txn_inv v" by (rule inv_step [OF v(1) assms(1)])
    then obtain w' where w': "step v w'" "objs w' = (objs v)(o' := None)"
      using destroy_guard [of v o' "x\<lparr>guard := g\<rparr>"] v False by auto
    have "step\<^sup>*\<^sup>* w w'" using v(1) w'(1) by (meson converse_rtranclp_into_rtranclp r_into_rtranclp)
    moreover have "dom (objs w') = dom (objs w) - {o'}" by (auto simp: w'(2) v(2))
    ultimately show ?thesis by blast
  qed
qed

lemma remove_all:
  assumes "txn_inv w"
  shows "\<exists>w'. step\<^sup>*\<^sup>* w w' \<and> objs w' = Map.empty"
  using inv_parts(1) [OF assms] assms
proof (induction "dom (objs w)" arbitrary: w rule: finite_psubset_induct)
  case psubset
  show ?case
  proof (cases "dom (objs w) = {}")
    case True
    then show ?thesis by blast
  next
    case False
    then obtain o' x where x: "objs w o' = Some x" by blast
    obtain v where v: "step\<^sup>*\<^sup>* w v" "dom (objs v) = dom (objs w) - {o'}"
      using remove_one [OF psubset.prems x] by blast
    have "txn_inv v" using v(1) psubset.prems by (induction rule: rtranclp_induct) (auto intro: inv_step)
    moreover have "dom (objs v) \<subset> dom (objs w)" using v(2) x by auto
    ultimately obtain w' where "step\<^sup>*\<^sup>* v w'" "objs w' = Map.empty" using psubset.hyps(2) by blast
    with v(1) show ?thesis by (meson rtranclp_trans)
  qed
qed

text \<open>C31. Shutdown is never stuck for good: from every reachable state the threads can get rid of their
  guards (a construction fails, a manual transaction is rolled back, a guard is destroyed), and then
  no native transaction is left and \<open>shutdown\<close> returns with the environment closed, unless closing
  it fails.\<close>

theorem shutdown_can_complete:
  assumes "reachable w"
  shows "\<exists>w'. step\<^sup>*\<^sup>* w w' \<and> live w' = {} \<and>
    (\<forall>t N. n_close N = MDBX_SUCCESS \<longrightarrow>
       (\<exists>c. shutdown t N (conn w') = Some (Inr (), c) \<and> m_env c = None))"
proof -
  obtain w' where w': "step\<^sup>*\<^sup>* w w'" "objs w' = Map.empty"
    using remove_all [OF reachable_inv [OF assms]] by blast
  have inv: "txn_inv w'" by (rule reachable_inv) (use assms w'(1) in \<open>rule rtranclp_trans\<close>)
  have "live w' = {}" using inv_parts(3) [OF inv] w'(2) by (simp add: holds_def)
  moreover have c: "m_open_txn_handles (conn w') = 0" "m_thread_txn_handle_counts (conn w') t = None" for t
    using inv_parts(2) [OF inv] w'(2) by (simp_all add: counts_ok_def registered_def registered_of_def)
  have "shutdown t N (conn w') = Some (Inr (), (conn w')\<lparr>m_shutdown_requested := False\<rparr>)"
    if "m_env (conn w') = None" for t N
    using that by (simp add: shutdown_def request_shutdown_def)
  moreover have "\<exists>c. shutdown t N (conn w') = Some (Inr (), c) \<and> m_env c = None"
    if "m_env (conn w') \<noteq> None" "n_close N = MDBX_SUCCESS" for t N
    using that c by (auto simp: shutdown_def request_shutdown_def current_thread_has_txn_handle_def
        has_txn_handles_def disconnect_def cleanup_def Let_def)
  ultimately have "\<exists>c. shutdown t N (conn w') = Some (Inr (), c) \<and> m_env c = None" if "n_close N = MDBX_SUCCESS" for t N
    using that by (cases "m_env (conn w') = None") auto
  with \<open>live w' = {}\<close> w'(1) show ?thesis by blast
qed

section \<open>Capture failures\<close>








section \<open>A program run\<close>

text \<open>Thread 1 opens a writable transaction and keeps the guard after the commit; thread 2 asks for
  shutdown and disconnects.\<close>

definition demo_native :: native where
  "demo_native = dead_native\<lparr>n_begin := (MDBX_SUCCESS, 7), n_db_init := (Some 1, None)\<rparr>"

definition demo_connected :: world where
  "demo_connected = start_world\<lparr>conn := snd (connect_config demo_native (conn start_world))\<rparr>"

definition demo_reserved :: world where
  "demo_reserved = demo_connected\<lparr>conn := snd (conn_transaction 1 WRITABLE (conn demo_connected)),
     objs := (objs demo_connected)(1 \<mapsto> \<lparr>owner = 1, constructing = True, manual = False,
       guard = reserved_guard (Some 1) WRITABLE\<rparr>)\<rparr>"

definition demo_begun :: world where
  "demo_begun = snd (run_guard 1 (txn_begin 1 demo_native) demo_reserved)"

definition demo_active :: world where
  "demo_active = demo_begun\<lparr>objs := (objs demo_begun)(1 \<mapsto> (the (objs demo_begun 1))\<lparr>constructing := False\<rparr>)\<rparr>"

definition demo_failed :: world where
  "demo_failed = demo_active\<lparr>conn := mark_sync_capture_failed (Some 7) (conn demo_active)\<rparr>"

definition demo_kept :: world where
  "demo_kept = snd (run_guard 1 (txn_commit 1 demo_native) demo_active)"

definition demo_stopping :: world where
  "demo_stopping = demo_kept\<lparr>conn := snd (request_shutdown 2 (conn demo_kept))\<rparr>"

definition demo_closed :: world where
  "demo_closed = demo_stopping\<lparr>conn := snd (disconnect demo_native (conn demo_stopping))\<rparr>"

lemmas demo_defs = demo_native_def dead_native_def demo_connected_def demo_reserved_def demo_begun_def
  demo_active_def demo_kept_def demo_stopping_def demo_closed_def demo_failed_def start_world_def connect_config_def
  initialize_def conn_transaction_def current_thread_has_txn_def reserved_guard_def run_guard_def txn_begin_def
  txn_commit_def on_pre_commit_def sync_capture_failed_def safe_unbind_txn_def safe_unregister_txn_handle_def
  register_txn_handle_def unregister_txn_handle_def bind_txn_def unbind_txn_def request_shutdown_def
  current_thread_has_txn_handle_def disconnect_def cleanup_def has_txn_handles_def mark_sync_capture_failed_def Let_def

lemma demo_states:
  "objs demo_reserved 1 = Some \<lparr>owner = 1, constructing = True, manual = False, guard = reserved_guard (Some 1) WRITABLE\<rparr>"
  "m_txn (guard (the (objs demo_active 1))) = Some 7" "live demo_active = {7}"
  "objs demo_active 1 = Some \<lparr>owner = 1, constructing = False, manual = False, guard = \<lparr>m_registry = True,
     m_env_of = Some 1, m_txn = Some 7, m_mode = WRITABLE, m_started = True, m_handle_registered = True\<rparr>\<rparr>"
  "objs demo_kept = [1 \<mapsto> \<lparr>owner = 1, constructing = False, manual = False, guard = \<lparr>m_registry = True,
     m_env_of = Some 1, m_txn = None, m_mode = WRITABLE, m_started = False, m_handle_registered = False\<rparr>\<rparr>]"
  "live demo_kept = {}" "m_env (conn demo_kept) = Some 1"
  "objs demo_stopping = objs demo_kept" "objs demo_closed = objs demo_kept" "live demo_stopping = {}"
  "m_shutdown_requested (conn demo_stopping)" "m_env (conn demo_stopping) = Some 1" "m_env (conn demo_closed) = None"
  by (simp_all add: demo_defs)

lemma demo_reachable:
  "reachable demo_active" "reachable demo_failed" "reachable demo_stopping" "reachable demo_closed"
proof -
  have 1: "reachable demo_connected"
    unfolding demo_connected_def by (intro r_into_rtranclp step.connect_config) (simp add: demo_native_def)
  have "step demo_connected demo_reserved"
    unfolding demo_reserved_def by (rule step.reserve [where t = 1 and mode = WRITABLE]) (simp_all add: demo_defs)
  with 1 have 2: "reachable demo_reserved" by (rule rtranclp.rtrancl_into_rtrancl)
  have "begin_contract demo_reserved \<lparr>owner = 1, constructing = True, manual = False,
      guard = reserved_guard (Some 1) WRITABLE\<rparr> demo_native"
    by (simp add: begin_contract_def thread_idle_def no_writer_def demo_defs)
  then have "step demo_reserved demo_active" unfolding demo_active_def
    by (rule step.construct [OF demo_states(1), rotated]) (simp_all add: demo_defs)
  with 2 show 3: "reachable demo_active" by (rule rtranclp.rtrancl_into_rtrancl)
  have "step demo_active (demo_active\<lparr>conn := mark_sync_capture_failed (m_txn (guard (the (objs demo_active 1)))) (conn demo_active)\<rparr>)"
    using step.capture_fails [OF demo_states(4)] demo_states(4) by simp
  then have "step demo_active demo_failed" using demo_states(2) by (simp add: demo_failed_def)
  with 3 show "reachable demo_failed" by (rule rtranclp.rtrancl_into_rtrancl)
  have "step demo_active demo_kept" unfolding demo_kept_def
    using step.commit [OF demo_states(4), of demo_native] by simp
  with 3 have 4: "reachable demo_kept" by (rule rtranclp.rtrancl_into_rtrancl)
  have "step demo_kept demo_stopping" unfolding demo_stopping_def by (rule step.request_shutdown)
  with 4 show 5: "reachable demo_stopping" by (rule rtranclp.rtrancl_into_rtrancl)
  have "step demo_stopping demo_closed" unfolding demo_closed_def by (rule step.disconnect)
  with 5 show "reachable demo_closed" by (rule rtranclp.rtrancl_into_rtrancl)
qed

section \<open>Two gaps\<close>

text \<open>C33. A rollback whose native abort fails has already told the capture sinks to discard the
  transaction and has cleared its failure mark, although the guard keeps the transaction and stays
  started: a commit that follows succeeds and no longer sees that a capture had failed.\<close>

theorem rollback_discards_before_abort:
  assumes "m_txn g = Some h" "m_started g" "m_mode g = WRITABLE"
    and "n_abort N \<noteq> MDBX_SUCCESS" and "n_flush N' = Inr ()" "n_commit N' = MDBX_SUCCESS"
  shows "txn_rollback t N (g, c) = (Inl (MdbxException ''Failed to abort writable transaction'' (n_abort N)), g, on_discard h c) \<and>
    discard_calls (on_discard h c) = discard_calls c @ [h] \<and> \<not> sync_capture_failed (Some h) (on_discard h c) \<and>
    fst (txn_commit t' N' (g, on_discard h c)) = Inr ()"
  using assms
  by (simp add: txn_rollback_def txn_commit_def on_pre_commit_def on_discard_def clear_sync_capture_failed_def
      sync_capture_failed_def Let_def)

text \<open>C34. After a shutdown request the connection refuses every new transaction, but \<open>Transaction::begin\<close>
  on a guard that was kept after its commit checks neither the request nor the connection: there is
  a reachable state with shutdown requested in which such a guard opens a new native transaction,
  and one with the connection closed in which such a guard still refers to the closed environment.\<close>

theorem begin_bypasses_shutdown:
  "(\<forall>c t mode. fst (conn_transaction t mode (c\<lparr>m_shutdown_requested := True\<rparr>)) =
        Inl (LogicError ''Connection shutdown is in progress.'') \<and>
      fst (conn_begin t mode (c\<lparr>m_shutdown_requested := True\<rparr>)) =
        Inl (LogicError ''Connection shutdown is in progress.'')) \<and>
   (\<exists>w o' x N. reachable w \<and> m_shutdown_requested (conn w) \<and> objs w o' = Some x \<and> begin_contract w x N \<and>
      live w = {} \<and> fst (run_guard o' (txn_begin (owner x) N) w) = Inr () \<and>
      live (snd (run_guard o' (txn_begin (owner x) N) w)) \<noteq> {}) \<and>
   (\<exists>w o' x. reachable w \<and> m_env (conn w) = None \<and> objs w o' = Some x \<and> \<not> constructing x \<and>
      m_env_of (guard x) \<noteq> None \<and> m_txn (guard x) = None \<and> \<not> m_started (guard x))"
proof (intro conjI)
  let ?x = "the (objs demo_kept 1)"
  have "begin_contract demo_stopping ?x demo_native"
    using demo_states(6-13)
    by (simp add: begin_contract_def thread_idle_def no_writer_def demo_states(5) demo_native_def dead_native_def)
  moreover have "fst (run_guard 1 (txn_begin (owner ?x) demo_native) demo_stopping) = Inr ()"
    "live (snd (run_guard 1 (txn_begin (owner ?x) demo_native) demo_stopping)) \<noteq> {}"
    by (simp_all add: run_guard_def demo_states(5,8) txn_begin_def demo_native_def dead_native_def)
  moreover have "objs demo_stopping 1 = Some ?x" by (simp add: demo_states(5,8))
  ultimately show "\<exists>w o' x N. reachable w \<and> m_shutdown_requested (conn w) \<and> objs w o' = Some x \<and> begin_contract w x N \<and>
      live w = {} \<and> fst (run_guard o' (txn_begin (owner x) N) w) = Inr () \<and>
      live (snd (run_guard o' (txn_begin (owner x) N) w)) \<noteq> {}"
    using demo_reachable(3) demo_states(10,11) by blast
  have "objs demo_closed 1 = Some ?x" "\<not> constructing ?x" "m_env_of (guard ?x) \<noteq> None" "m_txn (guard ?x) = None"
    "\<not> m_started (guard ?x)"
    by (simp_all add: demo_states(5,9))
  then show "\<exists>w o' x. reachable w \<and> m_env (conn w) = None \<and> objs w o' = Some x \<and> \<not> constructing x \<and>
      m_env_of (guard x) \<noteq> None \<and> m_txn (guard x) = None \<and> \<not> m_started (guard x)"
    using demo_reachable(4) demo_states(13) by blast
qed (simp add: conn_transaction_def conn_begin_def)

section \<open>Instances\<close>



theorem shutdown_can_complete_witness:
  "\<exists>w'. step\<^sup>*\<^sup>* demo_active w' \<and> live w' = {} \<and>
     (\<exists>c. shutdown 2 demo_native (conn w') = Some (Inr (), c) \<and> m_env c = None)"
proof -
  have "n_close demo_native = MDBX_SUCCESS" by (simp add: demo_native_def dead_native_def)
  then show ?thesis using shutdown_can_complete [OF demo_reachable(1)] by blast
qed


theorem rollback_discards_before_abort_witness:
  "let g = \<lparr>m_registry = True, m_env_of = Some 1, m_txn = Some 7, m_mode = WRITABLE, m_started = True,
       m_handle_registered = True\<rparr> in
   fst (txn_rollback 2 (demo_native\<lparr>n_abort := MDBX_THREAD_MISMATCH\<rparr>) (g, conn demo_failed)) \<noteq> Inr () \<and>
   fst (txn_commit 1 demo_native (g, on_discard 7 (conn demo_failed))) = Inr ()"
  using rollback_discards_before_abort [of "\<lparr>m_registry = True, m_env_of = Some 1, m_txn = Some 7, m_mode = WRITABLE,
      m_started = True, m_handle_registered = True\<rparr>" 7 "demo_native\<lparr>n_abort := MDBX_THREAD_MISMATCH\<rparr>" demo_native 2
      "conn demo_failed" 1]
  by (simp add: demo_native_def dead_native_def)

end
