(* ===== verification/Sync_Cursor.thy ===== *)
theory Sync_Cursor
  imports Writers
begin

text \<open>
  \<^verbatim>\<open>include/mdbx_containers/sync/protocol/SyncCursor.hpp\<close>: the sequence number per origin that
  peers exchange. A \<open>std::map\<close> is the list of its entries in key order; the order of \<open>NodeId\<close>
  (\<open>std::array\<close>) is the lexicographic order of the bytes.
\<close>

section \<open>Ordered maps\<close>

fun map_set :: "'k :: linorder \<Rightarrow> 'v \<Rightarrow> ('k \<times> 'v) list \<Rightarrow> ('k \<times> 'v) list" where
  "map_set k v [] = [(k, v)]"
| "map_set k v ((k', v') # xs) =
    (if k < k' then (k, v) # (k', v') # xs
     else if k = k' then (k, v) # xs else (k', v') # map_set k v xs)"

definition map_wf :: "('k :: linorder \<times> 'v) list \<Rightarrow> bool" where
  "map_wf xs \<longleftrightarrow> sorted_wrt (<) (map fst xs)"

lemma map_of_map_set [simp]: "map_of (map_set k v xs) = (map_of xs)(k \<mapsto> v)"
  by (induction k v xs rule: map_set.induct) (auto simp: fun_eq_iff)

lemma set_map_set: "fst ` set (map_set k v xs) = insert k (fst ` set xs)"
  by (induction k v xs rule: map_set.induct) auto

lemma map_wf_map_set [simp]: "map_wf xs \<Longrightarrow> map_wf (map_set k v xs)"
proof (induction k v xs rule: map_set.induct)
  case (2 k v k' v' xs)
  have "x \<in> fst ` set (map_set k v xs) \<Longrightarrow> x = k \<or> x \<in> fst ` set xs" for x
    by (simp add: set_map_set)
  with 2 show ?case by (fastforce simp: map_wf_def)
qed (simp add: map_wf_def)

lemma map_wf_Nil [simp]: "map_wf []"
  by (simp add: map_wf_def)

lemma map_wf_distinct: "map_wf xs \<Longrightarrow> distinct (map fst xs)"
  unfolding map_wf_def by (simp add: strict_sorted_iff)

lemma map_set_last:
  "map_wf (xs @ [(k, v)]) \<Longrightarrow> map_set k v xs = xs @ [(k, v)]"
  by (induction xs) (auto simp: map_wf_def)

text \<open>A map is determined by its lookups.\<close>

lemma map_wf_ext:
  assumes "map_wf xs" "map_wf ys" "map_of xs = map_of ys"
  shows "xs = ys"
proof -
  have keys: "map (\<lambda>k. (k, the (map_of zs k))) (map fst zs) = zs" if "map_wf zs" for zs :: "('a \<times> 'b) list"
    using map_wf_distinct [OF that] by (auto simp: comp_def intro!: map_idI)
  have "dom (map_of xs) = dom (map_of ys)" using assms(3) by simp
  then have "set (map fst xs) = set (map fst ys)" by (simp add: dom_map_of_conv_image_fst)
  then have "map fst xs = map fst ys"
    using assms(1,2) unfolding map_wf_def by (intro strict_sorted_equal)
  with keys [OF assms(1)] keys [OF assms(2)] assms(3) show ?thesis by metis
qed

section \<open>Cursors\<close>

type_synonym sync_cursor = "(node_id \<times> u64) list"

definition cursor_wf :: "sync_cursor \<Rightarrow> bool" where
  "cursor_wf cur \<longleftrightarrow> map_wf cur \<and> (\<forall>p \<in> set cur. is_node_id (fst p))"

definition last_seq_for :: "sync_cursor \<Rightarrow> node_id \<Rightarrow> u64" where
  "last_seq_for cur origin = (case map_of cur origin of None \<Rightarrow> 0 | Some s \<Rightarrow> s)"

definition is_empty_for :: "sync_cursor \<Rightarrow> node_id \<Rightarrow> bool" where
  "is_empty_for cur origin \<longleftrightarrow> map_of cur origin = None"

lemma cursor_wf_Nil [simp]: "cursor_wf []"
  by (simp add: cursor_wf_def)

lemma cursor_wf_set [simp]: "cursor_wf cur \<Longrightarrow> is_node_id o' \<Longrightarrow> cursor_wf (map_set o' s cur)"
proof -
  assume a: "cursor_wf cur" "is_node_id o'"
  have "fst p \<in> insert o' (fst ` set cur)" if "p \<in> set (map_set o' s cur)" for p
    using that set_map_set [of o' s cur] by (metis image_eqI)
  with a show ?thesis by (fastforce simp: cursor_wf_def)
qed

section \<open>Cursors on the wire\<close>

text \<open>
  Both frame codecs append the number of origins and then the entries in map order, and read them
  back with a check for duplicates.
\<close>

definition cursor_entry :: "node_id \<times> u64 \<Rightarrow> bytes" where
  "cursor_entry p = fst p @ write_u64_le (snd p)"

definition cursor_bytes :: "sync_cursor \<Rightarrow> bytes" where
  "cursor_bytes cur = concat (map cursor_entry cur)"

fun read_cursor_entries :: "exn \<Rightarrow> exn \<Rightarrow> nat \<Rightarrow> sync_cursor \<Rightarrow> (cursor, sync_cursor) io" where
  "read_cursor_entries short dup 0 cur = ret cur"
| "read_cursor_entries short dup (Suc n) cur =
     bindM (fetch short 16) (\<lambda>origin.
     bindM (fetch_u64 short) (\<lambda>sequence.
     if map_of cur origin \<noteq> None then throw dup
     else read_cursor_entries short dup n (map_set origin sequence cur)))"

lemma reads_cursor_entries:
  assumes "cursor_wf (done' @ cur)"
  shows "reads (read_cursor_entries short dup (length cur) done') (cursor_bytes cur) (done' @ cur)"
  using assms
proof (induction cur arbitrary: done')
  case Nil
  show ?case by (simp add: cursor_bytes_def reads_ret)
next
  case (Cons p cur)
  obtain origin s where p: "p = (origin, s)" by (cases p)
  have wf: "map_wf (done' @ [(origin, s)])" "is_node_id origin" "map_of done' origin = None"
    using Cons.prems p by (auto simp: cursor_wf_def map_wf_def sorted_wrt_append map_of_eq_None_iff)
  have "reads (read_cursor_entries short dup (length cur) (map_set origin s done'))
      (cursor_bytes cur) (done' @ p # cur)"
    using Cons.IH [of "done' @ [p]"] Cons.prems map_set_last [OF wf(1)] p by simp
  with wf(2,3) show ?case
    unfolding cursor_bytes_def cursor_entry_def list.map concat.simps p fst_conv snd_conv append_assoc
      list.size(4) Nat.add_0_right Nat.add_Suc_right read_cursor_entries.simps
    by (auto intro!: reads_bindM [OF reads_fetch] reads_bindM [OF reads_fetch_u64] simp: is_node_id_def)
qed

text \<open>Whatever is read is a well-formed map, in as many bytes as it has entries.\<close>

lemma yields_cursor_entries:
  assumes "cursor_wf cur"
  shows "yields (read_cursor_entries short dup n cur)
    (\<lambda>cur' m. cursor_wf cur' \<and> length cur' = length cur + n \<and> m = 24 * n)"
  using assms
proof (induction n arbitrary: cur)
  case 0
  then show ?case by (auto intro: yields_ret)
next
  case (Suc n)
  have len: "length (map_set origin s cur) = Suc (length cur)" if "map_of cur origin = None" for origin s
    using that by (induction origin s cur rule: map_set.induct) (auto split: if_splits)
  show ?case
    unfolding read_cursor_entries.simps
    by (intro yields_bindM [OF yields_fetch] yields_bindM [OF yields_fetch_int(4)] yields_if yields_throw
        yields_mono [OF Suc.IH]) (use Suc.prems len in \<open>auto simp: is_node_id_def\<close>)
qed

end
