(* ===== verification/Full_Snapshot.thy ===== *)
theory Full_Snapshot
  imports Sync_Cursor
begin

text \<open>
  \<^verbatim>\<open>include/mdbx_containers/sync/protocol/FullSnapshotProtocol.hpp\<close>: one chunk of a full database
  export, its validation and its strict wire format.
\<close>

section \<open>Chunks\<close>

record manifest_entry =
  me_dbi_name :: string
  me_dbi_flags :: u32

datatype full_snapshot_scope = ManifestOnly | CompleteUserDatabase

definition snapshot_scope_code :: "full_snapshot_scope \<Rightarrow> u8" where
  "snapshot_scope_code s = (case s of ManifestOnly \<Rightarrow> 0 | CompleteUserDatabase \<Rightarrow> 1)"

record full_snapshot_chunk =
  source_node_id :: node_id
  source_db_uuid :: db_id
  snapshot_id :: string
  source_tail :: sync_cursor
  chunk_index :: u64
  chunk_has_more :: bool
  replacement_scope :: full_snapshot_scope
  continuation :: string
  manifest_version :: u32
  manifest :: "manifest_entry list"
  chunk_batch :: change_batch

text \<open>The chunk with every member at its default, as in a response that carries none.\<close>

definition default_chunk :: full_snapshot_chunk where
  "default_chunk = \<lparr>source_node_id = make_zero_node, source_db_uuid = make_zero_node, snapshot_id = [],
     source_tail = [], chunk_index = 0, chunk_has_more = False, replacement_scope = ManifestOnly,
     continuation = [], manifest_version = 1, manifest = [],
     chunk_batch = \<lparr>version = 1, batch_flags = BATCH_NONE, origin_node_id = make_zero_node, seq = 0,
       time_unix_ns = 0, ops = []\<rparr>\<rparr>"

definition fs_magic :: bytes where
  "fs_magic = bytes_of_string ''MDBXCSNP''"

definition fs_codec_version :: u16 where "fs_codec_version = 2"

section \<open>Validation\<close>

definition effective_bounds :: "codec_bounds option \<Rightarrow> codec_bounds" where
  "effective_bounds bounds = (case bounds of None \<Rightarrow> default_bounds | Some b \<Rightarrow> b)"

definition fs_is_reserved_dbi :: "string \<Rightarrow> bool" where
  "fs_is_reserved_dbi name \<longleftrightarrow> length name \<ge> 7 \<and> take 7 name = ''_mdbxc_''"

definition is_zero_id :: "node_id \<Rightarrow> bool" where
  "is_zero_id i = list_all (\<lambda>b. b = 0) i"

definition validate_snapshot_operation :: "change_op \<Rightarrow> exn + unit" where
  "validate_snapshot_operation op = seqE [
     refuse (op_type op \<noteq> Put \<and> op_type op \<noteq> ClearTable)
       (InvalidArgument ''Full snapshot operation must be Put or ClearTable''),
     refuse (op_flags op \<noteq> OP_NONE \<or> identity_key op \<noteq> [] \<or> revision_key op \<noteq> [])
       (InvalidArgument ''Full snapshot operation contains non-physical metadata''),
     refuse (op_type op = ClearTable \<and> (storage_key op \<noteq> [] \<or> op_value op \<noteq> []))
       (InvalidArgument ''Full snapshot ClearTable operation contains key or value bytes'')]"

fun manifest_entry_flags :: "manifest_entry list \<Rightarrow> string \<Rightarrow> u32 option" where
  "manifest_entry_flags [] name = None"
| "manifest_entry_flags (e # es) name =
    (if me_dbi_name e = name then Some (me_dbi_flags e) else manifest_entry_flags es name)"

definition validate_scope :: "full_snapshot_scope \<Rightarrow> exn + unit" where
  "validate_scope s = (case s of ManifestOnly \<Rightarrow> Inr () | CompleteUserDatabase \<Rightarrow> Inr ())"

definition validate_cursor :: "sync_cursor \<Rightarrow> codec_bounds \<Rightarrow> exn + unit" where
  "validate_cursor cur b = refuse (exceeds (length cur) (max_cursor_origins b))
     (LengthError ''full snapshot tail exceeds max_cursor_origins'')"

text \<open>The loop over the manifest, with the name of the entry before.\<close>

fun validate_manifest :: "codec_bounds \<Rightarrow> string option \<Rightarrow> manifest_entry list \<Rightarrow> exn + unit" where
  "validate_manifest b prev [] = Inr ()"
| "validate_manifest b prev (e # es) = seqE [
     refuse (me_dbi_name e = [] \<or> fs_is_reserved_dbi (me_dbi_name e))
       (InvalidArgument ''Full snapshot manifest contains a reserved or empty DBI''),
     refuse (case prev of None \<Rightarrow> False | Some p \<Rightarrow> p \<ge> me_dbi_name e)
       (InvalidArgument ''Full snapshot manifest must be sorted and unique''),
     refuse (exceeds (length (me_dbi_name e)) (max_dbi_name_len b))
       (LengthError ''full snapshot manifest DBI name exceeds max_dbi_name_len''),
     validate_manifest b (Some (me_dbi_name e)) es]"

text \<open>One round of the loop over the operations.\<close>

definition validate_chunk_operation :: "manifest_entry list \<Rightarrow> change_op \<Rightarrow> exn + unit" where
  "validate_chunk_operation mf op = seqE [
     validate_snapshot_operation op,
     refuse (fs_is_reserved_dbi (dbi_name op))
       (InvalidArgument ''Full snapshot contains a reserved DBI operation''),
     (case manifest_entry_flags mf (dbi_name op) of
        None \<Rightarrow> Inl (InvalidArgument ''Full snapshot operation is outside its manifest'')
      | Some fl \<Rightarrow> refuse (dbi_flags op \<noteq> fl)
          (InvalidArgument ''Full snapshot operation DBI flags differ from manifest''))]"

definition validate_chunk :: "full_snapshot_chunk \<Rightarrow> codec_bounds option \<Rightarrow> exn + unit" where
  "validate_chunk chunk bounds = (let b = effective_bounds bounds in seqE [
     refuse (is_zero_id (source_node_id chunk) \<or> is_zero_id (source_db_uuid chunk))
       (RuntimeError ''Full snapshot source identity is incomplete''),
     refuse (snapshot_id chunk = []) (InvalidArgument ''Full snapshot id is empty''),
     refuse (exceeds (length (snapshot_id chunk)) (max_snapshot_id_len b))
       (LengthError ''full snapshot id exceeds max_snapshot_id_len''),
     refuse (exceeds (length (continuation chunk)) (max_snapshot_id_len b))
       (LengthError ''full snapshot continuation exceeds max_snapshot_id_len''),
     refuse (chunk_has_more chunk \<noteq> (continuation chunk \<noteq> []))
       (InvalidArgument ''Full snapshot continuation does not match has_more''),
     refuse (manifest_version chunk \<noteq> 1) (InvalidArgument ''Unsupported full snapshot manifest version''),
     validate_scope (replacement_scope chunk),
     validate_cursor (source_tail chunk) b,
     refuse (exceeds (length (manifest chunk)) (max_snapshot_manifest_entries b))
       (LengthError ''full snapshot manifest exceeds max_snapshot_manifest_entries''),
     refuse (manifest chunk = []) (InvalidArgument ''Full snapshot manifest is empty''),
     validate_manifest b None (manifest chunk),
     refuse (version (chunk_batch chunk) \<noteq> cb_batch_version \<or> seq (chunk_batch chunk) \<noteq> 0 \<or>
             origin_node_id (chunk_batch chunk) \<noteq> source_node_id chunk)
       (InvalidArgument ''Full snapshot batch must use source identity and seq=0''),
     refuse (batch_flags (chunk_batch chunk) \<noteq> (if chunk_has_more chunk then BATCH_HAS_MORE else BATCH_NONE))
       (InvalidArgument ''Full snapshot continuation does not match batch flags''),
     refuse (ops (chunk_batch chunk) = [])
       (InvalidArgument ''Full snapshot chunk must contain at least one operation''),
     checkE (validate_chunk_operation (manifest chunk)) (ops (chunk_batch chunk))])"

section \<open>Encoding\<close>

definition fs_append_string :: "string \<Rightarrow> exn + bytes" where
  "fs_append_string s = sizedE ''full snapshot string exceeds u32'' (bytes_of_string s)"

definition append_scope :: "full_snapshot_scope \<Rightarrow> exn + bytes" where
  "append_scope s = joinE [callE (validate_scope s), Inr [snapshot_scope_code s]]"

definition fs_append_cursor :: "sync_cursor \<Rightarrow> codec_bounds \<Rightarrow> exn + bytes" where
  "fs_append_cursor cur b = joinE [callE (validate_cursor cur b),
     Inr (write_u32_le (u32_of_size (length cur))), Inr (cursor_bytes cur)]"

definition append_manifest_entry :: "manifest_entry \<Rightarrow> exn + bytes" where
  "append_manifest_entry e = joinE [fs_append_string (me_dbi_name e), Inr (write_u32_le (me_dbi_flags e))]"

definition validate_encoded_size :: "codec_bounds \<Rightarrow> bytes \<Rightarrow> exn + unit" where
  "validate_encoded_size b encoded = refuse (exceeds (length encoded) (max_snapshot_chunk_bytes b))
     (LengthError ''full snapshot chunk exceeds max_snapshot_chunk_bytes'')"

definition snapshot_encode :: "full_snapshot_chunk \<Rightarrow> codec_bounds option \<Rightarrow> exn + bytes" where
  "snapshot_encode chunk bounds = (let b = effective_bounds bounds in
     case validate_chunk chunk (Some b) of Inl e \<Rightarrow> Inl e | Inr _ \<Rightarrow>
     case encode_batch (chunk_batch chunk) (Some b) of Inl e \<Rightarrow> Inl e | Inr nested \<Rightarrow>
     finishE (joinE [
       Inr fs_magic,
       Inr (write_u16_le fs_codec_version),
       Inr (source_node_id chunk),
       Inr (source_db_uuid chunk),
       fs_append_string (snapshot_id chunk),
       fs_append_cursor (source_tail chunk) b,
       Inr (write_u64_le (chunk_index chunk)),
       Inr [if chunk_has_more chunk then 1 else 0],
       append_scope (replacement_scope chunk),
       fs_append_string (continuation chunk),
       Inr (write_u32_le (manifest_version chunk)),
       Inr (write_u32_le (u32_of_size (length (manifest chunk)))),
       joinE (map append_manifest_entry (manifest chunk)),
       sizedE ''full snapshot nested batch exceeds u32'' nested])
     (validate_encoded_size b))"

section \<open>Decoding\<close>

definition fs_short :: exn where
  "fs_short = RuntimeError ''Truncated full snapshot chunk''"

definition fs_read_bytes :: "nat \<Rightarrow> (cursor, bytes) io" where
  "fs_read_bytes n = fetch fs_short n"

definition fs_read_u8 :: "(cursor, u8) io" where
  "fs_read_u8 = fetch_u8 fs_short"

definition fs_read_u16_le :: "(cursor, u16) io" where
  "fs_read_u16_le = fetch_u16 fs_short"

definition fs_read_u32_le :: "(cursor, u32) io" where
  "fs_read_u32_le = fetch_u32 fs_short"

definition fs_read_u64_le :: "(cursor, u64) io" where
  "fs_read_u64_le = fetch_u64 fs_short"

definition fs_check_bytes :: "bytes \<Rightarrow> (cursor, unit) io" where
  "fs_check_bytes expected = bindM (fs_read_bytes (length expected)) (\<lambda>bs.
     if bs \<noteq> expected then throw (RuntimeError ''Invalid full snapshot magic'') else ret ())"

definition fs_read_scope :: "(cursor, full_snapshot_scope) io" where
  "fs_read_scope = bindM fs_read_u8 (\<lambda>raw.
     if raw = snapshot_scope_code ManifestOnly then ret ManifestOnly
     else if raw = snapshot_scope_code CompleteUserDatabase then ret CompleteUserDatabase
     else throw (RuntimeError ''Invalid full snapshot replacement scope''))"

definition fs_read_cursor :: "codec_bounds \<Rightarrow> (cursor, sync_cursor) io" where
  "fs_read_cursor b = bindM fs_read_u32_le (\<lambda>count.
     if count > max_cursor_origins b
     then throw (LengthError ''full snapshot tail exceeds max_cursor_origins'')
     else read_cursor_entries fs_short (RuntimeError ''Duplicate origin in full snapshot tail'')
            (unat count) [])"

definition fs_read_string :: "u32 \<Rightarrow> string \<Rightarrow> (cursor, string) io" where
  "fs_read_string max_size error = bindM fs_read_u32_le (\<lambda>n.
     if n > max_size then throw (LengthError error)
     else bindM (fs_read_bytes (unat n)) (\<lambda>bs. ret (string_of_bytes bs)))"

definition read_manifest_entry :: "codec_bounds \<Rightarrow> (cursor, manifest_entry) io" where
  "read_manifest_entry b =
     bindM (fs_read_string (max_dbi_name_len b)
              ''full snapshot manifest DBI name exceeds max_dbi_name_len'') (\<lambda>name.
     bindM fs_read_u32_le (\<lambda>fl. ret \<lparr>me_dbi_name = name, me_dbi_flags = fl\<rparr>))"

definition snapshot_decode_body :: "codec_bounds \<Rightarrow> (cursor, full_snapshot_chunk) io" where
  "snapshot_decode_body b =
     bindM (fs_check_bytes fs_magic) (\<lambda>_.
     bindM fs_read_u16_le (\<lambda>cv.
     if cv \<noteq> fs_codec_version then throw (RuntimeError ''Unsupported full snapshot codec version'') else
     bindM (fs_read_bytes 16) (\<lambda>node.
     bindM (fs_read_bytes 16) (\<lambda>db.
     bindM (fs_read_string (max_snapshot_id_len b) ''full snapshot id exceeds max_snapshot_id_len'') (\<lambda>sid.
     bindM (fs_read_cursor b) (\<lambda>tail.
     bindM fs_read_u64_le (\<lambda>idx.
     bindM fs_read_u8 (\<lambda>hm.
     if hm > 1 then throw (RuntimeError ''Invalid full snapshot continuation flag'') else
     bindM fs_read_scope (\<lambda>scope.
     bindM (fs_read_string (max_snapshot_id_len b)
              ''full snapshot continuation exceeds max_snapshot_id_len'') (\<lambda>cont.
     bindM fs_read_u32_le (\<lambda>mv.
     bindM fs_read_u32_le (\<lambda>count.
     if count > max_snapshot_manifest_entries b
     then throw (LengthError ''full snapshot manifest exceeds max_snapshot_manifest_entries'') else
     bindM (repeatM (unat count) (read_manifest_entry b)) (\<lambda>mf.
     bindM fs_read_u32_le (\<lambda>nested_size.
     bindM (fs_read_bytes (unat nested_size)) (\<lambda>nested.
     bindM (liftE (decode_exact nested (Some b))) (\<lambda>batch.
     ret \<lparr>source_node_id = node, source_db_uuid = db, snapshot_id = sid, source_tail = tail,
          chunk_index = idx, chunk_has_more = (hm \<noteq> 0), replacement_scope = scope,
          continuation = cont, manifest_version = mv, manifest = mf, chunk_batch = batch\<rparr>))))))))))))))))"

definition snapshot_decode :: "bytes \<Rightarrow> codec_bounds option \<Rightarrow> exn + full_snapshot_chunk" where
  "snapshot_decode encoded bounds = (let b = effective_bounds bounds in
     case validate_encoded_size b encoded of Inl e \<Rightarrow> Inl e | Inr _ \<Rightarrow>
     decode_with (bindM (snapshot_decode_body b)
       (then_validate (RuntimeError ''Trailing bytes after full snapshot chunk'')
         (\<lambda>chunk. validate_chunk chunk (Some b)))) encoded)"

section \<open>Round trip\<close>

lemmas fs_reads = fs_read_bytes_def fs_read_u8_def fs_read_u16_le_def fs_read_u32_le_def fs_read_u64_le_def

lemma agrees_fs_string:
  assumes "\<not> exceeds (length s) limit"
  shows "agrees (fs_append_string s) (fs_read_string limit error) s"
  unfolding fs_append_string_def fs_read_string_def fs_reads
  by (rule agrees_sized)
    (use assms in \<open>auto simp: word_less_nat_alt intro!: reads_bindM_last [OF reads_fetch] reads_ret\<close>)

lemma agrees_fs_cursor:
  assumes "cursor_wf cur"
  shows "agrees (fs_append_cursor cur b) (fs_read_cursor b) cur"
proof -
  have "reads (fs_read_cursor b) (write_u32_le (u32_of_size (length cur)) @ cursor_bytes cur) cur"
    if len: "\<not> exceeds (length cur) (max_cursor_origins b)"
  proof -
    have n: "unat (u32_of_size (length cur) :: u32) = length cur"
      using len unsigned_less [of "max_cursor_origins b", where ?'a = nat] by (intro unat_u32_of_size) simp
    show ?thesis
      unfolding fs_read_cursor_def fs_reads
      by (rule reads_bindM [OF reads_fetch_u32])
        (use len n reads_cursor_entries [of "[]" cur] assms in \<open>auto simp: word_less_nat_alt\<close>)
  qed
  then show ?thesis
    by (auto simp: agrees_def fs_append_cursor_def joinE_Cons_Inr validate_cursor_def)
qed

lemma agrees_scope: "agrees (append_scope s) fs_read_scope s"
proof -
  have "reads fs_read_scope [snapshot_scope_code s] s"
    unfolding fs_read_scope_def fs_reads
    by (rule reads_bindM_last [OF reads_fetch_u8]) (cases s; simp add: snapshot_scope_code_def reads_ret)
  then show ?thesis
    by (auto simp: agrees_def append_scope_def joinE_Cons_Inr)
qed

lemma agrees_manifest_entry:
  assumes "\<not> exceeds (length (me_dbi_name e)) (max_dbi_name_len b)"
  shows "agrees (append_manifest_entry e) (read_manifest_entry b) e"
  unfolding append_manifest_entry_def read_manifest_entry_def fs_read_u32_le_def
  by (rule agrees_step [OF agrees_fs_string [OF assms]], rule agrees_step [OF agrees_Inr [OF reads_fetch_u32]])
    (rule agrees_done, simp)

lemma validate_manifest_Inr:
  "validate_manifest b prev es = Inr () \<longleftrightarrow>
     (\<forall>e \<in> set es. me_dbi_name e \<noteq> [] \<and> \<not> fs_is_reserved_dbi (me_dbi_name e) \<and>
        \<not> exceeds (length (me_dbi_name e)) (max_dbi_name_len b)) \<and>
     sorted_wrt (<) ((case prev of None \<Rightarrow> [] | Some p \<Rightarrow> [p]) @ map me_dbi_name es)"
proof (induction es arbitrary: prev)
  case Nil
  show ?case by (cases prev) simp_all
next
  case (Cons e es)
  have *: "sorted_wrt (<) (p # x # xs) \<longleftrightarrow> p < x \<and> sorted_wrt (<) (x # xs)" for p x :: string and xs
    using less_trans by auto
  show ?case
    unfolding validate_manifest.simps seqE_Inr using Cons.IH [of "Some (me_dbi_name e)"]
    by (cases prev) (auto simp: not_le * simp del: sorted_wrt.simps(2))
qed

text \<open>What the C++ types say of a chunk: identifiers of 16 bytes and a map as cursor.\<close>

definition chunk_typed :: "full_snapshot_chunk \<Rightarrow> bool" where
  "chunk_typed chunk \<longleftrightarrow> is_node_id (source_node_id chunk) \<and> is_node_id (source_db_uuid chunk) \<and>
     cursor_wf (source_tail chunk)"

lemma snapshot_encode_Inr:
  assumes "snapshot_encode chunk bounds = Inr bs"
  obtains nested where "validate_chunk chunk (Some (effective_bounds bounds)) = Inr ()"
    "encode_batch (chunk_batch chunk) (Some (effective_bounds bounds)) = Inr nested"
    "validate_encoded_size (effective_bounds bounds) bs = Inr ()"
    "joinE [Inr fs_magic, Inr (write_u16_le fs_codec_version), Inr (source_node_id chunk),
       Inr (source_db_uuid chunk), fs_append_string (snapshot_id chunk),
       fs_append_cursor (source_tail chunk) (effective_bounds bounds), Inr (write_u64_le (chunk_index chunk)),
       Inr [if chunk_has_more chunk then 1 else 0], append_scope (replacement_scope chunk),
       fs_append_string (continuation chunk), Inr (write_u32_le (manifest_version chunk)),
       Inr (write_u32_le (u32_of_size (length (manifest chunk)))),
       joinE (map append_manifest_entry (manifest chunk)),
       sizedE ''full snapshot nested batch exceeds u32'' nested] = Inr bs"
  using assms unfolding snapshot_encode_def Let_def
  by (auto simp: finishE_Inr split: sum.splits)

lemma validate_chunk_Inr:
  "validate_chunk chunk (Some b) = Inr () \<longleftrightarrow>
     \<not> is_zero_id (source_node_id chunk) \<and> \<not> is_zero_id (source_db_uuid chunk) \<and>
     snapshot_id chunk \<noteq> [] \<and> \<not> exceeds (length (snapshot_id chunk)) (max_snapshot_id_len b) \<and>
     \<not> exceeds (length (continuation chunk)) (max_snapshot_id_len b) \<and>
     chunk_has_more chunk = (continuation chunk \<noteq> []) \<and> manifest_version chunk = 1 \<and>
     \<not> exceeds (length (source_tail chunk)) (max_cursor_origins b) \<and>
     \<not> exceeds (length (manifest chunk)) (max_snapshot_manifest_entries b) \<and> manifest chunk \<noteq> [] \<and>
     validate_manifest b None (manifest chunk) = Inr () \<and>
     version (chunk_batch chunk) = cb_batch_version \<and> seq (chunk_batch chunk) = 0 \<and>
     origin_node_id (chunk_batch chunk) = source_node_id chunk \<and>
     batch_flags (chunk_batch chunk) = (if chunk_has_more chunk then BATCH_HAS_MORE else BATCH_NONE) \<and>
     ops (chunk_batch chunk) \<noteq> [] \<and>
     (\<forall>op \<in> set (ops (chunk_batch chunk)). validate_chunk_operation (manifest chunk) op = Inr ())"
  unfolding validate_chunk_def effective_bounds_def Let_def option.case
  by (auto simp: validate_cursor_def checkE_Inr list_all_iff validate_scope_def split: full_snapshot_scope.splits)

lemma validate_chunk_operation_Inr:
  "validate_chunk_operation mf op = Inr () \<longleftrightarrow> op_type op \<in> {Put, ClearTable} \<and>
     op_flags op = OP_NONE \<and> identity_key op = [] \<and> revision_key op = [] \<and>
     (op_type op = ClearTable \<longrightarrow> storage_key op = [] \<and> op_value op = []) \<and>
     \<not> fs_is_reserved_dbi (dbi_name op) \<and> manifest_entry_flags mf (dbi_name op) = Some (dbi_flags op)"
  unfolding validate_chunk_operation_def validate_snapshot_operation_def
  by (auto split: option.splits)


lemma reads_snapshot_body:
  assumes "joinE [Inr fs_magic, Inr (write_u16_le fs_codec_version), Inr (source_node_id chunk),
       Inr (source_db_uuid chunk), fs_append_string (snapshot_id chunk),
       fs_append_cursor (source_tail chunk) b, Inr (write_u64_le (chunk_index chunk)),
       Inr [if chunk_has_more chunk then 1 else 0], append_scope (replacement_scope chunk),
       fs_append_string (continuation chunk), Inr (write_u32_le (manifest_version chunk)),
       Inr (write_u32_le (u32_of_size (length (manifest chunk)))),
       joinE (map append_manifest_entry (manifest chunk)),
       sizedE ''full snapshot nested batch exceeds u32'' nested] = Inr bs"
    and "validate_chunk chunk (Some b) = Inr ()" and "chunk_typed chunk"
    and nested: "decode_exact nested (Some b) = Inr (chunk_batch chunk)"
  shows "reads (snapshot_decode_body b) bs chunk"
proof (rule agreesD [OF _ assms(1)])
  note v = assms(2) [unfolded validate_chunk_Inr]
  have n: "unat (u32_of_size (length (manifest chunk)) :: u32) = length (manifest chunk)"
    using v unsigned_less [of "max_snapshot_manifest_entries b", where ?'a = nat]
    by (intro unat_u32_of_size) simp
  have magic: "reads (fs_check_bytes fs_magic) fs_magic ()"
    unfolding fs_check_bytes_def fs_reads
    by (rule reads_bindM_last [OF reads_fetch]) (simp_all add: reads_ret)
  have hm: "\<not> (if chunk_has_more chunk then 1 else 0 :: u8) > 1"
    "((if chunk_has_more chunk then 1 else 0 :: u8) \<noteq> 0) = chunk_has_more chunk" by simp_all
  have mf: "agrees (joinE (map append_manifest_entry (manifest chunk)))
      (repeatM (unat (u32_of_size (length (manifest chunk)) :: u32)) (read_manifest_entry b)) (manifest chunk)"
    unfolding n using v by (intro agrees_repeatM agrees_manifest_entry) (auto simp: validate_manifest_Inr)
  have nodes: "length (source_node_id chunk) = 16" "length (source_db_uuid chunk) = 16"
    "cursor_wf (source_tail chunk)"
    using assms(3) by (simp_all add: chunk_typed_def is_node_id_def)
  have not_over: "\<not> u32_of_size (length (manifest chunk)) > max_snapshot_manifest_entries b"
    using v n by (simp add: word_less_nat_alt)
  show "agrees (joinE [Inr fs_magic, Inr (write_u16_le fs_codec_version), Inr (source_node_id chunk),
       Inr (source_db_uuid chunk), fs_append_string (snapshot_id chunk),
       fs_append_cursor (source_tail chunk) b, Inr (write_u64_le (chunk_index chunk)),
       Inr [if chunk_has_more chunk then 1 else 0], append_scope (replacement_scope chunk),
       fs_append_string (continuation chunk), Inr (write_u32_le (manifest_version chunk)),
       Inr (write_u32_le (u32_of_size (length (manifest chunk)))),
       joinE (map append_manifest_entry (manifest chunk)),
       sizedE ''full snapshot nested batch exceeds u32'' nested]) (snapshot_decode_body b) chunk"
    unfolding snapshot_decode_body_def fs_reads
    by (rule agrees_step [OF agrees_Inr [OF magic]]
        agrees_step [OF agrees_Inr [OF reads_fetch_u16]] agrees_step [OF agrees_Inr [OF reads_fetch_u32]]
        agrees_step [OF agrees_Inr [OF reads_fetch_u64]] agrees_step [OF agrees_Inr [OF reads_fetch_u8]]
        agrees_step [OF agrees_Inr [OF reads_fetch [OF nodes(1)]]]
        agrees_step [OF agrees_Inr [OF reads_fetch [OF nodes(2)]]]
        agrees_step [OF agrees_fs_string] agrees_step [OF agrees_fs_cursor [OF nodes(3)]]
        agrees_step [OF agrees_scope] agrees_step [OF mf] agrees_if_False agrees_sized_then
        hm(1) not_over v [THEN conjunct1] agrees_step [OF agrees_Inr [OF reads_fetch]]
        agrees_liftE [OF nested] agrees_done | use v hm in \<open>simp; fail\<close>)+
qed

lemma snapshot_decode_encode:
  assumes "snapshot_encode chunk bounds = Inr bs" and "chunk_typed chunk"
    and "max_value_len (effective_bounds bounds) \<noteq> 0xFFFFFFFF"
  shows "snapshot_decode bs bounds = Inr chunk"
proof -
  let ?b = "effective_bounds bounds"
  obtain nested where e: "validate_chunk chunk (Some ?b) = Inr ()"
    "encode_batch (chunk_batch chunk) (Some ?b) = Inr nested" "validate_encoded_size ?b bs = Inr ()"
    and parts: "joinE [Inr fs_magic, Inr (write_u16_le fs_codec_version), Inr (source_node_id chunk),
       Inr (source_db_uuid chunk), fs_append_string (snapshot_id chunk),
       fs_append_cursor (source_tail chunk) ?b, Inr (write_u64_le (chunk_index chunk)),
       Inr [if chunk_has_more chunk then 1 else 0], append_scope (replacement_scope chunk),
       fs_append_string (continuation chunk), Inr (write_u32_le (manifest_version chunk)),
       Inr (write_u32_le (u32_of_size (length (manifest chunk)))),
       joinE (map append_manifest_entry (manifest chunk)),
       sizedE ''full snapshot nested batch exceeds u32'' nested] = Inr bs"
    by (rule snapshot_encode_Inr [OF assms(1)])
  have "batch_fits (Some ?b) (chunk_batch chunk)"
    using e(1,2) assms(2,3)
    by (intro validate_bounds_fits)
      (auto simp: encode_batch_Inr validate_chunk_Inr validate_chunk_operation_Inr chunk_typed_def
        keys_flagged_def list_all_iff)
  from reads_snapshot_body [OF parts e(1) assms(2) decode_exact_encode [OF e(2) this]] e(1,3)
  show ?thesis
    by (simp add: snapshot_decode_def Let_def decode_with_all reads_all_bindM_last reads_all_then_validate)
qed

text \<open>
  C19. A full-snapshot chunk survives the wire: whatever \<open>FullSnapshotCodec::encode\<close> accepts under some
  limits (the default ones for a null pointer), \<open>decode\<close> with the same limits returns unchanged,
  the nested batch, the manifest and the tail cursor included.
\<close>

theorem full_snapshot_roundtrip:
  assumes "snapshot_encode chunk bounds = Inr bs" and "chunk_typed chunk"
    and "max_value_len (effective_bounds bounds) \<noteq> 0xFFFFFFFF"
  shows "snapshot_decode bs bounds = Inr chunk"
  using assms by (rule snapshot_decode_encode)


definition example_chunk :: full_snapshot_chunk where
  "example_chunk = \<lparr>source_node_id = replicate 16 1, source_db_uuid = replicate 16 2, snapshot_id = ''s1'',
     source_tail = [(replicate 16 1, 4), (replicate 16 3, 9)], chunk_index = 0, chunk_has_more = True,
     replacement_scope = CompleteUserDatabase, continuation = ''c'', manifest_version = 1,
     manifest = [\<lparr>me_dbi_name = ''a'', me_dbi_flags = 0\<rparr>, \<lparr>me_dbi_name = ''b'', me_dbi_flags = 4\<rparr>],
     chunk_batch = \<lparr>version = 1, batch_flags = 2, origin_node_id = replicate 16 1, seq = 0, time_unix_ns = 0,
       ops = [\<lparr>op_type = Put, op_flags = 0, dbi_flags = 4, dbi_name = ''b'', storage_key = [1],
         op_value = [2], identity_key = [], revision_key = []\<rparr>]\<rparr>\<rparr>"

definition example_chunk_bounds :: codec_bounds where
  "example_chunk_bounds = example_bounds\<lparr>max_snapshot_chunk_bytes := 250\<rparr>"

lemma example_chunk_encodes:
  obtains bs where "snapshot_encode example_chunk (Some example_chunk_bounds) = Inr bs"
proof -
  have "case snapshot_encode example_chunk (Some example_chunk_bounds) of Inl e \<Rightarrow> False | Inr bs \<Rightarrow> True"
    by code_simp
  then show ?thesis using that by (auto split: sum.splits)
qed

lemma example_chunk_typed: "chunk_typed example_chunk" "max_value_len example_chunk_bounds \<noteq> 0xFFFFFFFF"
  by (code_simp, simp add: example_chunk_bounds_def example_bounds_def)

theorem full_snapshot_roundtrip_witness:
  "\<exists>bs. snapshot_encode example_chunk (Some example_chunk_bounds) = Inr bs \<and>
     snapshot_decode bs (Some example_chunk_bounds) = Inr example_chunk"
proof -
  obtain bs where bs: "snapshot_encode example_chunk (Some example_chunk_bounds) = Inr bs"
    by (rule example_chunk_encodes)
  with full_snapshot_roundtrip [OF bs] example_chunk_typed show ?thesis by (auto simp: effective_bounds_def)
qed


end
