(* ===== verification/Logical_Frame.thy ===== *)
theory Logical_Frame
  imports Appenders Full_Snapshot
begin

text \<open>
  \<^verbatim>\<open>include/mdbx_containers/sync/logical\<close>: logical schemas and changes, the frame that carries them
  (\<^verbatim>\<open>LogicalChangeFrameCodec.hpp\<close>), the delivery envelope around a frame
  (\<^verbatim>\<open>LogicalDeliveryEnvelope.hpp\<close>, \<^verbatim>\<open>LogicalDeliveryEnvelopeCodec.hpp\<close>) and the check of the delivery
  order. Both formats are canonical: the decoder accepts exactly the bytes the encoder produces.
\<close>

section \<open>Schemas, changes and frames\<close>

datatype logical_table_kind = UnknownKind | KeyMultiValue | KeyOrderedMultiValue | AnyValue
  | HashedKeyValue | KeyValue | KeyTable | VectorStore

definition table_kind_code :: "logical_table_kind \<Rightarrow> u16" where
  "table_kind_code k = (case k of UnknownKind \<Rightarrow> 0 | KeyMultiValue \<Rightarrow> 1 | KeyOrderedMultiValue \<Rightarrow> 2
     | AnyValue \<Rightarrow> 3 | HashedKeyValue \<Rightarrow> 4 | KeyValue \<Rightarrow> 5 | KeyTable \<Rightarrow> 6 | VectorStore \<Rightarrow> 7)"

definition is_known_logical_table_kind :: "logical_table_kind \<Rightarrow> bool" where
  "is_known_logical_table_kind k = (case k of KeyMultiValue \<Rightarrow> True | KeyOrderedMultiValue \<Rightarrow> True
     | AnyValue \<Rightarrow> True | HashedKeyValue \<Rightarrow> True | KeyValue \<Rightarrow> True | KeyTable \<Rightarrow> True
     | VectorStore \<Rightarrow> True | UnknownKind \<Rightarrow> False)"

record logical_schema_ref =
  schema_id :: string
  schema_kind :: logical_table_kind
  schema_version :: u32

record logical_change =
  change_schema :: logical_schema_ref
  opcode :: u32
  change_flags :: u32
  payload :: bytes

record logical_change_frame =
  changes :: "logical_change list"

definition is_logical_schema_ref_complete :: "logical_schema_ref \<Rightarrow> bool" where
  "is_logical_schema_ref_complete r \<longleftrightarrow>
     schema_id r \<noteq> [] \<and> is_known_logical_table_kind (schema_kind r) \<and> schema_version r \<noteq> 0"

section \<open>The frame codec\<close>

definition lf_magic :: bytes where "lf_magic = bytes_of_string ''MDBXCLGF''"

definition lf_codec_version :: u16 where "lf_codec_version = 1"

definition lf_underrun :: exn where
  "lf_underrun = RuntimeError ''Logical frame codec buffer underrun''"

definition lf_append_bytes :: "codec_bounds \<Rightarrow> bytes \<Rightarrow> appender" where
  "lf_append_bytes b = capA (LengthError ''logical frame size overflow'')
     (LengthError ''logical frame exceeds max_transport_message_bytes'') (max_transport_message_bytes b)"

definition lf_append_u32_size :: "codec_bounds \<Rightarrow> nat \<Rightarrow> string \<Rightarrow> appender" where
  "lf_append_u32_size b = sizeA (LengthError ''logical frame size overflow'')
     (LengthError ''logical frame exceeds max_transport_message_bytes'') (max_transport_message_bytes b)"

definition lf_append_string :: "codec_bounds \<Rightarrow> string \<Rightarrow> string \<Rightarrow> appender" where
  "lf_append_string b s label = runA [
     guardA (s = []) (RuntimeError label),
     guardA (exceeds (length s) (max_logical_schema_id_len b))
       (LengthError ''logical schema id exceeds max_logical_schema_id_len''),
     lf_append_u32_size b (length s) ''string length exceeds u32'',
     lf_append_bytes b (bytes_of_string s)]"

definition append_payload :: "codec_bounds \<Rightarrow> bytes \<Rightarrow> appender" where
  "append_payload b p = runA [
     guardA (exceeds (length p) (max_value_len b)) (LengthError ''logical payload exceeds max_value_len''),
     lf_append_u32_size b (length p) ''logical payload length exceeds u32'',
     lf_append_bytes b p]"

definition append_kind :: "codec_bounds \<Rightarrow> logical_table_kind \<Rightarrow> appender" where
  "append_kind b k = runA [
     guardA (\<not> is_known_logical_table_kind k) (LogicError ''LogicalChange has unknown table kind''),
     lf_append_bytes b (write_u16_le (table_kind_code k))]"

definition append_change :: "codec_bounds \<Rightarrow> logical_change \<Rightarrow> appender" where
  "append_change b c = runA [
     guardA (\<not> is_logical_schema_ref_complete (change_schema c))
       (LogicError ''LogicalChange schema ref is incomplete''),
     guardA (change_flags c \<noteq> 0) (LogicError ''LogicalChange flags are reserved and must be zero''),
     lf_append_string b (schema_id (change_schema c)) ''LogicalChange schema id is empty'',
     append_kind b (schema_kind (change_schema c)),
     lf_append_bytes b (write_u32_le (schema_version (change_schema c))),
     lf_append_bytes b (write_u32_le (opcode c)),
     lf_append_bytes b (write_u32_le (change_flags c)),
     append_payload b (payload c)]"

definition lf_encode :: "logical_change_frame \<Rightarrow> codec_bounds option \<Rightarrow> exn + bytes" where
  "lf_encode fr bounds = (let b = effective_bounds bounds in runA [
     guardA (exceeds (length (changes fr)) (max_ops_per_batch b))
       (LengthError ''logical changes exceed max_ops_per_batch''),
     lf_append_bytes b lf_magic,
     lf_append_bytes b (write_u16_le lf_codec_version),
     lf_append_bytes b (write_u32_le 0),
     lf_append_u32_size b (length (changes fr)) ''logical change count exceeds u32'',
     runA (map (append_change b) (changes fr)),
     (\<lambda>out. guardA (exceeds (length out) (max_transport_message_bytes b))
       (LengthError ''logical frame exceeds max_transport_message_bytes'') out)] [])"

subsection \<open>Decoding\<close>

definition lf_check_header :: "(cursor, unit) io" where
  "lf_check_header =
    bindM (fetch lf_underrun 8) (\<lambda>m.
     if m \<noteq> lf_magic then throw (RuntimeError ''Logical frame magic mismatch'') else
     bindM (fetch_u16 lf_underrun) (\<lambda>ver.
     if ver \<noteq> lf_codec_version then throw (RuntimeError ''Unsupported logical frame codec_version'') else
     bindM (fetch_u32 lf_underrun) (\<lambda>fl.
     if fl \<noteq> 0 then throw (RuntimeError ''Unknown mandatory logical frame flags'') else ret ())))"

definition lf_read_string :: "codec_bounds \<Rightarrow> string \<Rightarrow> (cursor, string) io" where
  "lf_read_string b label =
    bindM (fetch_u32 lf_underrun) (\<lambda>len.
     if len = 0 then throw (RuntimeError label)
     else if len > max_logical_schema_id_len b
     then throw (LengthError ''logical schema id exceeds max_logical_schema_id_len'')
     else bindM (fetch lf_underrun (unat len)) (\<lambda>bs. ret (string_of_bytes bs)))"

definition read_kind :: "(cursor, logical_table_kind) io" where
  "read_kind = bindM (fetch_u16 lf_underrun) (\<lambda>value.
     if value = 3 then ret AnyValue
     else if value = 4 then ret HashedKeyValue
     else if value = 5 then ret KeyValue
     else if value = 6 then ret KeyTable
     else if value = 1 then ret KeyMultiValue
     else if value = 2 then ret KeyOrderedMultiValue
     else if value = 7 then ret VectorStore
     else throw (RuntimeError ''Invalid logical table kind''))"

definition read_payload :: "codec_bounds \<Rightarrow> (cursor, bytes) io" where
  "read_payload b = bindM (fetch_u32 lf_underrun) (\<lambda>len.
     if len > max_value_len b then throw (LengthError ''logical payload exceeds max_value_len'')
     else fetch lf_underrun (unat len))"

definition read_change :: "codec_bounds \<Rightarrow> (cursor, logical_change) io" where
  "read_change b =
    bindM (lf_read_string b ''LogicalChange schema id is empty'') (\<lambda>i.
    bindM read_kind (\<lambda>k.
    bindM (fetch_u32 lf_underrun) (\<lambda>ver.
    if ver = 0 then throw (RuntimeError ''LogicalChange schema version is zero'') else
    bindM (fetch_u32 lf_underrun) (\<lambda>code.
    bindM (fetch_u32 lf_underrun) (\<lambda>fl.
    if fl \<noteq> 0 then throw (RuntimeError ''LogicalChange flags are reserved and must be zero'') else
    bindM (read_payload b) (\<lambda>p.
    ret \<lparr>change_schema = \<lparr>schema_id = i, schema_kind = k, schema_version = ver\<rparr>, opcode = code,
         change_flags = fl, payload = p\<rparr>))))))"

definition lf_read_frame :: "codec_bounds \<Rightarrow> (cursor, logical_change_frame) io" where
  "lf_read_frame b =
    bindM lf_check_header (\<lambda>_.
    bindM (fetch_u32 lf_underrun) (\<lambda>count.
    if count > max_ops_per_batch b then throw (LengthError ''logical changes exceed max_ops_per_batch'') else
    bindM (repeatM (unat count) (read_change b)) (\<lambda>cs. ret \<lparr>changes = cs\<rparr>)))"

definition lf_decode :: "bytes \<Rightarrow> codec_bounds option \<Rightarrow> exn + logical_change_frame" where
  "lf_decode data bounds = (let b = effective_bounds bounds in
     if exceeds (length data) (max_transport_message_bytes b)
     then Inl (LengthError ''logical frame exceeds max_transport_message_bytes'')
     else decode_with (bindM (lf_read_frame b)
       (consumed (RuntimeError ''Trailing bytes after logical frame''))) data)"

section \<open>The delivery envelope\<close>

record logical_delivery_envelope =
  destination_db_uuid :: db_id
  env_origin_node_id :: node_id
  origin_sequence :: u64
  frame_id :: string
  env_frame :: logical_change_frame

datatype logical_delivery_order_status = InOrder | SequenceBehindWatermark | SequenceGap

record logical_delivery_order_result =
  order_status :: logical_delivery_order_status
  expected_sequence :: u64
  observed_sequence :: u64

definition can_apply_without_buffering :: "logical_delivery_order_result \<Rightarrow> bool" where
  "can_apply_without_buffering r \<longleftrightarrow> order_status r = InOrder"

definition check_logical_delivery_order ::
    "logical_delivery_envelope \<Rightarrow> u64 \<Rightarrow> logical_delivery_order_result" where
  "check_logical_delivery_order e expected =
    \<lparr>order_status = (if origin_sequence e = expected then InOrder
       else if origin_sequence e < expected then SequenceBehindWatermark else SequenceGap),
     expected_sequence = expected, observed_sequence = origin_sequence e\<rparr>"

definition is_logical_delivery_envelope_complete :: "logical_delivery_envelope \<Rightarrow> bool" where
  "is_logical_delivery_envelope_complete e \<longleftrightarrow>
     \<not> is_zero_sync_id (destination_db_uuid e) \<and> \<not> is_zero_sync_id (env_origin_node_id e) \<and>
     origin_sequence e \<noteq> 0 \<and> frame_id e \<noteq> []"

definition validate_logical_delivery_envelope ::
    "logical_delivery_envelope \<Rightarrow> codec_bounds option \<Rightarrow> exn + unit" where
  "validate_logical_delivery_envelope e bounds = (let b = effective_bounds bounds in seqE [
     refuse (\<not> is_logical_delivery_envelope_complete e)
       (RuntimeError ''Logical delivery envelope identity is incomplete''),
     refuse (exceeds (length (frame_id e)) (max_logical_delivery_frame_id_len b))
       (LengthError ''logical delivery frame id exceeds max_logical_delivery_frame_id_len'')])"

definition ld_magic :: bytes where "ld_magic = bytes_of_string ''MDBXCLDE''"

definition ld_codec_version :: u16 where "ld_codec_version = 1"

definition ld_underrun :: exn where
  "ld_underrun = RuntimeError ''Logical delivery envelope codec buffer underrun''"

definition ld_append_bytes :: "codec_bounds \<Rightarrow> bytes \<Rightarrow> appender" where
  "ld_append_bytes b = capA (LengthError ''logical delivery envelope size overflow'')
     (LengthError ''logical delivery envelope exceeds max_transport_message_bytes'')
     (max_transport_message_bytes b)"

definition ld_append_u32_size :: "codec_bounds \<Rightarrow> nat \<Rightarrow> string \<Rightarrow> appender" where
  "ld_append_u32_size b = sizeA (LengthError ''logical delivery envelope size overflow'')
     (LengthError ''logical delivery envelope exceeds max_transport_message_bytes'')
     (max_transport_message_bytes b)"

definition ld_append_string :: "codec_bounds \<Rightarrow> string \<Rightarrow> appender" where
  "ld_append_string b s = runA [
     guardA (s = []) (RuntimeError ''Logical delivery envelope frame id is empty''),
     guardA (exceeds (length s) (max_logical_delivery_frame_id_len b))
       (LengthError ''logical delivery frame id exceeds max_logical_delivery_frame_id_len''),
     ld_append_u32_size b (length s) ''logical delivery frame id length exceeds u32'',
     ld_append_bytes b (bytes_of_string s)]"

definition ld_encode :: "logical_delivery_envelope \<Rightarrow> codec_bounds option \<Rightarrow> exn + bytes" where
  "ld_encode e bounds = (let b = effective_bounds bounds in
     case validate_logical_delivery_envelope e (Some b) of Inl x \<Rightarrow> Inl x | Inr _ \<Rightarrow>
     (case lf_encode (env_frame e) (Some b) of Inl x \<Rightarrow> Inl x | Inr frame_bytes \<Rightarrow> runA [
       ld_append_bytes b ld_magic,
       ld_append_bytes b (write_u16_le ld_codec_version),
       ld_append_bytes b (write_u32_le 0),
       ld_append_bytes b (destination_db_uuid e),
       ld_append_bytes b (env_origin_node_id e),
       ld_append_bytes b (write_u64_le (origin_sequence e)),
       ld_append_string b (frame_id e),
       ld_append_u32_size b (length frame_bytes) ''logical delivery frame length exceeds u32'',
       ld_append_bytes b frame_bytes] []))"

subsection \<open>Decoding\<close>

definition ld_check_header :: "(cursor, unit) io" where
  "ld_check_header =
    bindM (fetch ld_underrun 8) (\<lambda>m.
     if m \<noteq> ld_magic then throw (RuntimeError ''Logical delivery envelope magic mismatch'') else
     bindM (fetch_u16 ld_underrun) (\<lambda>ver.
     if ver \<noteq> ld_codec_version
     then throw (RuntimeError ''Unsupported logical delivery envelope codec_version'') else
     bindM (fetch_u32 ld_underrun) (\<lambda>fl.
     if fl \<noteq> 0 then throw (RuntimeError ''Unknown mandatory logical delivery envelope flags'') else ret ())))"

definition ld_read_string :: "codec_bounds \<Rightarrow> (cursor, string) io" where
  "ld_read_string b =
    bindM (fetch_u32 ld_underrun) (\<lambda>len.
     if len = 0 then throw (RuntimeError ''Logical delivery envelope frame id is empty'')
     else if len > max_logical_delivery_frame_id_len b
     then throw (LengthError ''logical delivery frame id exceeds max_logical_delivery_frame_id_len'')
     else bindM (fetch ld_underrun (unat len)) (\<lambda>bs. ret (string_of_bytes bs)))"

text \<open>The nested frame: its size, its bytes, and their decoding.\<close>

definition ld_read_nested :: "codec_bounds \<Rightarrow> (cursor, logical_change_frame) io" where
  "ld_read_nested b =
    bindM (fetch_u32 ld_underrun) (\<lambda>frame_size.
    bindM (fetch ld_underrun (unat frame_size)) (\<lambda>nested. liftE (lf_decode nested (Some b))))"

definition ld_read_envelope :: "codec_bounds \<Rightarrow> (cursor, logical_delivery_envelope) io" where
  "ld_read_envelope b =
    bindM ld_check_header (\<lambda>_.
    bindM (fetch ld_underrun 16) (\<lambda>db.
    bindM (fetch ld_underrun 16) (\<lambda>node.
    bindM (fetch_u64 ld_underrun) (\<lambda>sq.
    bindM (ld_read_string b) (\<lambda>i.
    bindM (ld_read_nested b) (\<lambda>fr.
    let e = \<lparr>destination_db_uuid = db, env_origin_node_id = node, origin_sequence = sq, frame_id = i,
             env_frame = fr\<rparr> in
    bindM (liftE (validate_logical_delivery_envelope e (Some b))) (\<lambda>_. ret e)))))))"

definition ld_decode :: "bytes \<Rightarrow> codec_bounds option \<Rightarrow> exn + logical_delivery_envelope" where
  "ld_decode data bounds = (let b = effective_bounds bounds in
     if exceeds (length data) (max_transport_message_bytes b)
     then Inl (LengthError ''logical delivery envelope exceeds max_transport_message_bytes'')
     else decode_with (bindM (ld_read_envelope b)
       (consumed (RuntimeError ''Trailing bytes after logical delivery envelope''))) data)"

section \<open>The canonical encodings\<close>

definition change_bytes :: "logical_change \<Rightarrow> bytes" where
  "change_bytes c = put_bytes (bytes_of_string (schema_id (change_schema c))) @
     write_u16_le (table_kind_code (schema_kind (change_schema c))) @
     write_u32_le (schema_version (change_schema c)) @ write_u32_le (opcode c) @
     write_u32_le (change_flags c) @ put_bytes (payload c)"

definition change_ok :: "codec_bounds \<Rightarrow> logical_change \<Rightarrow> bool" where
  "change_ok b c \<longleftrightarrow> is_logical_schema_ref_complete (change_schema c) \<and> change_flags c = 0 \<and>
     length (schema_id (change_schema c)) \<le> unat (max_logical_schema_id_len b) \<and>
     length (payload c) \<le> unat (max_value_len b)"

definition frame_bytes :: "logical_change_frame \<Rightarrow> bytes" where
  "frame_bytes fr = (lf_magic @ write_u16_le lf_codec_version @ write_u32_le 0) @
     write_u32_le (u32_of_size (length (changes fr))) @ concat (map change_bytes (changes fr))"

definition frame_ok :: "codec_bounds \<Rightarrow> logical_change_frame \<Rightarrow> bool" where
  "frame_ok b fr \<longleftrightarrow> length (changes fr) \<le> unat (max_ops_per_batch b) \<and>
     (\<forall>c \<in> set (changes fr). change_ok b c)"

lemma le_u32_small: "n \<le> unat (l :: u32) \<Longrightarrow> n < 2 ^ 32"
proof -
  have "unat l < 2 ^ 32" using unsigned_less [of l] by simp
  then show "n \<le> unat l \<Longrightarrow> n < 2 ^ 32" by simp
qed

lemma string_of_bytes_eq_Nil [simp]: "string_of_bytes bs = [] \<longleftrightarrow> bs = []"
  by (simp add: string_of_bytes_def)

lemma exceeds_u32: "l < (n :: u32) \<longleftrightarrow> exceeds (unat n) l"
  by (simp add: word_less_nat_alt)

subsection \<open>The encoders\<close>

lemmas lf_appenders = lf_append_bytes_def lf_append_u32_size_def

lemma emits_append_change:
  "emits (max_transport_message_bytes b) (append_change b c) (change_ok b c) (change_bytes c)"
  unfolding append_change_def lf_append_string_def append_kind_def append_payload_def lf_appenders
  by (rule emits_cong, (rule emits_intros)+)
     (auto simp: change_ok_def change_bytes_def put_bytes_def is_logical_schema_ref_complete_def
        not_less dest: le_u32_small)

lemma emits_check_size: "emits lim (\<lambda>out. guardA (exceeds (length out) lim) e out) True []"
  by (auto simp: emits_def guardA_def)

lemma lf_encode_iff:
  assumes "b = effective_bounds bounds"
  shows "lf_encode fr bounds = Inr data \<longleftrightarrow>
    frame_ok b fr \<and> data = frame_bytes fr \<and> length data \<le> unat (max_transport_message_bytes b)"
proof -
  have "emits (max_transport_message_bytes b) (runA [
     guardA (exceeds (length (changes fr)) (max_ops_per_batch b))
       (LengthError ''logical changes exceed max_ops_per_batch''),
     lf_append_bytes b lf_magic,
     lf_append_bytes b (write_u16_le lf_codec_version),
     lf_append_bytes b (write_u32_le 0),
     lf_append_u32_size b (length (changes fr)) ''logical change count exceeds u32'',
     runA (map (append_change b) (changes fr)),
     (\<lambda>out. guardA (exceeds (length out) (max_transport_message_bytes b))
       (LengthError ''logical frame exceeds max_transport_message_bytes'') out)])
    (frame_ok b fr) (frame_bytes fr)"
    unfolding lf_appenders
    by (rule emits_cong, (rule emits_map [OF emits_append_change] emits_check_size emits_intros)+)
       (auto simp: frame_ok_def frame_bytes_def not_less dest: le_u32_small)
  from emitsD [OF this, of data] show ?thesis
    unfolding lf_encode_def Let_def assms [symmetric] by auto
qed

subsection \<open>The decoders\<close>

lemma mirrors_lf_check_header:
  "mirrors lf_check_header (\<lambda>_. lf_magic @ write_u16_le lf_codec_version @ write_u32_le 0) (\<lambda>_. True)"
  unfolding lf_check_header_def
  by (rule mirrors_field [OF mirrors_fetch] mirrors_guard mirrors_field [OF mirrors_fetch_int(1)]
      mirrors_field_last [OF mirrors_fetch_int(2)] mirrors_ret | simp)+

lemma mirrors_lf_read_string:
  "mirrors (lf_read_string b label) (\<lambda>s. put_bytes (bytes_of_string s))
     (\<lambda>s. s \<noteq> [] \<and> length s \<le> unat (max_logical_schema_id_len b))"
  unfolding lf_read_string_def
  by (intro mirrors_sized mirrors_guard mirrors_map [OF mirrors_fetch])
     (auto simp: exceeds_u32 not_less unat_eq_0)

lemma mirrors_read_kind:
  "mirrors read_kind (\<lambda>k. write_u16_le (table_kind_code k)) is_known_logical_table_kind"
  unfolding read_kind_def
  by (rule mirrors_field_last [OF mirrors_fetch_int(1)] mirrors_if mirrors_throw mirrors_ret
      | simp add: table_kind_code_def is_known_logical_table_kind_def)+

lemma mirrors_read_payload:
  "mirrors (read_payload b) put_bytes (\<lambda>p. length p \<le> unat (max_value_len b))"
  unfolding read_payload_def
  by (rule mirrors_sized [of _ "\<lambda>p. p"], rule mirrors_guard, rule mirrors_mono [OF mirrors_fetch])
     (auto simp: exceeds_u32 not_less)

lemmas mirrors_change_fields =
  mirrors_field [OF mirrors_lf_read_string] mirrors_field [OF mirrors_read_kind]
  mirrors_field [OF mirrors_fetch_int(2)] mirrors_field_last [OF mirrors_read_payload]

lemma mirrors_read_change: "mirrors (read_change b) change_bytes (change_ok b)"
  unfolding read_change_def change_bytes_def
  by (rule mirrors_change_fields mirrors_guard mirrors_ret
      | simp add: change_ok_def is_logical_schema_ref_complete_def)+

lemma mirrors_lf_read_frame: "mirrors (lf_read_frame b) frame_bytes (frame_ok b)"
  unfolding lf_read_frame_def frame_bytes_def
  by (rule mirrors_field [OF mirrors_lf_check_header] mirrors_field [OF mirrors_fetch_int(2)]
      mirrors_guard mirrors_field_last [OF mirrors_repeatM [OF mirrors_read_change]] mirrors_ret
      | simp add: frame_ok_def exceeds_u32 not_less)+

lemma reads_lf_check_header:
  "reads lf_check_header (lf_magic @ write_u16_le lf_codec_version @ write_u32_le 0) ()"
  unfolding lf_check_header_def
  by (rule reads_bindM reads_fetch reads_if_False reads_fetch_u16 reads_bindM_last [OF reads_fetch_u32]
      reads_ret | simp add: lf_magic_def)+

lemma reads_lf_read_string:
  assumes "s \<noteq> []" "length s \<le> unat (max_logical_schema_id_len b)"
  shows "reads (lf_read_string b label) (put_bytes (bytes_of_string s)) s"
  unfolding lf_read_string_def using assms le_u32_small [OF assms(2)]
  by (intro reads_sized reads_if_False reads_bindM_last [OF reads_fetch] reads_retI)
     (auto simp: exceeds_u32 not_less unat_eq_0)

lemma reads_read_kind:
  "is_known_logical_table_kind k \<Longrightarrow> reads read_kind (write_u16_le (table_kind_code k)) k"
  unfolding read_kind_def
  by (rule reads_bindM_last [OF reads_fetch_u16], cases k)
     (auto simp: table_kind_code_def is_known_logical_table_kind_def intro: reads_ret)

lemma reads_read_payload:
  assumes "length p \<le> unat (max_value_len b)"
  shows "reads (read_payload b) (put_bytes p) p"
  unfolding read_payload_def using assms le_u32_small [OF assms]
  by (intro reads_sized reads_if_False reads_fetch) (auto simp: exceeds_u32 not_less)

lemma reads_read_change: "change_ok b c \<Longrightarrow> reads (read_change b) (change_bytes c) c"
  unfolding read_change_def change_bytes_def
  by (rule reads_bindM [OF reads_lf_read_string] reads_bindM [OF reads_read_kind]
      reads_bindM [OF reads_fetch_u32] reads_if_False reads_bindM_last [OF reads_read_payload] reads_retI
      | simp add: change_ok_def is_logical_schema_ref_complete_def)+

lemma reads_lf_read_frame:
  assumes "frame_ok b fr"
  shows "reads (lf_read_frame b) (frame_bytes fr) fr"
proof -
  have n: "unat (u32_of_size (length (changes fr))) = length (changes fr)"
    using assms by (auto simp: frame_ok_def unat_of_nat dest: le_u32_small)
  have "reads (repeatM (length (changes fr)) (read_change b)) (concat (map change_bytes (changes fr))) (changes fr)"
    using assms by (intro reads_repeatM reads_read_change) (simp add: frame_ok_def)
  then show ?thesis
    unfolding lf_read_frame_def frame_bytes_def using assms
    by (intro reads_bindM [OF reads_lf_check_header] reads_bindM [OF reads_fetch_u32] reads_if_False)
       (auto simp: n frame_ok_def exceeds_u32 not_less intro!: reads_bindM_last reads_retI)
qed

lemma lf_decode_iff:
  assumes "b = effective_bounds bounds"
  shows "lf_decode data bounds = Inr fr \<longleftrightarrow>
    frame_ok b fr \<and> data = frame_bytes fr \<and> length data \<le> unat (max_transport_message_bytes b)"
  unfolding lf_decode_def Let_def assms [symmetric]
  using decode_consumed_iff [OF mirrors_lf_read_frame reads_lf_read_frame, of b]
  by auto

section \<open>The envelope is canonical as well\<close>

definition envelope_bytes :: "logical_delivery_envelope \<Rightarrow> bytes" where
  "envelope_bytes e = (ld_magic @ write_u16_le ld_codec_version @ write_u32_le 0) @
     destination_db_uuid e @ env_origin_node_id e @ write_u64_le (origin_sequence e) @
     put_bytes (bytes_of_string (frame_id e)) @ put_bytes (frame_bytes (env_frame e))"

definition envelope_ok :: "codec_bounds \<Rightarrow> logical_delivery_envelope \<Rightarrow> bool" where
  "envelope_ok b e \<longleftrightarrow> is_logical_delivery_envelope_complete e \<and>
     length (frame_id e) \<le> unat (max_logical_delivery_frame_id_len b) \<and> frame_ok b (env_frame e) \<and>
     length (frame_bytes (env_frame e)) \<le> unat (max_transport_message_bytes b)"

definition envelope_typed :: "logical_delivery_envelope \<Rightarrow> bool" where
  "envelope_typed e \<longleftrightarrow> is_node_id (destination_db_uuid e) \<and> is_node_id (env_origin_node_id e)"

lemma validate_envelope_Inr [simp]:
  "validate_logical_delivery_envelope e (Some b) = Inr u \<longleftrightarrow> is_logical_delivery_envelope_complete e \<and>
     length (frame_id e) \<le> unat (max_logical_delivery_frame_id_len b)"
  by (auto simp: validate_logical_delivery_envelope_def effective_bounds_def not_less)

lemma ld_encode_iff:
  assumes "b = effective_bounds bounds"
  shows "ld_encode e bounds = Inr data \<longleftrightarrow> envelope_ok b e \<and> data = envelope_bytes e \<and>
    length data \<le> unat (max_transport_message_bytes b)"
proof -
  let ?run = "\<lambda>frame. runA [
       ld_append_bytes b ld_magic,
       ld_append_bytes b (write_u16_le ld_codec_version),
       ld_append_bytes b (write_u32_le 0),
       ld_append_bytes b (destination_db_uuid e),
       ld_append_bytes b (env_origin_node_id e),
       ld_append_bytes b (write_u64_le (origin_sequence e)),
       ld_append_string b (frame_id e),
       ld_append_u32_size b (length frame) ''logical delivery frame length exceeds u32'',
       ld_append_bytes b frame]"
  have run: "emits (max_transport_message_bytes b) (?run (frame_bytes (env_frame e))) True (envelope_bytes e)"
    if "envelope_ok b e"
    unfolding ld_append_string_def ld_append_bytes_def ld_append_u32_size_def
    by (rule emits_cong, (rule emits_intros)+)
       (use that in \<open>auto simp: envelope_ok_def is_logical_delivery_envelope_complete_def envelope_bytes_def
          put_bytes_def not_less dest: le_u32_small\<close>)
  have fr: "lf_encode (env_frame e) (Some b) = Inr fb \<longleftrightarrow> frame_ok b (env_frame e) \<and>
      fb = frame_bytes (env_frame e) \<and> length fb \<le> unat (max_transport_message_bytes b)" for fb
    by (rule lf_encode_iff) (simp add: effective_bounds_def)
  have "ld_encode e bounds = Inr data \<longleftrightarrow> envelope_ok b e \<and> ?run (frame_bytes (env_frame e)) [] = Inr data"
    unfolding ld_encode_def Let_def assms [symmetric]
    by (auto simp: case_sum_Inr envelope_ok_def fr simp del: runA.simps)
  then show ?thesis using emitsD [OF run, of data] by auto
qed

lemma mirrors_ld_check_header:
  "mirrors ld_check_header (\<lambda>_. ld_magic @ write_u16_le ld_codec_version @ write_u32_le 0) (\<lambda>_. True)"
  unfolding ld_check_header_def
  by (rule mirrors_field [OF mirrors_fetch] mirrors_guard mirrors_field [OF mirrors_fetch_int(1)]
      mirrors_field_last [OF mirrors_fetch_int(2)] mirrors_ret | simp)+

lemma reads_ld_check_header:
  "reads ld_check_header (ld_magic @ write_u16_le ld_codec_version @ write_u32_le 0) ()"
  unfolding ld_check_header_def
  by (rule reads_bindM reads_fetch reads_if_False reads_fetch_u16 reads_bindM_last [OF reads_fetch_u32]
      reads_ret | simp add: ld_magic_def)+

lemma mirrors_ld_read_string:
  "mirrors (ld_read_string b) (\<lambda>s. put_bytes (bytes_of_string s))
     (\<lambda>s. s \<noteq> [] \<and> length s \<le> unat (max_logical_delivery_frame_id_len b))"
  unfolding ld_read_string_def
  by (intro mirrors_sized mirrors_guard mirrors_map [OF mirrors_fetch])
     (auto simp: exceeds_u32 not_less unat_eq_0)

lemma reads_ld_read_string:
  assumes "s \<noteq> []" "length s \<le> unat (max_logical_delivery_frame_id_len b)"
  shows "reads (ld_read_string b) (put_bytes (bytes_of_string s)) s"
  unfolding ld_read_string_def using assms le_u32_small [OF assms(2)]
  by (intro reads_sized reads_if_False reads_bindM_last [OF reads_fetch] reads_retI)
     (auto simp: exceeds_u32 not_less unat_eq_0)

lemma lf_decode_Some_iff:
  "lf_decode data (Some b) = Inr fr \<longleftrightarrow>
    frame_ok b fr \<and> data = frame_bytes fr \<and> length data \<le> unat (max_transport_message_bytes b)"
  by (rule lf_decode_iff) (simp add: effective_bounds_def)

lemma mirrors_ld_read_nested:
  "mirrors (ld_read_nested b) (\<lambda>fr. put_bytes (frame_bytes fr))
     (\<lambda>fr. frame_ok b fr \<and> length (frame_bytes fr) \<le> unat (max_transport_message_bytes b))"
  unfolding ld_read_nested_def
proof (rule mirrors_sized)
  fix n :: u32
  show "mirrors (bindM (fetch ld_underrun (unat n)) (\<lambda>nested. liftE (lf_decode nested (Some b))))
     frame_bytes (\<lambda>fr. (frame_ok b fr \<and> length (frame_bytes fr) \<le> unat (max_transport_message_bytes b)) \<and>
       length (frame_bytes fr) = unat n)"
    by (rule mirrors_field_last [OF mirrors_fetch])
       (auto simp: mirrors_def liftE_def run_simps lf_decode_Some_iff split: sum.splits)
qed

lemma reads_ld_read_nested:
  assumes "frame_ok b fr" "length (frame_bytes fr) \<le> unat (max_transport_message_bytes b)"
  shows "reads (ld_read_nested b) (put_bytes (frame_bytes fr)) fr"
proof -
  have "lf_decode (frame_bytes fr) (Some b) = Inr fr" using assms by (simp add: lf_decode_Some_iff)
  then show ?thesis unfolding ld_read_nested_def
    by (intro reads_sized reads_bindM_last [OF reads_fetch] le_u32_small [OF assms(2)])
       (auto simp: liftE_def reads_ret)
qed

lemmas mirrors_envelope_fields =
  mirrors_field [OF mirrors_ld_check_header] mirrors_field [OF mirrors_fetch]
  mirrors_field [OF mirrors_fetch_int(3)] mirrors_field [OF mirrors_ld_read_string]
  mirrors_field_last [OF mirrors_ld_read_nested]

lemma mirrors_ld_read_envelope:
  "mirrors (ld_read_envelope b) envelope_bytes (\<lambda>e. envelope_ok b e \<and> envelope_typed e)"
  unfolding ld_read_envelope_def envelope_bytes_def Let_def
  by (rule mirrors_envelope_fields mirrors_liftE mirrors_ret
      | simp add: envelope_ok_def envelope_typed_def is_node_id_def)+

lemma reads_ld_read_envelope:
  assumes "envelope_ok b e" "envelope_typed e"
  shows "reads (ld_read_envelope b) (envelope_bytes e) e"
proof (cases e)
  case (fields db node sq i fr)
  have "validate_logical_delivery_envelope e (Some b) = Inr ()" using assms by (simp add: envelope_ok_def)
  then have "reads (bindM (liftE (validate_logical_delivery_envelope e (Some b))) (\<lambda>_. ret e)) [] e"
    by (simp only: liftE_def sum.case bindM_ret reads_ret)
  then show ?thesis
    unfolding ld_read_envelope_def envelope_bytes_def Let_def using assms
    by (intro reads_bindM [OF reads_ld_check_header] reads_bindM [OF reads_fetch]
        reads_bindM [OF reads_fetch_u64] reads_bindM [OF reads_ld_read_string]
        reads_bindM_last [OF reads_ld_read_nested])
       (auto simp: fields envelope_ok_def envelope_typed_def is_node_id_def
          is_logical_delivery_envelope_complete_def)
qed

lemma ld_decode_iff:
  assumes "b = effective_bounds bounds"
  shows "ld_decode data bounds = Inr e \<longleftrightarrow> envelope_ok b e \<and> envelope_typed e \<and>
    data = envelope_bytes e \<and> length data \<le> unat (max_transport_message_bytes b)"
  unfolding ld_decode_def Let_def assms [symmetric]
  using decode_consumed_iff [OF mirrors_ld_read_envelope reads_ld_read_envelope, of b]
  by auto

section \<open>Properties\<close>

text \<open>C28. The wire format of the delivery envelope is canonical, in both directions at once: for an
  envelope whose two identities have their 16 bytes, the decoder returns the envelope from a byte string
  exactly when the encoder produces that byte string from the envelope. So every encoded envelope
  decodes to itself, every accepted byte string is the only encoding of what it decodes to, and
  anything one side refuses (oversized, incomplete, reserved flags, unknown table kind, trailing
  bytes) the other side refuses too.\<close>

theorem logical_envelope_canonical:
  assumes "envelope_typed e"
  shows "ld_decode data bounds = Inr e \<longleftrightarrow> ld_encode e bounds = Inr data"
  using assms ld_decode_iff [OF refl] ld_encode_iff [OF refl] by blast

definition sample_envelope :: logical_delivery_envelope where
  "sample_envelope = \<lparr>destination_db_uuid = replicate 16 7, env_origin_node_id = replicate 16 9,
     origin_sequence = 3, frame_id = ''f'', env_frame = \<lparr>changes = [
       \<lparr>change_schema = \<lparr>schema_id = ''s'', schema_kind = KeyTable, schema_version = 2\<rparr>, opcode = 5,
        change_flags = 0, payload = [1, 2]\<rparr>]\<rparr>\<rparr>"

theorem logical_envelope_canonical_witness:
  "(case ld_encode sample_envelope (Some example_chunk_bounds) of Inl _ \<Rightarrow> False
    | Inr data \<Rightarrow> length data = 106 \<and> ld_decode data (Some example_chunk_bounds) = Inr sample_envelope)"
proof -
  have typed: "envelope_typed sample_envelope" by code_simp
  have "case ld_encode sample_envelope (Some example_chunk_bounds) of Inl _ \<Rightarrow> False | Inr data \<Rightarrow> length data = 106"
    by code_simp
  then obtain data where "ld_encode sample_envelope (Some example_chunk_bounds) = Inr data" "length data = 106"
    by (auto split: sum.splits)
  then show ?thesis using logical_envelope_canonical [OF typed, of data "Some example_chunk_bounds"] by simp
qed

end
