(* ===== verification/Store_Base.thy ===== *)
theory Store_Base
  imports Mdbx_Api
begin

unbundle bit_operations_syntax

text \<open>
  What the store wrappers of \<^verbatim>\<open>include/mdbx_containers/sync/stores/\<close> share: the object
  state (environment, DBI name, handle, open flag), the two ways they open their DBI, and the
  contract of an opened store, under which the operations of each store are specified by their
  effect on the contents of the named tables.
\<close>

section \<open>Store objects\<close>

record store =
  m_env :: nat
  m_dbi_name :: string
  m_dbi :: nat
  m_open :: bool

definition new_store :: "nat \<Rightarrow> string \<Rightarrow> store" where
  "new_store env name = \<lparr>m_env = env, m_dbi_name = name, m_dbi = 0, m_open = False\<rparr>"

definition reset_open :: "store \<Rightarrow> store" where
  "reset_open st = st\<lparr>m_open := False\<rparr>"

definition ensure_open :: "string \<Rightarrow> store \<Rightarrow> ('t, unit) io" where
  "ensure_open msg st = (if \<not> m_open st then throw (LogicError msg) else ret ())"

text \<open>
  The \<open>open\<close> of \<open>AppliedStore\<close> and \<open>IdentityIndexStore\<close>: one attempt with \<open>MDBX_CREATE\<close>. The
  \<open>open\<close> of the others retries without it when the transaction is read-only. An exception leaves
  the object as it was.
\<close>

definition open_create :: "('t, 'c) mdbx \<Rightarrow> string \<Rightarrow> string \<Rightarrow> store \<Rightarrow> ('t, store) io" where
  "open_create M context msg st =
     thenM (checked_txn_env M (m_env st) context)
     (if m_open st then ret st else
      bindM (api_dbi_open M (c_str (m_dbi_name st)) (MDBX_CREATE M)) (\<lambda>(rc, h).
      thenM (check_mdbx rc msg) (ret (st\<lparr>m_dbi := h, m_open := True\<rparr>))))"

definition open_fallback :: "('t, 'c) mdbx \<Rightarrow> string \<Rightarrow> string \<Rightarrow> store \<Rightarrow> ('t, store) io" where
  "open_fallback M context msg st =
     thenM (checked_txn_env M (m_env st) context)
     (if m_open st then ret st else
      bindM (bindM (api_dbi_open M (c_str (m_dbi_name st)) (MDBX_CREATE M)) (\<lambda>(rc, h).
        if rc = MDBX_EACCESS then api_dbi_open M (c_str (m_dbi_name st)) 0 else ret (rc, h)))
      (\<lambda>(rc, h). thenM (check_mdbx rc msg) (ret (st\<lparr>m_dbi := h, m_open := True\<rparr>))))"

text \<open>\<open>open_existing\<close>: the result tells whether the DBI exists.\<close>

definition open_existing ::
  "('t, 'c) mdbx \<Rightarrow> string \<Rightarrow> string \<Rightarrow> store \<Rightarrow> ('t, bool \<times> store) io" where
  "open_existing M context msg st =
     thenM (checked_txn_env M (m_env st) context)
     (if m_open st then ret (True, st) else
      bindM (api_dbi_open M (c_str (m_dbi_name st)) 0) (\<lambda>(rc, h).
      if rc = MDBX_NOTFOUND then ret (False, st)
      else thenM (check_mdbx rc msg) (ret (True, st\<lparr>m_dbi := h, m_open := True\<rparr>))))"

section \<open>Views and their extension\<close>

text \<open>Every table of the reserved namespace is a plain one.\<close>

definition sys_ok :: "adb \<Rightarrow> bool" where
  "sys_ok a \<longleftrightarrow> (\<forall>n T. is_reserved_dbi_name n \<longrightarrow> a_tables a n = Some T \<longrightarrow> tflags T = 0)"

text \<open>
  \<open>grow a a'\<close>: the transaction has gone on from \<open>a\<close> to \<open>a'\<close>; its handles are still valid, its
  tables still there, and the reserved ones still plain. \<open>ext a a'\<close>: it has also left the user
  tables alone.
\<close>

definition grow :: "adb \<Rightarrow> adb \<Rightarrow> bool" where
  "grow a a' \<longleftrightarrow> a_env a' = a_env a \<and> a_writable a' = a_writable a \<and>
     a_handles a \<subseteq>\<^sub>m a_handles a' \<and> dom (a_tables a) \<subseteq> dom (a_tables a') \<and> (sys_ok a \<longrightarrow> sys_ok a')"

definition ext :: "adb \<Rightarrow> adb \<Rightarrow> bool" where
  "ext a a' \<longleftrightarrow> grow a a' \<and> (\<forall>n. \<not> is_reserved_dbi_name n \<longrightarrow> a_tables a' n = a_tables a n)"

lemma grow_refl [simp]: "grow a a"
  by (simp add: grow_def)

lemma ext_refl [simp]: "ext a a"
  by (simp add: ext_def)

lemma grow_trans: "grow a b \<Longrightarrow> grow b c \<Longrightarrow> grow a c"
  by (auto simp: grow_def intro: map_le_trans)

lemma ext_trans: "ext a b \<Longrightarrow> ext b c \<Longrightarrow> ext a c"
  by (auto simp: ext_def intro: grow_trans)

lemma ext_grow: "ext a a' \<Longrightarrow> grow a a'"
  by (simp add: ext_def)

text \<open>A store whose handle is usable.\<close>

definition bound :: "store \<Rightarrow> adb \<Rightarrow> bool" where
  "bound st a \<longleftrightarrow> m_open st \<and> a_env a = m_env st \<and> a_handles a (m_dbi st) = Some (m_dbi_name st) \<and>
     is_reserved_dbi_name (m_dbi_name st) \<and> sys_ok a"

lemma bound_grow: "bound st a \<Longrightarrow> grow a a' \<Longrightarrow> bound st a'"
  by (auto simp: bound_def grow_def map_le_def dom_def)

lemma bound_ext: "bound st a \<Longrightarrow> ext a a' \<Longrightarrow> bound st a'"
  by (blast intro: bound_grow ext_grow)

lemma bound_open: "bound st a \<Longrightarrow> m_open st" "bound st a \<Longrightarrow> a_env a = m_env st"
  by (simp_all add: bound_def)

text \<open>A store that can be opened: its name is a reserved C string.\<close>

definition openable :: "store \<Rightarrow> adb \<Rightarrow> bool" where
  "openable st a \<longleftrightarrow> a_env a = m_env st \<and> is_reserved_dbi_name (m_dbi_name st) \<and>
     c_str (m_dbi_name st) = m_dbi_name st \<and> sys_ok a \<and> (m_open st \<longrightarrow> bound st a)"

lemma openable_grow: "openable st a \<Longrightarrow> grow a a' \<Longrightarrow> openable st a'"
  by (auto simp: openable_def dest: bound_grow) (auto simp: grow_def)

lemma openable_ext: "openable st a \<Longrightarrow> ext a a' \<Longrightarrow> openable st a'"
  by (blast intro: openable_grow ext_grow)

definition same_store :: "store \<Rightarrow> store \<Rightarrow> bool" where
  "same_store st st' \<longleftrightarrow> m_env st' = m_env st \<and> m_dbi_name st' = m_dbi_name st"

lemma same_store_simps [simp]:
  "same_store st st" "same_store st (st\<lparr>m_dbi := h, m_open := b\<rparr>)"
  by (simp_all add: same_store_def)

lemma content_put_row:
  "a_tables a n = Some T \<Longrightarrow> content (put_row n k v a) = (content a)(n := (content a n)(k \<mapsto> v))"
  by (auto simp: content_def put_row_def set_rows_def fun_eq_iff)

lemma content_del_row:
  "a_tables a n = Some T \<Longrightarrow> content (del_row n k a) = (content a)(n := (content a n)(k := None))"
  by (auto simp: content_def del_row_def set_rows_def fun_eq_iff)

lemma content_clear_rows: "content (clear_rows n a) = (content a)(n := Map.empty)"
  by (auto simp: content_def clear_rows_def set_rows_def fun_eq_iff split: option.splits)

lemma grow_set_rows [simp]: "grow a (set_rows n r a)"
  by (auto simp: grow_def set_rows_def sys_ok_def split: option.splits if_splits)

lemma grow_rows [simp]: "grow a (put_row n k v a)" "grow a (del_row n k a)" "grow a (clear_rows n a)"
  by (simp_all add: put_row_def del_row_def clear_rows_def)

lemma ext_set_rows [simp]: "is_reserved_dbi_name n \<Longrightarrow> ext a (set_rows n r a)"
  unfolding ext_def using grow_set_rows [of a n r]
  by (auto simp: set_rows_def split: option.splits)

lemma ext_rows [simp]:
  "is_reserved_dbi_name n \<Longrightarrow> ext a (put_row n k v a)"
  "is_reserved_dbi_name n \<Longrightarrow> ext a (del_row n k a)"
  "is_reserved_dbi_name n \<Longrightarrow> ext a (clear_rows n a)"
  by (simp_all add: put_row_def del_row_def clear_rows_def)

lemma set_rows_sel [simp]:
  "a_writable (put_row n k v a) = a_writable a" "a_writable (del_row n k a) = a_writable a"
  "a_writable (clear_rows n a) = a_writable a"
  by (simp_all add: put_row_def del_row_def clear_rows_def set_rows_def split: option.splits)

lemma grow_writable: "grow a a' \<Longrightarrow> a_writable a' = a_writable a"
  by (simp add: grow_def)

lemma ext_writable: "ext a a' \<Longrightarrow> a_writable a' = a_writable a"
  by (simp add: ext_def grow_writable)

lemma single_plain: "tflags T = 0 \<Longrightarrow> single M T"
  by (simp add: single_def)

text \<open>Opening a table of the reserved namespace.\<close>

definition opened_view :: "string \<Rightarrow> nat \<Rightarrow> dbtable \<Rightarrow> adb \<Rightarrow> adb" where
  "opened_view n h T a =
     a\<lparr>a_tables := (a_tables a)(n \<mapsto> T), a_handles := (a_handles a)(h \<mapsto> n)\<rparr>"

lemma content_opened:
  "dbi_opened M fl (a_tables a n) T \<Longrightarrow> content (opened_view n h T a) = content a"
proof -
  assume "dbi_opened M fl (a_tables a n) T"
  then have "rows T = (case a_tables a n of None \<Rightarrow> Map.empty | Some T' \<Rightarrow> rows T')"
    by (cases "a_tables a n") (auto simp: dbi_opened_def)
  then show ?thesis
    by (simp add: content_def opened_view_def fun_eq_iff)
qed

lemma grow_opened:
  assumes "dbi_opened M fl (a_tables a n) T" and "a_handles a h \<in> {None, Some n}"
    and "is_reserved_dbi_name n \<longrightarrow> fl AND persistent_mask M = 0"
  shows "grow a (opened_view n h T a)"
proof -
  have "tflags T = 0" if "is_reserved_dbi_name n" "sys_ok a"
  proof (cases "a_tables a n")
    case (Some T')
    then have "T = T' \<or> tflags T = fl AND persistent_mask M"
      using assms(1) by (auto simp: dbi_opened_def)
    with that assms(3) Some show ?thesis unfolding sys_ok_def by metis
  qed (use that assms(1,3) in \<open>simp add: dbi_opened_def\<close>)
  then have "sys_ok a \<longrightarrow> sys_ok (opened_view n h T a)"
    by (simp add: sys_ok_def opened_view_def)
  moreover have "a_handles a \<subseteq>\<^sub>m (a_handles a)(h \<mapsto> n)"
    using assms(2) by (auto simp: map_le_def)
  ultimately show ?thesis
    by (auto simp: grow_def opened_view_def)
qed

lemma ext_opened:
  assumes "dbi_opened M fl (a_tables a n) T" and "a_handles a h \<in> {None, Some n}"
    and "is_reserved_dbi_name n" and "fl AND persistent_mask M = 0"
  shows "ext a (opened_view n h T a)"
  using assms grow_opened [OF assms(1,2)] by (auto simp: ext_def opened_view_def)

context mdbx_engine
begin

text \<open>Steps over an opened store.\<close>

lemma bound_table:
  assumes "bound st a" and "wf_view a"
  obtains T where "a_tables a (m_dbi_name st) = Some T" "tflags T = 0" "single M T"
    "content a (m_dbi_name st) = rows T" "a_handles a (m_dbi st) = Some (m_dbi_name st)"
proof -
  have h: "a_handles a (m_dbi st) = Some (m_dbi_name st)" and r: "is_reserved_dbi_name (m_dbi_name st)"
    "sys_ok a"
    using assms(1) by (simp_all add: bound_def)
  with assms(2) obtain T where T: "a_tables a (m_dbi_name st) = Some T"
    unfolding wf_view_def by blast
  with r have "tflags T = 0" unfolding sys_ok_def by blast
  then show ?thesis using h T by (intro that [OF T]) (simp_all add: single_plain content_def)
qed

lemma awp_ensure_open: "m_open st \<Longrightarrow> Q () a \<Longrightarrow> awp (ensure_open msg st) Q E a"
  by (auto simp: ensure_open_def intro: awp_ret)

lemma awp_checked_bound: "bound st a \<Longrightarrow> Q () a \<Longrightarrow> awp (checked_txn_env M (m_env st) c) Q E a"
  by (rule awp_checked_txn_env) (auto dest: bound_open)

lemma awp_store_get:
  assumes "bound st a"
    and "\<And>v. content a (m_dbi_name st) k = Some v \<Longrightarrow> Q (MDBX_SUCCESS, v) a"
    and "\<And>v. content a (m_dbi_name st) k = None \<Longrightarrow> Q (MDBX_NOTFOUND, v) a"
    and "\<And>rc v. rc \<noteq> MDBX_SUCCESS \<Longrightarrow> rc \<noteq> MDBX_NOTFOUND \<Longrightarrow> fails rc \<Longrightarrow> Q (rc, v) a"
  shows "awp (api_get M (m_dbi st) k) Q E a"
proof (rule awp_wf)
  assume "wf_view a"
  from bound_table [OF assms(1) this] obtain T where T:
    "a_tables a (m_dbi_name st) = Some T" "single M T" "content a (m_dbi_name st) = rows T"
    "a_handles a (m_dbi st) = Some (m_dbi_name st)" by metis
  then show ?thesis by (intro awp_get [OF T(4,1,2)] assms(2-4)) auto
qed

lemma awp_store_put:
  assumes "bound st a" "a_writable a"
    and "\<And>a'. ext a a' \<Longrightarrow> bound st a' \<Longrightarrow>
      content a' = (content a)(m_dbi_name st := (content a (m_dbi_name st))(k \<mapsto> v)) \<Longrightarrow>
      (pf = MDBX_NOOVERWRITE \<longrightarrow> content a (m_dbi_name st) k = None) \<Longrightarrow> Q MDBX_SUCCESS a'"
    and "pf = MDBX_NOOVERWRITE \<Longrightarrow> content a (m_dbi_name st) k \<noteq> None \<Longrightarrow> Q MDBX_KEYEXIST a"
    and "\<And>rc a'. rc \<noteq> MDBX_SUCCESS \<Longrightarrow> rc \<noteq> MDBX_KEYEXIST \<Longrightarrow> fails rc \<Longrightarrow> Q rc a'"
  shows "awp (api_put M (m_dbi st) k v pf) Q E a"
proof (rule awp_wf)
  assume "wf_view a"
  from bound_table [OF assms(1) this] obtain T where T:
    "a_tables a (m_dbi_name st) = Some T" "single M T" "content a (m_dbi_name st) = rows T"
    "a_handles a (m_dbi st) = Some (m_dbi_name st)" by metis
  have "bound st (put_row (m_dbi_name st) k v a)" "is_reserved_dbi_name (m_dbi_name st)"
    using bound_grow [OF assms(1)] assms(1) by (simp, simp add: bound_def)
  with T show ?thesis
    by (intro awp_put [OF T(4,1,2) assms(2)] assms(3-5)) (auto simp: content_put_row)
qed

lemma awp_store_del:
  assumes "bound st a" "a_writable a"
    and "\<And>a'. ext a a' \<Longrightarrow> bound st a' \<Longrightarrow> content a (m_dbi_name st) k \<noteq> None \<Longrightarrow>
      content a' = (content a)(m_dbi_name st := (content a (m_dbi_name st))(k := None)) \<Longrightarrow>
      Q MDBX_SUCCESS a'"
    and "content a (m_dbi_name st) k = None \<Longrightarrow> Q MDBX_NOTFOUND a"
    and "\<And>rc a'. rc \<noteq> MDBX_SUCCESS \<Longrightarrow> rc \<noteq> MDBX_NOTFOUND \<Longrightarrow> fails rc \<Longrightarrow> Q rc a'"
  shows "awp (api_del M (m_dbi st) k) Q E a"
proof (rule awp_wf)
  assume "wf_view a"
  from bound_table [OF assms(1) this] obtain T where T:
    "a_tables a (m_dbi_name st) = Some T" "single M T" "content a (m_dbi_name st) = rows T"
    "a_handles a (m_dbi st) = Some (m_dbi_name st)" by metis
  have "bound st (del_row (m_dbi_name st) k a)" "is_reserved_dbi_name (m_dbi_name st)"
    using bound_grow [OF assms(1)] assms(1) by (simp, simp add: bound_def)
  with T show ?thesis
    by (intro awp_del [OF T(4,1,2) assms(2)] assms(3-5)) (auto simp: content_del_row)
qed

lemma awp_store_scan:
  assumes "bound st a"
    and "I (rows_where (admitted None op) (content a (m_dbi_name st))) acc"
    and "\<And>k v rest acc. I ((k, v) # rest) acc \<Longrightarrow> content a (m_dbi_name st) k = Some v \<Longrightarrow>
      awp (body k v acc) (\<lambda>acc' a'. a' = a \<and> I rest acc') E a"
    and "\<And>acc. I [] acc \<Longrightarrow> Q (acc, MDBX_NOTFOUND) a"
    and "\<And>acc rc. rc \<noteq> MDBX_SUCCESS \<Longrightarrow> rc \<noteq> MDBX_NOTFOUND \<Longrightarrow> fails rc \<Longrightarrow> Q (acc, rc) a"
    and "\<And>rc. fails rc \<Longrightarrow> E (MdbxException err rc)"
  shows "awp (scan_loop M (m_dbi st) op err body acc) Q E a"
proof (rule awp_wf)
  assume "wf_view a"
  from bound_table [OF assms(1) this] obtain T where T:
    "a_handles a (m_dbi st) = Some (m_dbi_name st)" "a_tables a (m_dbi_name st) = Some T"
    "tflags T = 0" "content a (m_dbi_name st) = rows T" by metis
  with assms show ?thesis by (intro awp_scan_loop [OF T(1-3), where I = I]) auto
qed

text \<open>Opening a store.\<close>

lemma bound_opened:
  assumes "openable st a" and "dbi_opened M fl (a_tables a (m_dbi_name st)) T"
    and "fl AND persistent_mask M = 0" and "a_handles a h \<in> {None, Some (m_dbi_name st)}"
  shows "ext a (opened_view (m_dbi_name st) h T a)"
    and "bound (st\<lparr>m_dbi := h, m_open := True\<rparr>) (opened_view (m_dbi_name st) h T a)"
proof -
  show e: "ext a (opened_view (m_dbi_name st) h T a)"
    using assms by (intro ext_opened) (auto simp: openable_def)
  with assms(1) show "bound (st\<lparr>m_dbi := h, m_open := True\<rparr>) (opened_view (m_dbi_name st) h T a)"
    by (simp add: bound_def openable_def ext_def grow_def) (simp add: opened_view_def)
qed

lemma awp_open_dbi:
  assumes st: "openable st a" and fl: "fl AND persistent_mask M = 0"
    and "\<And>h a'. ext a a' \<Longrightarrow> content a' = content a \<Longrightarrow> bound (st\<lparr>m_dbi := h, m_open := True\<rparr>) a' \<Longrightarrow>
      Q (MDBX_SUCCESS, h) a'"
    and "\<And>h. a_tables a (m_dbi_name st) = None \<Longrightarrow> fl AND MDBX_CREATE M = 0 \<Longrightarrow> Q (MDBX_NOTFOUND, h) a"
    and "\<And>h. \<not> a_writable a \<Longrightarrow> fl AND MDBX_CREATE M \<noteq> 0 \<Longrightarrow> Q (MDBX_EACCESS, h) a"
    and "\<And>rc h. rc \<noteq> MDBX_SUCCESS \<Longrightarrow> rc \<noteq> MDBX_NOTFOUND \<Longrightarrow> rc \<noteq> MDBX_EACCESS \<Longrightarrow> fails rc \<Longrightarrow>
      Q (rc, h) a"
  shows "awp (api_dbi_open M (c_str (m_dbi_name st)) fl) Q E a"
proof -
  have name: "c_str (m_dbi_name st) = m_dbi_name st" using st by (simp add: openable_def)
  have plain: "\<not> (a_tables a (m_dbi_name st) = Some T \<and> tflags T \<noteq> fl AND persistent_mask M)" for T
    using st fl by (auto simp: openable_def sys_ok_def)
  show ?thesis
    unfolding name
  proof (rule awp_dbi_open)
    fix h T
    assume "dbi_opened M fl (a_tables a (m_dbi_name st)) T"
      "a_handles a h \<in> {None, Some (m_dbi_name st)}"
    then show "Q (MDBX_SUCCESS, h) (a\<lparr>a_tables := (a_tables a)(m_dbi_name st \<mapsto> T),
        a_handles := (a_handles a)(h \<mapsto> m_dbi_name st)\<rparr>)"
      using assms(3) bound_opened [OF st _ fl] content_opened unfolding opened_view_def by blast
  next
    fix rc h T
    assume "a_tables a (m_dbi_name st) = Some T" "tflags T \<noteq> fl AND persistent_mask M"
    then show "Q (rc, h) a" using plain by blast
  qed (use assms(4-6) in auto)
qed

lemma awp_open_create:
  assumes st: "openable st a" and "a_writable a"
    and Q: "\<And>st' a'. ext a a' \<Longrightarrow> content a' = content a \<Longrightarrow> bound st' a' \<Longrightarrow> same_store st st' \<Longrightarrow> Q st' a'"
    and E: "\<And>c rc. fails rc \<Longrightarrow> E (MdbxException c rc)"
  shows "awp (open_create M ctx msg st) Q E a"
proof (cases "m_open st")
  case True
  with st have "bound st a" by (simp add: openable_def)
  with True show ?thesis
    unfolding open_create_def
    by (auto intro!: awp_thenM awp_checked_bound awp_ret Q)
next
  case False
  have "a_env a = m_env st" using st by (simp add: openable_def)
  with False assms(2) create_flag show ?thesis
    unfolding open_create_def
    by (auto intro!: awp_thenM awp_checked_txn_env awp_bindM awp_open_dbi [OF st create_not_persistent]
        awp_check awp_ret Q E)
qed

lemma awp_open_fallback:
  assumes st: "openable st a" and w: "a_writable a \<or> a_tables a (m_dbi_name st) \<noteq> None"
    and Q: "\<And>st' a'. ext a a' \<Longrightarrow> content a' = content a \<Longrightarrow> bound st' a' \<Longrightarrow> same_store st st' \<Longrightarrow> Q st' a'"
    and E: "\<And>c rc. fails rc \<Longrightarrow> E (MdbxException c rc)"
  shows "awp (open_fallback M ctx msg st) Q E a"
proof (cases "m_open st")
  case True
  with st have "bound st a" by (simp add: openable_def)
  with True show ?thesis
    unfolding open_fallback_def
    by (auto intro!: awp_thenM awp_checked_bound awp_ret Q)
next
  case False
  have env: "a_env a = m_env st" using st by (simp add: openable_def)
  let ?fin = "\<lambda>(rc, h). thenM (check_mdbx rc msg) (ret (st\<lparr>m_dbi := h, m_open := True\<rparr>))"
  let ?P = "\<lambda>r. awp (?fin r) Q E"
  have good: "?P (MDBX_SUCCESS, h) a'"
    if "ext a a'" "content a' = content a" "bound (st\<lparr>m_dbi := h, m_open := True\<rparr>) a'" for h a'
    using that by (auto intro!: awp_thenM awp_check awp_ret Q)
  have bad: "?P (rc, h) a" if "rc \<noteq> MDBX_SUCCESS" "fails rc" for rc h
    using that by (auto intro!: awp_thenM awp_check E)
  have ro: "awp (api_dbi_open M (c_str (m_dbi_name st)) 0) ?P E a" if "\<not> a_writable a"
    using that w good bad by (intro awp_open_dbi [OF st]) auto
  have "awp (api_dbi_open M (c_str (m_dbi_name st)) (MDBX_CREATE M))
      (\<lambda>(rc, h). awp (if rc = MDBX_EACCESS then api_dbi_open M (c_str (m_dbi_name st)) 0
        else ret (rc, h)) ?P E) E a"
    using create_flag good bad ro
    by (intro awp_open_dbi [OF st create_not_persistent]) (auto intro!: awp_ret)
  with False env show ?thesis
    unfolding open_fallback_def
    by (auto intro!: awp_thenM awp_checked_txn_env awp_bindM simp: case_prod_unfold)
qed

lemma awp_open_existing:
  assumes st: "openable st a"
    and yes: "\<And>st' a'. ext a a' \<Longrightarrow> content a' = content a \<Longrightarrow> bound st' a' \<Longrightarrow> same_store st st' \<Longrightarrow>
      Q (True, st') a'"
    and no: "a_tables a (m_dbi_name st) = None \<Longrightarrow> \<not> m_open st \<Longrightarrow> Q (False, st) a"
    and E: "\<And>c rc. fails rc \<Longrightarrow> E (MdbxException c rc)"
  shows "awp (open_existing M ctx msg st) Q E a"
proof (cases "m_open st")
  case True
  with st have "bound st a" by (simp add: openable_def)
  with True show ?thesis
    unfolding open_existing_def
    by (auto intro!: awp_thenM awp_checked_bound awp_ret yes)
next
  case False
  have "a_env a = m_env st" using st by (simp add: openable_def)
  with False show ?thesis
    unfolding open_existing_def
    by (auto intro!: awp_thenM awp_checked_txn_env awp_bindM awp_open_dbi [OF st]
        awp_check awp_ret awp_if yes no E)
qed

text \<open>A loop that deletes the rows it walks over, up to the first one where it stops.\<close>

lemma awp_store_cursor_del:
  assumes "bound st a" "a_writable a" "cursor_dbi c = m_dbi st" "cursor_at c = Some k"
    and "content a (m_dbi_name st) k \<noteq> None"
    and "\<And>c'. cursor_dbi c' = m_dbi st \<Longrightarrow> cursor_at c' = Some k \<Longrightarrow>
      Q (MDBX_SUCCESS, c') (del_row (m_dbi_name st) k a)"
    and "\<And>rc c' a'. rc \<noteq> MDBX_SUCCESS \<Longrightarrow> rc \<noteq> MDBX_NOTFOUND \<Longrightarrow> fails rc \<Longrightarrow> Q (rc, c') a'"
  shows "awp (api_cursor_del M c) Q E a"
proof (rule awp_wf)
  assume "wf_view a"
  from bound_table [OF assms(1) this] obtain T where T:
    "a_handles a (m_dbi st) = Some (m_dbi_name st)" "a_tables a (m_dbi_name st) = Some T"
    "tflags T = 0" "content a (m_dbi_name st) = rows T" by metis
  with assms show ?thesis by (intro awp_cursor_del [OF _ T(2,3), where k = k]) auto
qed

lemma awp_delete_walk:
  assumes st: "bound st a" "a_writable a" "cursor_dbi c = m_dbi st"
    and del: "\<And>k v c acc a'. \<not> stop k \<Longrightarrow> bound st a' \<Longrightarrow> a_writable a' \<Longrightarrow>
      cursor_dbi c = m_dbi st \<Longrightarrow> cursor_at c = Some k \<Longrightarrow> content a' (m_dbi_name st) k = Some v \<Longrightarrow>
      awp (body k v c acc) (\<lambda>l a''. \<exists>c'. l = Continue (Suc acc) c' \<and> cursor_dbi c' = m_dbi st \<and>
        cursor_at c' = Some k \<and> a'' = del_row (m_dbi_name st) k a') E a'"
    and brk: "\<And>k v c acc a'. stop k \<Longrightarrow> bound st a' \<Longrightarrow>
      awp (body k v c acc) (\<lambda>l a''. l = Break acc MDBX_SUCCESS \<and> a'' = a') E a'"
    and Q: "\<And>ks a' rc. ks = takeWhile (\<lambda>kv. \<not> stop (fst kv))
        (rows_where (admitted (cursor_at c) op) (content a (m_dbi_name st))) \<Longrightarrow>
      ext a a' \<Longrightarrow> bound st a' \<Longrightarrow> rc = MDBX_SUCCESS \<or> rc = MDBX_NOTFOUND \<Longrightarrow>
      content a' = (content a)(m_dbi_name st := content a (m_dbi_name st) |` (- set (map fst ks))) \<Longrightarrow>
      Q (length ks, rc) a'"
    and flt: "\<And>acc a' rc. rc \<noteq> MDBX_SUCCESS \<Longrightarrow> rc \<noteq> MDBX_NOTFOUND \<Longrightarrow> fails rc \<Longrightarrow> Q (acc, rc) a'"
    and n: "card (dom (content a (m_dbi_name st))) \<le> n"
  shows "awp (bindM (api_cursor_get M c op) (\<lambda>r. cursor_loop M (Suc n) body r 0)) Q E a"
proof (rule awp_wf)
  let ?n = "m_dbi_name st" and ?m = "content a (m_dbi_name st)"
  let ?ks = "rows_where (admitted (cursor_at c) op) ?m"
  assume "wf_view a"
  then have fin: "finite (dom ?m)"
    by (auto simp: wf_view_def content_def split: option.splits)
  obtain T0 where T0: "a_tables a ?n = Some T0" using bound_table [OF st(1) \<open>wf_view a\<close>] by metis
  have tab: "a_handles a' (m_dbi st) = Some ?n \<and> (\<exists>T. a_tables a' ?n = Some T \<and> tflags T = 0)"
    if "ext a a'" "bound st a'" for a'
    using that T0 by (auto simp: ext_def grow_def bound_def sys_ok_def subset_iff)
  let ?I = "\<lambda>ks acc a'. ext a a' \<and> bound st a' \<and> a_writable a' \<and>
    (\<exists>dn. ?ks = dn @ ks \<and> list_all (\<lambda>kv. \<not> stop (fst kv)) dn \<and> acc = length dn \<and>
      content a' = (content a)(?n := ?m |` (- set (map fst dn))))"
  show ?thesis
  proof (rule awp_cursor_loop [where I = ?I and n = ?n and h = "m_dbi st" and ks = ?ks])
    fix k v rest c acc a'
    assume I: "?I ((k, v) # rest) acc a'" and c: "cursor_dbi c = m_dbi st" "cursor_at c = Some k"
      and k: "content a' ?n k = Some v" "rest = rows_where (\<lambda>k'. k < k') (content a' ?n)"
    then obtain dn where d: "?ks = dn @ (k, v) # rest" "list_all (\<lambda>kv. \<not> stop (fst kv)) dn"
      "acc = length dn" "content a' = (content a)(?n := ?m |` (- set (map fst dn)))" by blast
    obtain T where T: "a_tables a' ?n = Some T" using k(1) by (auto simp: content_def split: option.splits)
    have I': "?I rest (Suc acc) (del_row ?n k a')" if "\<not> stop k"
    proof -
      have "content (del_row ?n k a') = (content a)(?n := ?m |` (- set (map fst (dn @ [(k, v)]))))"
        using d(4) content_del_row [OF T, of k] by (auto simp: restrict_map_def fun_eq_iff)
      moreover have "ext a (del_row ?n k a')" "bound st (del_row ?n k a')"
        "a_writable (del_row ?n k a')"
        using I st(1) by (auto intro: ext_trans [OF _ ext_rows(2)] bound_grow simp: bound_def [of st a])
      ultimately show ?thesis using d that by (intro conjI exI [of _ "dn @ [(k, v)]"]) auto
    qed
    have rest: "rest = rows_where (\<lambda>k'. k < k') (content (del_row ?n k a') ?n)"
      using k(2) content_del_row [OF T, of k] by (simp add: rows_where_del)
    have b: "bound st a'" "ext a a'" "a_writable a'" using I by blast+
    show "awp (body k v c acc) (\<lambda>l a''. case l of
        Continue acc' c' \<Rightarrow> cursor_dbi c' = m_dbi st \<and> cursor_at c' = Some k \<and> ?I rest acc' a'' \<and>
          rest = rows_where (\<lambda>k'. k < k') (content a'' ?n)
      | Break acc' rc \<Rightarrow> Q (acc', rc) a'') E a'"
    proof (cases "stop k")
      case True
      have dn: "dn = takeWhile (\<lambda>kv. \<not> stop (fst kv)) ?ks"
        unfolding d(1) using d(2) True by (simp add: takeWhile_append2 list_all_iff)
      have "Q (acc, MDBX_SUCCESS) a'"
        unfolding d(3) by (rule Q [OF dn b(2,1) _ d(4)]) simp
      with brk [OF True b(1), of v c acc] show ?thesis
        by (elim awp_conseq) simp_all
    next
      case False
      note step = I' [OF False] rest
      from del [OF False b(1,3) c k(1), of acc] show ?thesis
        by (rule awp_conseq) (elim exE conjE; simp only: loop.case; use step in blast)
    qed
  next
    fix acc a'
    assume I: "?I [] acc a'"
    then have l: "list_all (\<lambda>kv. \<not> stop (fst kv)) ?ks" and acc: "acc = length ?ks"
      and ct: "content a' = (content a)(?n := ?m |` (- set (map fst ?ks)))"
      and e: "ext a a'" "bound st a'"
      by (elim conjE exE; simp only: append_Nil2)+
    from l have "?ks = takeWhile (\<lambda>kv. \<not> stop (fst kv)) ?ks"
      by (simp only: list_all_iff takeWhile_eq_all_conv [THEN iffD2])
    from Q [OF this e _ ct, of MDBX_NOTFOUND] show "Q (acc, MDBX_NOTFOUND) a'"
      unfolding acc by simp
  next
    show "length ?ks < Suc n"
      using n length_rows_where [OF fin, of "admitted (cursor_at c) op"] by simp
  qed (use st tab flt in \<open>auto simp: restrict_map_def\<close>)
qed

end

end
