(* ===== verification/Meta_Store.thy ===== *)
theory Meta_Store
  imports Store_Base
begin

text \<open>
  \<^verbatim>\<open>include/mdbx_containers/sync/stores/MetaStore.hpp\<close>: the identity of the node and of the
  database, the schema version, and the counter of local batches.
\<close>

definition meta_schema_version :: u32 where "meta_schema_version = 1"

definition new_meta_store :: "nat \<Rightarrow> store" where
  "new_meta_store env = new_store env ''_mdbxc_meta''"

definition meta_open :: "('t, 'c) mdbx \<Rightarrow> store \<Rightarrow> ('t, store) io" where
  "meta_open M st = open_fallback M ''MetaStore::open'' ''Failed to open MetaStore DBI'' st"

definition meta_open_existing :: "('t, 'c) mdbx \<Rightarrow> store \<Rightarrow> ('t, bool \<times> store) io" where
  "meta_open_existing M st =
     open_existing M ''MetaStore::open_existing'' ''Failed to open existing MetaStore DBI'' st"

definition meta_ensure_open :: "store \<Rightarrow> ('t, unit) io" where
  "meta_ensure_open st = ensure_open ''MetaStore is not open'' st"

definition key_db_uuid :: u8 where "key_db_uuid = 0x01"
definition key_node_id :: u8 where "key_node_id = 0x02"
definition key_schema_version :: u8 where "key_schema_version = 0x03"
definition key_local_seq :: u8 where "key_local_seq = 0x04"
definition key_created_at_ms :: u8 where "key_created_at_ms = 0x05"

text \<open>
  \<open>read_fixed\<close> copies at most \<open>n\<close> bytes; its result is what it copied, so the C++ return value is
  the length of the list.
\<close>

definition read_fixed :: "('t, 'c) mdbx \<Rightarrow> store \<Rightarrow> u8 \<Rightarrow> nat \<Rightarrow> ('t, bytes) io" where
  "read_fixed M st key n =
     thenM (checked_txn_env M (m_env st) ''MetaStore::read'')
     (thenM (meta_ensure_open st)
     (bindM (api_get M (m_dbi st) [key]) (\<lambda>(rc, v).
        if rc = MDBX_NOTFOUND then ret []
        else thenM (check_mdbx rc ''MetaStore read failed'')
          (ret (take (if length v < n then length v else n) v)))))"

definition write_fixed :: "('t, 'c) mdbx \<Rightarrow> store \<Rightarrow> u8 \<Rightarrow> bytes \<Rightarrow> ('t, unit) io" where
  "write_fixed M st key src =
     thenM (checked_txn_env M (m_env st) ''MetaStore::write'')
     (thenM (meta_ensure_open st)
     (bindM (api_put M (m_dbi st) [key] src MDBX_UPSERT) (\<lambda>rc.
        check_mdbx rc ''MetaStore write failed'')))"

text \<open>A \<open>NodeId\<close> that starts as zeros and receives the bytes that were read.\<close>

definition get_db_uuid :: "('t, 'c) mdbx \<Rightarrow> store \<Rightarrow> ('t, db_id) io" where
  "get_db_uuid M st = bindM (read_fixed M st key_db_uuid 16) (\<lambda>bs.
     ret (bs @ drop (length bs) make_zero_node))"

definition set_db_uuid :: "('t, 'c) mdbx \<Rightarrow> store \<Rightarrow> db_id \<Rightarrow> ('t, unit) io" where
  "set_db_uuid M st value = write_fixed M st key_db_uuid value"

definition try_get_node_id :: "('t, 'c) mdbx \<Rightarrow> store \<Rightarrow> ('t, node_id option) io" where
  "try_get_node_id M st =
     thenM (checked_txn_env M (m_env st) ''MetaStore::try_get_node_id'')
     (thenM (meta_ensure_open st)
     (bindM (api_get M (m_dbi st) [key_node_id]) (\<lambda>(rc, v).
        if rc = MDBX_NOTFOUND then ret None
        else thenM (check_mdbx rc ''MetaStore node identity read failed'')
          (if length v \<noteq> 16 then throw (RuntimeError ''MetaStore node identity has invalid size'')
           else ret (Some v)))))"

definition get_node_id :: "('t, 'c) mdbx \<Rightarrow> store \<Rightarrow> ('t, node_id) io" where
  "get_node_id M st = bindM (try_get_node_id M st) (\<lambda>r.
     ret (case r of None \<Rightarrow> make_zero_node | Some v \<Rightarrow> v))"

definition set_node_id :: "('t, 'c) mdbx \<Rightarrow> store \<Rightarrow> node_id \<Rightarrow> ('t, unit) io" where
  "set_node_id M st value = write_fixed M st key_node_id value"

definition get_schema_version :: "('t, 'c) mdbx \<Rightarrow> store \<Rightarrow> ('t, u32) io" where
  "get_schema_version M st = bindM (read_fixed M st key_schema_version 4) (\<lambda>bs.
     ret (if length bs \<noteq> 4 then 0 else read_u32_le bs))"

definition set_schema_version :: "('t, 'c) mdbx \<Rightarrow> store \<Rightarrow> u32 \<Rightarrow> ('t, unit) io" where
  "set_schema_version M st value = write_fixed M st key_schema_version (write_u32_le value)"

definition get_local_seq :: "('t, 'c) mdbx \<Rightarrow> store \<Rightarrow> ('t, u64) io" where
  "get_local_seq M st = bindM (read_fixed M st key_local_seq 8) (\<lambda>bs.
     ret (if length bs \<noteq> 8 then 0 else read_u64_le bs))"

definition set_local_seq :: "('t, 'c) mdbx \<Rightarrow> store \<Rightarrow> u64 \<Rightarrow> ('t, unit) io" where
  "set_local_seq M st value = write_fixed M st key_local_seq (write_u64_le value)"

definition increment_local_seq :: "('t, 'c) mdbx \<Rightarrow> store \<Rightarrow> ('t, u64) io" where
  "increment_local_seq M st = bindM (get_local_seq M st) (\<lambda>cur.
     let next = cur + 1 in thenM (set_local_seq M st next) (ret next))"

definition get_created_at_ms :: "('t, 'c) mdbx \<Rightarrow> store \<Rightarrow> ('t, u64) io" where
  "get_created_at_ms M st = bindM (read_fixed M st key_created_at_ms 8) (\<lambda>bs.
     ret (if length bs \<noteq> 8 then 0 else read_u64_le bs))"

definition set_created_at_ms :: "('t, 'c) mdbx \<Rightarrow> store \<Rightarrow> u64 \<Rightarrow> ('t, unit) io" where
  "set_created_at_ms M st value = write_fixed M st key_created_at_ms (write_u64_le value)"

section \<open>Specification\<close>

text \<open>The fields of the metadata table.\<close>

definition meta_bytes :: "(bytes \<rightharpoonup> bytes) \<Rightarrow> u8 \<Rightarrow> nat \<Rightarrow> bytes" where
  "meta_bytes m key n = (case m [key] of None \<Rightarrow> [] | Some v \<Rightarrow> take n v)"

definition meta_node_id :: "(bytes \<rightharpoonup> bytes) \<Rightarrow> node_id" where
  "meta_node_id m = (case m [key_node_id] of None \<Rightarrow> make_zero_node | Some v \<Rightarrow> v)"

definition meta_node_ok :: "(bytes \<rightharpoonup> bytes) \<Rightarrow> bool" where
  "meta_node_ok m \<longleftrightarrow> (\<forall>v. m [key_node_id] = Some v \<longrightarrow> length v = 16)"

definition meta_db_uuid :: "(bytes \<rightharpoonup> bytes) \<Rightarrow> db_id" where
  "meta_db_uuid m = (let bs = meta_bytes m key_db_uuid 16 in bs @ drop (length bs) make_zero_node)"

definition meta_local_seq :: "(bytes \<rightharpoonup> bytes) \<Rightarrow> u64" where
  "meta_local_seq m = (let bs = meta_bytes m key_local_seq 8 in
     if length bs \<noteq> 8 then 0 else read_u64_le bs)"

lemmas meta_keys = key_db_uuid_def key_node_id_def key_schema_version_def key_local_seq_def
  key_created_at_ms_def

lemma meta_local_seq_update [simp]:
  "meta_local_seq (m([key_local_seq] \<mapsto> write_u64_le s)) = s"
  by (simp add: meta_local_seq_def meta_bytes_def)

lemma meta_other_update [simp]:
  "key \<noteq> key_node_id \<Longrightarrow> meta_node_id (m([key] \<mapsto> v)) = meta_node_id m"
  "key \<noteq> key_node_id \<Longrightarrow> meta_node_ok (m([key] \<mapsto> v)) = meta_node_ok m"
  "key \<noteq> key_db_uuid \<Longrightarrow> meta_db_uuid (m([key] \<mapsto> v)) = meta_db_uuid m"
  "key \<noteq> key_local_seq \<Longrightarrow> meta_local_seq (m([key] \<mapsto> v)) = meta_local_seq m"
  by (simp_all add: meta_node_id_def meta_node_ok_def meta_db_uuid_def meta_bytes_def
      meta_local_seq_def)

lemma meta_node_id_length [simp]: "meta_node_ok m \<Longrightarrow> is_node_id (meta_node_id m)"
  by (auto simp: meta_node_ok_def meta_node_id_def is_node_id_def make_zero_node_def
      split: option.splits)

context mdbx_engine
begin

lemma awp_read_fixed:
  assumes "bound st a" and "Q (meta_bytes (content a (m_dbi_name st)) key n) a"
    and "\<And>c rc. fails rc \<Longrightarrow> E (MdbxException c rc)"
  shows "awp (read_fixed M st key n) Q E a"
  using assms bound_open [OF assms(1)]
  unfolding read_fixed_def meta_ensure_open_def
  by (auto intro!: awp_thenM awp_checked_bound awp_ensure_open awp_bindM awp_store_get awp_check
      awp_ret simp: meta_bytes_def min_def)

lemma awp_write_fixed:
  assumes "bound st a" "a_writable a"
    and "\<And>a'. ext a a' \<Longrightarrow> bound st a' \<Longrightarrow> content a' = (content a)(m_dbi_name st :=
      (content a (m_dbi_name st))([key] \<mapsto> v)) \<Longrightarrow> Q () a'"
    and "\<And>c rc. fails rc \<Longrightarrow> E (MdbxException c rc)"
  shows "awp (write_fixed M st key v) Q E a"
  using assms bound_open [OF assms(1)]
  unfolding write_fixed_def meta_ensure_open_def
  by (auto intro!: awp_thenM awp_checked_bound awp_ensure_open awp_bindM awp_store_put awp_check)

lemma awp_get_db_uuid:
  assumes "bound st a" and "Q (meta_db_uuid (content a (m_dbi_name st))) a"
    and "\<And>c rc. fails rc \<Longrightarrow> E (MdbxException c rc)"
  shows "awp (get_db_uuid M st) Q E a"
  using assms unfolding get_db_uuid_def meta_db_uuid_def Let_def
  by (auto intro!: awp_bindM awp_read_fixed awp_ret)

lemma awp_get_node_id:
  assumes "bound st a"
    and "meta_node_ok (content a (m_dbi_name st)) \<Longrightarrow> Q (meta_node_id (content a (m_dbi_name st))) a"
    and "\<And>c rc. fails rc \<Longrightarrow> E (MdbxException c rc)"
    and "\<not> meta_node_ok (content a (m_dbi_name st)) \<Longrightarrow>
      E (RuntimeError ''MetaStore node identity has invalid size'')"
  shows "awp (get_node_id M st) Q E a"
  using assms bound_open [OF assms(1)]
  unfolding get_node_id_def try_get_node_id_def meta_ensure_open_def
  by (auto intro!: awp_thenM awp_checked_bound awp_ensure_open awp_bindM awp_store_get awp_check
      awp_ret awp_throw simp: meta_node_id_def meta_node_ok_def)

lemma awp_get_local_seq:
  assumes "bound st a" and "Q (meta_local_seq (content a (m_dbi_name st))) a"
    and "\<And>c rc. fails rc \<Longrightarrow> E (MdbxException c rc)"
  shows "awp (get_local_seq M st) Q E a"
  using assms unfolding get_local_seq_def meta_local_seq_def Let_def
  by (intro awp_bindM awp_read_fixed awp_ret)

lemma awp_increment_local_seq:
  assumes "bound st a" "a_writable a"
    and "\<And>a'. ext a a' \<Longrightarrow> bound st a' \<Longrightarrow> content a' = (content a)(m_dbi_name st :=
      (content a (m_dbi_name st))([key_local_seq] \<mapsto>
        write_u64_le (meta_local_seq (content a (m_dbi_name st)) + 1))) \<Longrightarrow>
      Q (meta_local_seq (content a (m_dbi_name st)) + 1) a'"
    and "\<And>c rc. fails rc \<Longrightarrow> E (MdbxException c rc)"
  shows "awp (increment_local_seq M st) Q E a"
  using assms unfolding increment_local_seq_def set_local_seq_def Let_def
  by (auto intro!: awp_bindM awp_get_local_seq awp_thenM awp_write_fixed awp_ret)

end

end
