(* ===== verification/Applied_Store.thy ===== *)
theory Applied_Store
  imports Store_Base
begin

text \<open>
  \<^verbatim>\<open>include/mdbx_containers/sync/stores/AppliedStore.hpp\<close>: the last contiguous sequence
  number applied per origin.
\<close>

definition new_applied_store :: "nat \<Rightarrow> store" where
  "new_applied_store env = new_store env ''_mdbxc_applied''"

definition applied_open :: "('t, 'c) mdbx \<Rightarrow> store \<Rightarrow> ('t, store) io" where
  "applied_open M st = open_create M ''AppliedStore::open'' ''Failed to open AppliedStore DBI'' st"

definition applied_ensure_open :: "store \<Rightarrow> ('t, unit) io" where
  "applied_ensure_open st = ensure_open ''AppliedStore is not open'' st"

definition last_applied_seq :: "('t, 'c) mdbx \<Rightarrow> store \<Rightarrow> node_id \<Rightarrow> ('t, u64) io" where
  "last_applied_seq M st origin =
     thenM (checked_txn_env M (m_env st) ''AppliedStore::last_applied_seq'')
     (thenM (applied_ensure_open st)
     (bindM (api_get M (m_dbi st) origin) (\<lambda>(rc, v).
        if rc = MDBX_NOTFOUND then ret 0
        else thenM (check_mdbx rc ''AppliedStore read failed'')
          (if length v \<noteq> 8 then ret 0 else ret (read_u64_le v)))))"

definition set_last_applied_seq ::
  "('t, 'c) mdbx \<Rightarrow> store \<Rightarrow> node_id \<Rightarrow> u64 \<Rightarrow> ('t, unit) io" where
  "set_last_applied_seq M st origin seq =
     thenM (checked_txn_env M (m_env st) ''AppliedStore::set_last_applied_seq'')
     (thenM (applied_ensure_open st)
     (bindM (api_put M (m_dbi st) origin (write_u64_le seq) MDBX_UPSERT) (\<lambda>rc.
        check_mdbx rc ''AppliedStore write failed'')))"

definition applied_clear :: "('t, 'c) mdbx \<Rightarrow> store \<Rightarrow> node_id \<Rightarrow> ('t, bool) io" where
  "applied_clear M st origin =
     thenM (checked_txn_env M (m_env st) ''AppliedStore::clear'')
     (thenM (applied_ensure_open st)
     (bindM (api_del M (m_dbi st) origin) (\<lambda>rc.
        if rc = MDBX_SUCCESS then ret True
        else if rc = MDBX_NOTFOUND then ret False
        else thenM (check_mdbx rc ''AppliedStore clear failed'') (ret False))))"

section \<open>Specification\<close>

text \<open>What the table says of an origin.\<close>

definition applied_seq :: "(bytes \<rightharpoonup> bytes) \<Rightarrow> node_id \<Rightarrow> u64" where
  "applied_seq m origin =
    (case m origin of None \<Rightarrow> 0 | Some v \<Rightarrow> if length v \<noteq> 8 then 0 else read_u64_le v)"

lemma applied_seq_update [simp]:
  "applied_seq (m(origin \<mapsto> write_u64_le s)) origin' =
     (if origin' = origin then s else applied_seq m origin')"
  by (simp add: applied_seq_def)

lemma applied_seq_remove [simp]:
  "applied_seq (m(origin := None)) origin' = (if origin' = origin then 0 else applied_seq m origin')"
  by (simp add: applied_seq_def)

context mdbx_engine
begin

lemma awp_last_applied_seq:
  assumes "bound st a" and "Q (applied_seq (content a (m_dbi_name st)) origin) a"
    and "\<And>c rc. fails rc \<Longrightarrow> E (MdbxException c rc)"
  shows "awp (last_applied_seq M st origin) Q E a"
  using assms bound_open [OF assms(1)]
  unfolding last_applied_seq_def applied_ensure_open_def
  by (auto intro!: awp_thenM awp_checked_bound awp_ensure_open awp_bindM awp_store_get awp_check
      awp_ret simp: applied_seq_def)

lemma awp_set_last_applied_seq:
  assumes "bound st a" "a_writable a"
    and "\<And>a'. ext a a' \<Longrightarrow> bound st a' \<Longrightarrow> content a' = (content a)(m_dbi_name st :=
      (content a (m_dbi_name st))(origin \<mapsto> write_u64_le s)) \<Longrightarrow> Q () a'"
    and "\<And>c rc. fails rc \<Longrightarrow> E (MdbxException c rc)"
  shows "awp (set_last_applied_seq M st origin s) Q E a"
  using assms bound_open [OF assms(1)]
  unfolding set_last_applied_seq_def applied_ensure_open_def
  by (auto intro!: awp_thenM awp_checked_bound awp_ensure_open awp_bindM awp_store_put awp_check)

lemma awp_applied_clear:
  assumes "bound st a" "a_writable a"
    and "\<And>a'. ext a a' \<Longrightarrow> bound st a' \<Longrightarrow> content a' = (content a)(m_dbi_name st :=
      (content a (m_dbi_name st))(origin := None)) \<Longrightarrow>
      Q (content a (m_dbi_name st) origin \<noteq> None) a'"
    and "\<And>c rc. fails rc \<Longrightarrow> E (MdbxException c rc)"
  shows "awp (applied_clear M st origin) Q E a"
  using assms(1,2,4) assms(3) [of a] assms(3) bound_open [OF assms(1)]
  unfolding applied_clear_def applied_ensure_open_def
  by (auto intro!: awp_thenM awp_checked_bound awp_ensure_open awp_bindM awp_store_del awp_check
      awp_ret awp_if simp: fun_upd_idem)

end

end
