(* ===== verification/Versioned_Dbi.thy ===== *)
theory Versioned_Dbi
  imports Store_Base
begin

text \<open>
  \<^verbatim>\<open>include/mdbx_containers/sync/stores/VersionedDbiStore.hpp\<close>: the registry of the user DBIs that
  replicate by source version. The name of the DBI is the key; the value is empty.
\<close>

definition new_versioned_store :: "nat \<Rightarrow> store" where
  "new_versioned_store env = new_store env ''_mdbxc_versioned_dbis''"

definition validate_name :: "string \<Rightarrow> ('t, unit) io" where
  "validate_name name =
    (if name = [] \<or> is_reserved_dbi_name name
     then throw (InvalidArgument ''VersionedDbiStore requires a non-reserved user DBI name'')
     else ret ())"

definition versioned_open_for_write :: "('t, 'c) mdbx \<Rightarrow> store \<Rightarrow> ('t, store) io" where
  "versioned_open_for_write M st =
    (if m_open st then ret st else
     bindM (api_dbi_open M ''_mdbxc_versioned_dbis'' (MDBX_CREATE M)) (\<lambda>(rc, h).
     thenM (check_mdbx rc ''Failed to open VersionedDbiStore DBI'')
           (ret (st\<lparr>m_dbi := h, m_open := True\<rparr>))))"

definition versioned_open_existing :: "('t, 'c) mdbx \<Rightarrow> store \<Rightarrow> ('t, bool \<times> store) io" where
  "versioned_open_existing M st =
    (if m_open st then ret (True, st) else
     bindM (api_dbi_open M ''_mdbxc_versioned_dbis'' 0) (\<lambda>(rc, h).
     if rc = MDBX_NOTFOUND then ret (False, st)
     else thenM (check_mdbx rc ''Failed to open VersionedDbiStore DBI'')
            (ret (True, st\<lparr>m_dbi := h, m_open := True\<rparr>))))"

definition register_dbi :: "('t, 'c) mdbx \<Rightarrow> store \<Rightarrow> string \<Rightarrow> ('t, bool \<times> store) io" where
  "register_dbi M st name =
     thenM (checked_txn_env M (m_env st) ''VersionedDbiStore::register_dbi'')
     (thenM (validate_name name)
     (bindM (versioned_open_for_write M st) (\<lambda>st.
      bindM (api_put M (m_dbi st) (bytes_of_string name) [] MDBX_NOOVERWRITE) (\<lambda>rc.
        if rc = MDBX_SUCCESS then ret (True, st)
        else if rc = MDBX_KEYEXIST then ret (False, st)
        else thenM (check_mdbx rc ''VersionedDbiStore register failed'') (ret (False, st))))))"

definition versioned_contains :: "('t, 'c) mdbx \<Rightarrow> store \<Rightarrow> string \<Rightarrow> ('t, bool \<times> store) io" where
  "versioned_contains M st name =
     thenM (checked_txn_env M (m_env st) ''VersionedDbiStore::contains'')
     (if name = [] then ret (False, st) else
      bindM (versioned_open_existing M st) (\<lambda>(found, st).
        if \<not> found then ret (False, st) else
        bindM (api_get M (m_dbi st) (bytes_of_string name)) (\<lambda>(rc, v).
          if rc = MDBX_SUCCESS then ret (True, st)
          else if rc = MDBX_NOTFOUND then ret (False, st)
          else thenM (check_mdbx rc ''VersionedDbiStore lookup failed'') (ret (False, st)))))"

section \<open>Specification\<close>

definition versioned :: "(bytes \<rightharpoonup> bytes) \<Rightarrow> string \<Rightarrow> bool" where
  "versioned m name \<longleftrightarrow> name \<noteq> [] \<and> m (bytes_of_string name) \<noteq> None"

text \<open>A store object of the registry, opened or not.\<close>

definition versioned_store :: "store \<Rightarrow> adb \<Rightarrow> bool" where
  "versioned_store st a \<longleftrightarrow> openable st a \<and> m_dbi_name st = ''_mdbxc_versioned_dbis''"

lemma versioned_store_ext: "versioned_store st a \<Longrightarrow> ext a a' \<Longrightarrow> versioned_store st a'"
  by (auto simp: versioned_store_def intro: openable_ext)

lemma versioned_store_bound:
  "versioned_store st a \<Longrightarrow> bound st' a' \<Longrightarrow> same_store st st' \<Longrightarrow> versioned_store st' a'"
  by (auto simp: versioned_store_def openable_def bound_def same_store_def)

context mdbx_engine
begin

lemma awp_versioned_open_existing:
  assumes st: "versioned_store st a"
    and yes: "\<And>st' a'. ext a a' \<Longrightarrow> content a' = content a \<Longrightarrow> bound st' a' \<Longrightarrow> same_store st st' \<Longrightarrow>
      Q (True, st') a'"
    and no: "a_tables a ''_mdbxc_versioned_dbis'' = None \<Longrightarrow> Q (False, st) a"
    and E: "\<And>c rc. fails rc \<Longrightarrow> E (MdbxException c rc)"
  shows "awp (versioned_open_existing M st) Q E a"
proof -
  have op: "openable st a" and name: "m_dbi_name st = ''_mdbxc_versioned_dbis''"
    using st by (simp_all add: versioned_store_def)
  have "c_str ''_mdbxc_versioned_dbis'' = ''_mdbxc_versioned_dbis''"
    using op name by (simp add: openable_def)
  with awp_open_dbi [OF op, of 0] name
  have open_: "\<lbrakk>\<And>h a'. ext a a' \<Longrightarrow> content a' = content a \<Longrightarrow> bound (st\<lparr>m_dbi := h, m_open := True\<rparr>) a' \<Longrightarrow>
      R (MDBX_SUCCESS, h) a'; \<And>h. a_tables a ''_mdbxc_versioned_dbis'' = None \<Longrightarrow> R (MDBX_NOTFOUND, h) a;
      \<And>rc h. rc \<noteq> MDBX_SUCCESS \<Longrightarrow> rc \<noteq> MDBX_NOTFOUND \<Longrightarrow> rc \<noteq> MDBX_EACCESS \<Longrightarrow> fails rc \<Longrightarrow> R (rc, h) a\<rbrakk>
      \<Longrightarrow> awp (api_dbi_open M ''_mdbxc_versioned_dbis'' 0) R E a" for R
    by simp
  show ?thesis
  proof (cases "m_open st")
    case True
    then have "bound st a" using op by (simp add: openable_def)
    with True show ?thesis
      unfolding versioned_open_existing_def by (auto intro!: awp_ret yes)
  next
    case False
    with yes no E show ?thesis
      unfolding versioned_open_existing_def
      by (auto intro!: awp_bindM open_ awp_thenM awp_check awp_ret)
  qed
qed

lemma awp_versioned_contains:
  assumes st: "versioned_store st a"
    and Q: "\<And>st' a'. ext a a' \<Longrightarrow> content a' = content a \<Longrightarrow> versioned_store st' a' \<Longrightarrow>
      Q (versioned (content a ''_mdbxc_versioned_dbis'') name, st') a'"
    and E: "\<And>c rc. fails rc \<Longrightarrow> E (MdbxException c rc)"
  shows "awp (versioned_contains M st name) Q E a"
proof -
  have name: "m_dbi_name st = ''_mdbxc_versioned_dbis''" and env: "a_env a = m_env st"
    using st by (simp_all add: versioned_store_def openable_def)
  have none: "content a ''_mdbxc_versioned_dbis'' k = None" if "a_tables a ''_mdbxc_versioned_dbis'' = None" for k
    using that by (simp add: content_def)
  have get: "awp (bindM (api_get M (m_dbi st') (bytes_of_string name)) (\<lambda>(rc, v).
      if rc = MDBX_SUCCESS then ret (True, st') else if rc = MDBX_NOTFOUND then ret (False, st')
      else thenM (check_mdbx rc ''VersionedDbiStore lookup failed'') (ret (False, st')))) Q E a'"
    if "ext a a'" "content a' = content a" "bound st' a'" "same_store st st'" "name \<noteq> []" for st' a'
    using that name E Q [of a' st'] versioned_store_bound [OF st that(3,4)]
    by (intro awp_bindM awp_store_get)
      (auto intro!: awp_ret awp_thenM awp_check simp: versioned_def same_store_def)
  show ?thesis
    unfolding versioned_contains_def
  proof (intro awp_thenM awp_checked_txn_env awp_if)
    show "awp (ret (False, st)) Q E a" if "name = []"
      using that Q [of a st] st by (auto intro!: awp_ret simp: versioned_def)
  qed (use env E Q [of a st] st none in
      \<open>auto intro!: awp_bindM [of "versioned_open_existing _ _"] get
        awp_versioned_open_existing awp_ret simp: versioned_def\<close>)
qed

end

end
