(* ===== verification/Receiver_Mode.thy ===== *)
theory Receiver_Mode
  imports Store_Base Readers
begin

text \<open>
  \<^verbatim>\<open>include/mdbx_containers/sync/stores/ReceiverReplicationModeStore.hpp\<close>: one record per database
  that says whether the database receives the full-global stream or a set of selective scopes,
  never both.
\<close>

datatype receiver_mode = FullGlobal | Selective

definition mode_code :: "receiver_mode \<Rightarrow> u8" where
  "mode_code m = (case m of FullGlobal \<Rightarrow> 1 | Selective \<Rightarrow> 2)"

record receiver_state =
  rs_mode :: receiver_mode
  scope_ids :: "string list"

definition selective_replication_max_scope_id_len :: u32 where
  "selective_replication_max_scope_id_len = 256"

definition selective_replication_max_manifest_entries :: u32 where
  "selective_replication_max_manifest_entries = 10000"

definition receiver_format_version :: u32 where "receiver_format_version = 1"

definition new_receiver_store :: "nat \<Rightarrow> store" where
  "new_receiver_store env = new_store env ''_mdbxc_receiver_mode''"

definition receiver_open :: "('t, 'c) mdbx \<Rightarrow> store \<Rightarrow> ('t, store) io" where
  "receiver_open M st = open_fallback M ''ReceiverReplicationModeStore::open''
     ''Failed to open receiver replication mode DBI'' st"

definition receiver_open_existing :: "('t, 'c) mdbx \<Rightarrow> store \<Rightarrow> ('t, bool \<times> store) io" where
  "receiver_open_existing M st = open_existing M ''ReceiverReplicationModeStore::open_existing''
     ''Failed to open existing receiver mode DBI'' st"

definition receiver_ensure_open :: "store \<Rightarrow> ('t, unit) io" where
  "receiver_ensure_open st = ensure_open ''ReceiverReplicationModeStore is not open'' st"

definition id_value :: "db_id \<Rightarrow> ('t, bytes) io" where
  "id_value db =
    (if is_zero_sync_id db
     then throw (InvalidArgument ''receiver replication mode DbId must not be zero'')
     else ret db)"

definition validate_scope_id :: "string \<Rightarrow> exn + unit" where
  "validate_scope_id scope =
    (if scope = [] \<or> exceeds (length scope) selective_replication_max_scope_id_len
     then Inl (InvalidArgument ''receiver replication mode has invalid ScopeId'')
     else Inr ())"

definition put_scope :: "string \<Rightarrow> exn + bytes" where
  "put_scope scope =
    (case validate_scope_id scope of Inl e \<Rightarrow> Inl e
     | Inr _ \<Rightarrow> Inr (put_bytes (bytes_of_string scope)))"

text \<open>The loop of \<open>encode\<close>: \<open>prev\<close> is the scope of the previous round.\<close>

fun encode_scopes :: "string option \<Rightarrow> bytes \<Rightarrow> string list \<Rightarrow> exn + bytes" where
  "encode_scopes prev out [] = Inr out"
| "encode_scopes prev out (scope # rest) =
    (if (case prev of None \<Rightarrow> False | Some p \<Rightarrow> p \<ge> scope)
     then Inl (LogicError ''receiver mode ScopeIds must be sorted and unique'')
     else case put_scope scope of Inl e \<Rightarrow> Inl e
          | Inr bs \<Rightarrow> encode_scopes (Some scope) (out @ bs) rest)"

definition receiver_encode :: "receiver_state \<Rightarrow> exn + bytes" where
  "receiver_encode st =
    (if rs_mode st = FullGlobal \<and> scope_ids st \<noteq> []
     then Inl (LogicError ''full-global receiver mode must not carry scopes'')
     else if rs_mode st = Selective \<and> scope_ids st = []
     then Inl (LogicError ''selective receiver mode must carry a scope'')
     else if exceeds (length (scope_ids st)) selective_replication_max_manifest_entries
     then Inl (LengthError ''receiver mode scope count exceeds the v1 bound'')
     else encode_scopes None
       (write_u32_le receiver_format_version @ [mode_code (rs_mode st)] @
        write_u32_le (u32_of_size (length (scope_ids st)))) (scope_ids st))"

definition read_scope :: "(cursor, string) io" where
  "read_scope =
     bindM (fetch_u32 (RuntimeError ''truncated receiver mode ScopeId length'')) (\<lambda>size.
     if size = 0 \<or> size > selective_replication_max_scope_id_len
     then throw (RuntimeError ''invalid receiver replication mode ScopeId'')
     else bindM (fetch (RuntimeError ''invalid receiver replication mode ScopeId'') (unat size)) (\<lambda>bs.
       ret (string_of_bytes bs)))"

fun read_scopes :: "nat \<Rightarrow> string list \<Rightarrow> (cursor, string list) io" where
  "read_scopes 0 acc = ret acc"
| "read_scopes (Suc n) acc =
     bindM read_scope (\<lambda>scope.
       if acc \<noteq> [] \<and> last acc \<ge> scope
       then throw (RuntimeError ''receiver mode ScopeIds are not canonical'')
       else read_scopes n (acc @ [scope]))"

definition receiver_decode_body :: "(cursor, receiver_state) io" where
  "receiver_decode_body =
     bindM (fetch_u32 (RuntimeError ''truncated receiver mode version'')) (\<lambda>ver.
     if ver \<noteq> receiver_format_version
     then throw (RuntimeError ''unsupported receiver replication mode format'') else
     bindM (cursor_take 1) (\<lambda>raw.
     bindM (if raw ! 0 = mode_code FullGlobal then ret FullGlobal
            else if raw ! 0 = mode_code Selective then ret Selective
            else throw (RuntimeError ''unknown receiver replication mode'')) (\<lambda>md.
     bindM (fetch_u32 (RuntimeError ''truncated receiver mode scope count'')) (\<lambda>count.
     if count > selective_replication_max_manifest_entries
     then throw (RuntimeError ''receiver mode scope count exceeds the v1 bound'') else
     bindM (read_scopes (unat count) []) (\<lambda>scopes.
     bindM at_end (\<lambda>fin.
     if \<not> fin \<or> md = FullGlobal \<and> scopes \<noteq> [] \<or> md = Selective \<and> scopes = []
     then throw (RuntimeError ''invalid receiver replication mode payload'')
     else ret \<lparr>rs_mode = md, scope_ids = scopes\<rparr>))))))"

definition receiver_decode :: "bytes \<Rightarrow> exn + receiver_state" where
  "receiver_decode bs =
    (if length bs < 9 then Inl (RuntimeError ''invalid receiver replication mode record'')
     else decode_with receiver_decode_body bs)"

definition receiver_get ::
  "('t, 'c) mdbx \<Rightarrow> store \<Rightarrow> db_id \<Rightarrow> ('t, receiver_state option) io" where
  "receiver_get M st db =
     thenM (checked_txn_env M (m_env st) ''ReceiverReplicationModeStore::get'')
     (thenM (receiver_ensure_open st)
     (bindM (id_value db) (\<lambda>key.
      bindM (api_get M (m_dbi st) key) (\<lambda>(rc, v).
        if rc = MDBX_NOTFOUND then ret None
        else thenM (check_mdbx rc ''Receiver replication mode read failed'')
          (bindM (liftE (receiver_decode v)) (\<lambda>out. ret (Some out)))))))"

definition receiver_put ::
  "('t, 'c) mdbx \<Rightarrow> store \<Rightarrow> db_id \<Rightarrow> receiver_state \<Rightarrow> ('t, unit) io" where
  "receiver_put M st db state =
     bindM (liftE (receiver_encode state)) (\<lambda>bs.
     bindM (id_value db) (\<lambda>key.
     bindM (api_put M (m_dbi st) key bs MDBX_UPSERT) (\<lambda>rc.
       check_mdbx rc ''Receiver replication mode write failed'')))"

definition claim_full_global :: "('t, 'c) mdbx \<Rightarrow> store \<Rightarrow> db_id \<Rightarrow> ('t, bool) io" where
  "claim_full_global M st db =
     thenM (checked_txn_env M (m_env st) ''ReceiverReplicationModeStore::claim_full_global'')
     (thenM (receiver_ensure_open st)
     (bindM (receiver_get M st db) (\<lambda>found. case found of
        Some state \<Rightarrow> ret (rs_mode state = FullGlobal)
      | None \<Rightarrow> thenM (receiver_put M st db \<lparr>rs_mode = FullGlobal, scope_ids = []\<rparr>) (ret True))))"

text \<open>\<open>std::lower_bound\<close> on a range sorted by \<open><\<close>: the index of the first element not below.\<close>

definition lower_bound :: "string list \<Rightarrow> string \<Rightarrow> nat" where
  "lower_bound xs x = length (takeWhile (\<lambda>y. y < x) xs)"

definition claim_selective :: "('t, 'c) mdbx \<Rightarrow> store \<Rightarrow> db_id \<Rightarrow> string \<Rightarrow> ('t, bool) io" where
  "claim_selective M st db scope =
     thenM (checked_txn_env M (m_env st) ''ReceiverReplicationModeStore::claim_selective'')
     (thenM (receiver_ensure_open st)
     (thenM (liftE (validate_scope_id scope))
     (bindM (receiver_get M st db) (\<lambda>found. case found of
        Some state \<Rightarrow>
          if rs_mode state \<noteq> Selective then ret False else
          (let position = lower_bound (scope_ids state) scope in
           if position \<noteq> length (scope_ids state) \<and> scope_ids state ! position = scope then ret True
           else thenM (receiver_put M st db (state\<lparr>scope_ids :=
                   take position (scope_ids state) @ scope # drop position (scope_ids state)\<rparr>)) (ret True))
      | None \<Rightarrow> thenM (receiver_put M st db \<lparr>rs_mode = Selective, scope_ids = [scope]\<rparr>) (ret True)))))"

section \<open>The record format\<close>

definition scope_ok :: "string \<Rightarrow> bool" where
  "scope_ok s \<longleftrightarrow> s \<noteq> [] \<and> length s \<le> 256"

definition receiver_ok :: "receiver_state \<Rightarrow> bool" where
  "receiver_ok st \<longleftrightarrow> (rs_mode st = FullGlobal \<longleftrightarrow> scope_ids st = []) \<and> length (scope_ids st) \<le> 10000 \<and>
     sorted_wrt (<) (scope_ids st) \<and> list_all scope_ok (scope_ids st)"

lemma validate_scope_id_ok: "validate_scope_id s = Inr () \<longleftrightarrow> scope_ok s"
  by (auto simp: validate_scope_id_def scope_ok_def selective_replication_max_scope_id_len_def)

lemma validate_scope_id_err:
  "\<not> scope_ok s \<Longrightarrow> validate_scope_id s = Inl (InvalidArgument ''receiver replication mode has invalid ScopeId'')"
  by (auto simp: validate_scope_id_def scope_ok_def selective_replication_max_scope_id_len_def)

abbreviation scope_bytes :: "string \<Rightarrow> bytes" where
  "scope_bytes s \<equiv> put_bytes (bytes_of_string s)"

lemma encode_scopes_eq:
  assumes "list_all scope_ok xs" "sorted_wrt (<) xs" "\<And>p. prev = Some p \<Longrightarrow> \<forall>x \<in> set xs. p < x"
  shows "encode_scopes prev out xs = Inr (out @ concat (map scope_bytes xs))"
  using assms
proof (induction xs arbitrary: prev out)
  case (Cons x xs)
  have "validate_scope_id x = Inr ()" using Cons.prems(1) by (simp add: validate_scope_id_ok)
  moreover have "\<not> p \<ge> x" if "prev = Some p" for p using Cons.prems(3) [OF that] by auto
  moreover have "encode_scopes (Some x) (out @ scope_bytes x) xs =
      Inr ((out @ scope_bytes x) @ concat (map scope_bytes xs))"
    using Cons.prems by (intro Cons.IH) auto
  ultimately show ?case
    by (simp add: put_scope_def split: option.splits)
qed simp

definition receiver_bytes :: "receiver_state \<Rightarrow> bytes" where
  "receiver_bytes st = write_u32_le receiver_format_version @ [mode_code (rs_mode st)] @
     write_u32_le (u32_of_size (length (scope_ids st))) @ concat (map scope_bytes (scope_ids st))"

lemma unat_limits [simp]:
  "unat selective_replication_max_manifest_entries = 10000"
  "unat selective_replication_max_scope_id_len = 256"
  by (simp_all add: selective_replication_max_manifest_entries_def
      selective_replication_max_scope_id_len_def)

lemma receiver_encode_ok:
  assumes "receiver_ok st"
  shows "receiver_encode st = Inr (receiver_bytes st)"
proof -
  have "\<not> (rs_mode st = FullGlobal \<and> scope_ids st \<noteq> [])" "\<not> (rs_mode st = Selective \<and> scope_ids st = [])"
    "\<not> 10000 < length (scope_ids st)"
    using assms unfolding receiver_ok_def by auto
  moreover have "encode_scopes None out (scope_ids st) =
      Inr (out @ concat (map scope_bytes (scope_ids st)))" for out
    using assms by (intro encode_scopes_eq) (auto simp: receiver_ok_def)
  ultimately show ?thesis
    by (simp add: receiver_encode_def receiver_bytes_def)
qed

lemma unat_u32_small: "n < 2 ^ 32 \<Longrightarrow> unat (u32_of_size n) = n"
  by (simp add: unat_of_nat)

lemma reads_read_scope:
  assumes "scope_ok s"
  shows "reads read_scope (scope_bytes s) s"
  unfolding read_scope_def
proof (rule reads_sized, goal_cases)
  case (2 n)
  with assms have "\<not> (n = 0 \<or> n > selective_replication_max_scope_id_len)"
    by (auto simp: scope_ok_def word_less_nat_alt)
  with 2 show ?case
    by (auto intro!: reads_bindM_last [OF reads_fetch] reads_retI)
qed (use assms in \<open>auto simp: scope_ok_def\<close>)

lemma reads_read_scopes:
  assumes "list_all scope_ok xs" "sorted_wrt (<) (acc @ xs)"
  shows "reads (read_scopes (length xs) acc) (concat (map scope_bytes xs)) (acc @ xs)"
  using assms
proof (induction xs arbitrary: acc)
  case Nil
  then show ?case by (simp add: reads_ret)
next
  case (Cons x xs)
  have "\<not> (acc \<noteq> [] \<and> last acc \<ge> x)"
    using Cons.prems(2) by (auto simp: sorted_wrt_append dest: bspec [OF _ last_in_set])
  moreover have "reads (read_scopes (length xs) (acc @ [x])) (concat (map scope_bytes xs)) (acc @ x # xs)"
    using Cons.IH [of "acc @ [x]"] Cons.prems by simp
  ultimately show ?case
    using Cons.prems by (auto intro!: reads_bindM reads_read_scope)
qed

lemma mode_code_simps [simp]: "mode_code FullGlobal = 1" "mode_code Selective = 2"
  by (simp_all add: mode_code_def)



lemma reads_raw: "reads (cursor_take 1) [b] [b]"
  by (auto simp: reads_def cursor_take_def)

lemma receiver_decode_bytes:
  assumes "receiver_ok st"
  shows "receiver_decode (receiver_bytes st) = Inr st"
proof -
  let ?n = "u32_of_size (length (scope_ids st))"
  have n: "unat ?n = length (scope_ids st)" "\<not> ?n > selective_replication_max_manifest_entries"
    using assms by (auto simp: receiver_ok_def unat_u32_small word_less_nat_alt)
  have scopes: "reads (read_scopes (unat ?n) []) (concat (map scope_bytes (scope_ids st))) (scope_ids st)"
    using reads_read_scopes [of "scope_ids st" "[]"] assms n by (simp add: receiver_ok_def)
  have md: "reads (if [mode_code (rs_mode st)] ! 0 = mode_code FullGlobal then ret FullGlobal
      else if [mode_code (rs_mode st)] ! 0 = mode_code Selective then ret Selective else throw e)
      [] (rs_mode st)" for e
    by (cases "rs_mode st") (auto intro: reads_ret)
  have fin: "\<not> (\<not> True \<or> rs_mode st = FullGlobal \<and> scope_ids st \<noteq> [] \<or>
      rs_mode st = Selective \<and> scope_ids st = [])"
    using assms by (auto simp: receiver_ok_def)
  have "reads_all receiver_decode_body (receiver_bytes st) st"
    unfolding receiver_decode_body_def receiver_bytes_def
    by (rule reads_all_bindM [OF reads_fetch_u32], rule reads_all_if_False, simp,
        rule reads_all_bindM [OF reads_raw], rule reads_all_bindM_nil [OF md],
        rule reads_all_bindM [OF reads_fetch_u32], rule reads_all_if_False, rule n,
        rule reads_all_bindM_last [OF scopes], rule reads_all_at_end,
        rule reads_all_if_False, rule fin, rule reads_all_ret, simp)
  then have "decode_with receiver_decode_body (receiver_bytes st) = Inr st" by (rule decode_with_all)
  then show ?thesis by (simp add: receiver_decode_def receiver_bytes_def)
qed


text \<open>Only canonical records decode.\<close>

lemma mirrors_read_scope: "mirrors read_scope scope_bytes scope_ok"
  unfolding read_scope_def
proof (rule mirrors_bindM [OF mirrors_fetch_int(2), where ?enc2.0 = "\<lambda>_. bytes_of_string"],
    rule mirrors_if [OF mirrors_throw])
  fix size
  assume "\<not> (size = 0 \<or> size > selective_replication_max_scope_id_len)"
  then have "unat size \<noteq> 0" "unat size \<le> 256"
    by (auto simp: word_less_nat_alt unat_eq_zero)
  then show "mirrors (bindM (fetch (RuntimeError ''invalid receiver replication mode ScopeId'') (unat size))
      (\<lambda>bs. ret (string_of_bytes bs))) bytes_of_string
      (\<lambda>w. scope_ok w \<and> scope_bytes w = write_u32_le size @ bytes_of_string w)"
    by (intro mirrors_map [OF mirrors_fetch]) (auto simp: scope_ok_def put_bytes_def simp flip: length_0_conv)
qed

lemma sorted_snoc:
  fixes x :: "'a :: linorder"
  shows "sorted_wrt (<) acc \<Longrightarrow> acc = [] \<or> last acc < x \<Longrightarrow> sorted_wrt (<) (acc @ [x])"
  by (cases acc rule: rev_cases) (auto simp: sorted_wrt_append)

lemma mirrors_read_scopes:
  assumes "sorted_wrt (<) acc" "list_all scope_ok acc"
  shows "mirrors (read_scopes n acc) (\<lambda>xs. concat (map scope_bytes (drop (length acc) xs)))
    (\<lambda>xs. length xs = length acc + n \<and> take (length acc) xs = acc \<and> sorted_wrt (<) xs \<and> list_all scope_ok xs)"
  using assms
proof (induction n arbitrary: acc)
  case 0
  then show ?case by (auto intro: mirrors_ret)
next
  case (Suc n)
  let ?e2 = "\<lambda>(_ :: string) xs. concat (map scope_bytes (drop (Suc (length acc)) xs))"
  show ?case
    unfolding read_scopes.simps
  proof (rule mirrors_bindM [OF mirrors_read_scope, where ?enc2.0 = ?e2], rule mirrors_if [OF mirrors_throw])
    fix scope
    assume a: "scope_ok scope" "\<not> (acc \<noteq> [] \<and> last acc \<ge> scope)"
    have acc: "sorted_wrt (<) (acc @ [scope])" "list_all scope_ok (acc @ [scope])"
      using a Suc.prems by (auto intro: sorted_snoc)
    have nth: "drop (length acc) xs = scope # drop (Suc (length acc)) xs \<and> take (length acc) xs = acc"
      if "take (Suc (length acc)) xs = acc @ [scope]" for xs
    proof -
      have "xs = (acc @ [scope]) @ drop (Suc (length acc)) xs" using that by (metis append_take_drop_id)
      then show ?thesis by (metis append.assoc append_Cons append_Nil append_eq_conv_conj)
    qed
    show "mirrors (read_scopes n (acc @ [scope])) (?e2 scope)
      (\<lambda>xs. (length xs = length acc + Suc n \<and> take (length acc) xs = acc \<and> sorted_wrt (<) xs \<and>
         list_all scope_ok xs) \<and>
         concat (map scope_bytes (drop (length acc) xs)) = scope_bytes scope @ ?e2 scope xs)"
      using nth by (intro mirrors_mono [OF Suc.IH [OF acc]]) auto
  qed
qed


lemma bindM_InrE:
  assumes "bindM p f c = (Inr w, c')"
  obtains v c1 where "p c = (Inr v, c1)" "f v c1 = (Inr w, c')"
  using assms by (auto simp: bindM_def split: prod.splits sum.splits)

lemma guard_InrE:
  assumes "(if b then throw e else p) c = (Inr w, c')"
  obtains "\<not> b" "p c = (Inr w, c')"
  using assms by (auto simp: run_simps split: if_splits)

lemma receiver_decode_run:
  assumes "receiver_decode bs = Inr st"
  obtains raw count c1 c2 c3 c4 where "9 \<le> length bs"
    "fetch_u32 (RuntimeError ''truncated receiver mode version'') \<lparr>cur_data = bs, cur_pos = 0\<rparr> =
       (Inr receiver_format_version, c1)"
    "cursor_take 1 c1 = (Inr raw, c2)" "raw ! 0 = mode_code (rs_mode st)"
    "fetch_u32 (RuntimeError ''truncated receiver mode scope count'') c2 = (Inr count, c3)"
    "\<not> count > selective_replication_max_manifest_entries"
    "read_scopes (unat count) [] c3 = (Inr (scope_ids st), c4)"
    "cur_pos c4 = length (cur_data c4)" "rs_mode st = FullGlobal \<longleftrightarrow> scope_ids st = []"
proof -
  from assms obtain c' where len: "9 \<le> length bs"
    and run: "receiver_decode_body \<lparr>cur_data = bs, cur_pos = 0\<rparr> = (Inr st, c')"
    by (cases "receiver_decode_body \<lparr>cur_data = bs, cur_pos = 0\<rparr>")
      (auto simp: receiver_decode_def decode_with_def split: if_splits)
  have md: "raw ! 0 = mode_code md \<and> c1 = c"
    if "(if raw ! 0 = mode_code FullGlobal then ret FullGlobal
      else if raw ! 0 = mode_code Selective then ret Selective else throw e) c = (Inr md, c1)" for raw :: bytes and md e c c1
    using that by (auto simp: run_simps split: if_splits)
  have fin: "md = rs_mode st \<and> scopes = scope_ids st \<and> cur_pos c = length (cur_data c) \<and>
      (rs_mode st = FullGlobal \<longleftrightarrow> scope_ids st = [])"
    if "at_end c = (Inr fin, c1)"
      "\<not> (\<not> fin \<or> md = FullGlobal \<and> scopes \<noteq> [] \<or> md = Selective \<and> scopes = [])"
      "ret \<lparr>rs_mode = md, scope_ids = scopes\<rparr> c1 = (Inr st, c')" for md scopes fin c c1
    using that by (cases md) (auto simp: at_end_def run_simps)
  from run show ?thesis
    unfolding receiver_decode_body_def
  proof (elim bindM_InrE guard_InrE, goal_cases)
    case (1 v c1 raw c2 md c2' count c3 scopes c4 fin c5)
    from md [OF 1(4)] fin [OF 1(8,9,10)] 1 len show ?thesis by (intro that) auto
  qed
qed

lemma receiver_decode_canonical:
  assumes "receiver_decode bs = Inr st"
  shows "bs = receiver_bytes st" and "receiver_ok st"
proof -
  let ?c = "\<lambda>n. \<lparr>cur_data = bs, cur_pos = n\<rparr>"
  from assms obtain raw count c1 c2 c3 c4 where len: "9 \<le> length bs" and
    s: "fetch_u32 (RuntimeError ''truncated receiver mode version'') (?c 0) = (Inr receiver_format_version, c1)"
      "cursor_take 1 c1 = (Inr raw, c2)" "raw ! 0 = mode_code (rs_mode st)"
      "fetch_u32 (RuntimeError ''truncated receiver mode scope count'') c2 = (Inr count, c3)"
      "\<not> count > selective_replication_max_manifest_entries"
    and u: "read_scopes (unat count) [] c3 = (Inr (scope_ids st), c4)"
      "cur_pos c4 = length (cur_data c4)" "rs_mode st = FullGlobal \<longleftrightarrow> scope_ids st = []"
    by (rule receiver_decode_run)
  have 1: "c1 = ?c 4" "take 4 bs = write_u32_le receiver_format_version"
    using mirrorsD [OF mirrors_fetch_int(2) s(1)] by auto
  have 2: "c2 = ?c 5" "take 1 (drop 4 bs) = [mode_code (rs_mode st)]"
    using s(2,3) 1 len by (auto simp: cursor_take_def take_Suc hd_drop_conv_nth)
  have 3: "c3 = ?c 9" "take 4 (drop 5 bs) = write_u32_le count"
    using mirrorsD [OF mirrors_fetch_int(2) s(4)] 2 len by auto
  note 4 = mirrorsD [OF mirrors_read_scopes u(1), simplified]
  have n: "unat count = length (scope_ids st)" "unat count \<le> 10000"
    using 4 3 len s(5) by (auto simp: word_less_nat_alt)
  then have cnt: "u32_of_size (length (scope_ids st)) = count" by (simp flip: n(1))
  have "drop 9 bs = concat (map scope_bytes (scope_ids st))"
    using 4 3 len u(2) by auto
  moreover have "bs = take 4 bs @ take 1 (drop 4 bs) @ take 4 (drop 5 bs) @ drop 9 bs"
  proof -
    have "take 4 (drop 5 bs) @ drop 9 bs = drop 5 bs"
      using append_take_drop_id [of 4 "drop 5 bs"] by simp
    moreover have "take 1 (drop 4 bs) @ drop 5 bs = drop 4 bs"
      using append_take_drop_id [of 1 "drop 4 bs"] by simp
    ultimately show ?thesis by simp
  qed
  ultimately show "bs = receiver_bytes st"
    using 1 2 3 cnt by (simp add: receiver_bytes_def)
  show "receiver_ok st" using 4 3 len n u by (auto simp: receiver_ok_def)
qed


section \<open>The claims\<close>

lemma lower_bound_split:
  "take (lower_bound xs x) xs = takeWhile (\<lambda>y. y < x) xs"
  "drop (lower_bound xs x) xs = dropWhile (\<lambda>y. y < x) xs"
  unfolding lower_bound_def by (rule takeWhile_eq_take [symmetric] dropWhile_eq_drop [symmetric])+

lemma lower_bound_found:
  assumes "sorted_wrt (<) xs"
  shows "lower_bound xs x \<noteq> length xs \<and> xs ! lower_bound xs x = x \<longleftrightarrow> x \<in> set xs"
  using assms
proof (induction xs)
  case (Cons y ys)
  then show ?case
    by (cases "y < x") (auto simp: lower_bound_def)
qed (simp add: lower_bound_def)

lemma lower_bound_insert:
  assumes "sorted_wrt (<) xs" "x \<notin> set xs"
  shows "sorted_wrt (<) (take (lower_bound xs x) xs @ x # drop (lower_bound xs x) xs)"
  using assms
proof (induction xs)
  case Nil
  then show ?case by simp
next
  case (Cons y ys)
  show ?case
  proof (cases "y < x")
    case True
    then have "lower_bound (y # ys) x = Suc (lower_bound ys x)" by (simp add: lower_bound_def)
    moreover have "\<forall>z \<in> set ys. y < z" "sorted_wrt (<) (take (lower_bound ys x) ys @ x # drop (lower_bound ys x) ys)"
      using Cons by auto
    ultimately show ?thesis using True by (auto dest: in_set_takeD in_set_dropD)
  next
    case False
    then have "lower_bound (y # ys) x = 0" "x < y" using Cons.prems by (auto simp: lower_bound_def)
    then show ?thesis using Cons.prems by (auto intro: order.strict_trans)
  qed
qed

text \<open>The specification: a claim on the state of one database.\<close>

definition claim_full_spec :: "receiver_state option \<Rightarrow> bool \<times> receiver_state" where
  "claim_full_spec cur = (case cur of None \<Rightarrow> (True, \<lparr>rs_mode = FullGlobal, scope_ids = []\<rparr>)
     | Some st \<Rightarrow> (rs_mode st = FullGlobal, st))"

definition claim_selective_spec :: "string \<Rightarrow> receiver_state option \<Rightarrow> bool \<times> receiver_state" where
  "claim_selective_spec scope cur =
    (case cur of None \<Rightarrow> (True, \<lparr>rs_mode = Selective, scope_ids = [scope]\<rparr>)
     | Some st \<Rightarrow> (if rs_mode st = FullGlobal then (False, st)
         else if scope \<in> set (scope_ids st) then (True, st)
         else (True, st\<lparr>scope_ids := takeWhile (\<lambda>y. y < scope) (scope_ids st) @ scope #
                 dropWhile (\<lambda>y. y < scope) (scope_ids st)\<rparr>)))"

definition receiver_mode_of :: "(bytes \<rightharpoonup> bytes) \<Rightarrow> db_id \<Rightarrow> receiver_state option" where
  "receiver_mode_of m db = (case m db of None \<Rightarrow> None
     | Some v \<Rightarrow> (case receiver_decode v of Inl e \<Rightarrow> None | Inr st \<Rightarrow> Some st))"

definition modes_ok :: "(bytes \<rightharpoonup> bytes) \<Rightarrow> bool" where
  "modes_ok m \<longleftrightarrow> (\<forall>k v. m k = Some v \<longrightarrow> (\<exists>st. receiver_decode v = Inr st))"

lemma modes_okD: "modes_ok m \<Longrightarrow> m k = Some v \<Longrightarrow> receiver_decode v \<noteq> Inl e"
  unfolding modes_ok_def by force

lemma receiver_mode_ok: "receiver_mode_of m db = Some st \<Longrightarrow> receiver_ok st"
  by (auto simp: receiver_mode_of_def split: option.splits sum.splits dest: receiver_decode_canonical)

lemma receiver_mode_update:
  "receiver_ok st \<Longrightarrow> receiver_mode_of (m(db \<mapsto> receiver_bytes st)) = (receiver_mode_of m)(db \<mapsto> st)"
  "receiver_ok st \<Longrightarrow> modes_ok m \<Longrightarrow> modes_ok (m(db \<mapsto> receiver_bytes st))"
  by (auto simp: receiver_mode_of_def modes_ok_def receiver_decode_bytes fun_eq_iff)

lemma receiver_mode_None: "modes_ok m \<Longrightarrow> receiver_mode_of m db = None \<longleftrightarrow> m db = None"
  by (auto simp: receiver_mode_of_def dest: modes_okD split: option.splits sum.splits)

text \<open>The table after \<open>claim_full_global\<close>.\<close>

definition claimed_full :: "db_id \<Rightarrow> (bytes \<rightharpoonup> bytes) \<Rightarrow> bytes \<rightharpoonup> bytes" where
  "claimed_full db m = (if m db = None
     then m(db \<mapsto> receiver_bytes \<lparr>rs_mode = FullGlobal, scope_ids = []\<rparr>) else m)"

lemma claimed_full_mode:
  assumes "modes_ok m"
  shows "receiver_mode_of (claimed_full db m) =
      (receiver_mode_of m)(db \<mapsto> snd (claim_full_spec (receiver_mode_of m db)))"
    and "modes_ok (claimed_full db m)"
proof -
  have ok: "receiver_ok \<lparr>rs_mode = FullGlobal, scope_ids = []\<rparr>" by (simp add: receiver_ok_def)
  show "receiver_mode_of (claimed_full db m) =
      (receiver_mode_of m)(db \<mapsto> snd (claim_full_spec (receiver_mode_of m db)))"
    using receiver_mode_update(1) [OF ok, of m db] receiver_mode_None [OF assms, of db]
    by (auto simp: claimed_full_def claim_full_spec_def fun_eq_iff split: option.splits)
  show "modes_ok (claimed_full db m)"
    using receiver_mode_update(2) [OF ok assms] assms by (simp add: claimed_full_def)
qed

lemma claim_selective_ok:
  assumes "\<And>st. cur = Some st \<Longrightarrow> receiver_ok st" "scope_ok scope"
    and "\<And>st. cur = Some st \<Longrightarrow> scope \<notin> set (scope_ids st) \<Longrightarrow> length (scope_ids st) < 10000"
  shows "receiver_ok (snd (claim_selective_spec scope cur))"
proof (cases cur)
  case (Some st)
  have len: "length (takeWhile (\<lambda>y. y < scope) (scope_ids st)) +
      length (dropWhile (\<lambda>y. y < scope) (scope_ids st)) = length (scope_ids st)"
    by (metis length_append takeWhile_dropWhile_id)
  from Some assms lower_bound_insert [of "scope_ids st" scope] len show ?thesis
    by (cases "rs_mode st")
      (auto simp: claim_selective_spec_def receiver_ok_def lower_bound_split list_all_iff
        dest: set_takeWhileD set_dropWhileD)
qed (use assms(2) in \<open>auto simp: claim_selective_spec_def receiver_ok_def\<close>)

context mdbx_engine
begin

lemma awp_receiver_get:
  assumes "bound st a" "modes_ok (content a (m_dbi_name st))" "\<not> is_zero_sync_id db"
    and "Q (receiver_mode_of (content a (m_dbi_name st)) db) a"
    and "\<And>c rc. fails rc \<Longrightarrow> E (MdbxException c rc)"
  shows "awp (receiver_get M st db) Q E a"
  using assms bound_open [OF assms(1)]
  unfolding receiver_get_def receiver_ensure_open_def id_value_def
  by (auto intro!: awp_thenM awp_checked_bound awp_ensure_open awp_bindM awp_store_get awp_check
      awp_ret awp_liftE simp: receiver_mode_of_def dest: modes_okD split: sum.splits)

lemma awp_receiver_put:
  assumes "bound st a" "a_writable a" "\<not> is_zero_sync_id db" "receiver_ok state"
    and "\<And>a'. ext a a' \<Longrightarrow> bound st a' \<Longrightarrow> content a' = (content a)(m_dbi_name st :=
      (content a (m_dbi_name st))(db \<mapsto> receiver_bytes state)) \<Longrightarrow> Q () a'"
    and "\<And>c rc. fails rc \<Longrightarrow> E (MdbxException c rc)"
  shows "awp (receiver_put M st db state) Q E a"
  using assms unfolding receiver_put_def id_value_def
  by (auto intro!: awp_bindM awp_liftE awp_ret awp_store_put awp_check simp: receiver_encode_ok)

lemma awp_claim_full_global:
  assumes st: "bound st a" "a_writable a" "modes_ok (content a (m_dbi_name st))" "\<not> is_zero_sync_id db"
    and Q: "\<And>a'. ext a a' \<Longrightarrow> bound st a' \<Longrightarrow> content a' = (content a)(m_dbi_name st :=
        claimed_full db (content a (m_dbi_name st))) \<Longrightarrow>
      Q (fst (claim_full_spec (receiver_mode_of (content a (m_dbi_name st)) db))) a'"
    and E: "\<And>c rc. fails rc \<Longrightarrow> E (MdbxException c rc)"
  shows "awp (claim_full_global M st db) Q E a"
proof -
  let ?m = "content a (m_dbi_name st)"
  have ok: "receiver_ok \<lparr>rs_mode = FullGlobal, scope_ids = []\<rparr>" by (simp add: receiver_ok_def)
  have none: "receiver_mode_of ?m db = None \<longleftrightarrow> ?m db = None" by (rule receiver_mode_None [OF st(3)])
  have same: "Q (rs_mode s = FullGlobal) a" if "receiver_mode_of ?m db = Some s" for s
    using that st none Q [of a] by (auto simp: claim_full_spec_def claimed_full_def)
  show ?thesis
    unfolding claim_full_global_def receiver_ensure_open_def
    by (intro awp_thenM awp_checked_bound awp_ensure_open awp_bindM awp_receiver_get)
      (use st E bound_open [OF st(1)] ok same none Q in
        \<open>auto split: option.splits intro!: awp_ret awp_thenM awp_receiver_put
          simp: claim_full_spec_def claimed_full_def\<close>)
qed

lemma awp_claim_selective:
  assumes st: "bound st a" "a_writable a" "modes_ok (content a (m_dbi_name st))" "\<not> is_zero_sync_id db"
    and scope: "scope_ok scope"
    and cur: "receiver_mode_of (content a (m_dbi_name st)) db = cur"
    and room: "\<And>s. cur = Some s \<Longrightarrow> scope \<notin> set (scope_ids s) \<Longrightarrow> length (scope_ids s) < 10000"
    and Q: "\<And>a' m'. ext a a' \<Longrightarrow> bound st a' \<Longrightarrow> content a' = (content a)(m_dbi_name st := m') \<Longrightarrow>
      modes_ok m' \<Longrightarrow> receiver_mode_of m' =
        (receiver_mode_of (content a (m_dbi_name st)))(db \<mapsto> snd (claim_selective_spec scope cur)) \<Longrightarrow>
      Q (fst (claim_selective_spec scope cur)) a'"
    and E: "\<And>c rc. fails rc \<Longrightarrow> E (MdbxException c rc)"
  shows "awp (claim_selective M st db scope) Q E a"
proof -
  let ?m = "content a (m_dbi_name st)"
  have ok: "receiver_ok (snd (claim_selective_spec scope cur))"
    using cur scope room receiver_mode_ok by (intro claim_selective_ok) auto
  have v: "validate_scope_id scope = Inr ()" using scope by (simp add: validate_scope_id_ok)
  have put: "awp (thenM (receiver_put M st db (snd (claim_selective_spec scope cur))) (ret True)) Q E a"
    if "fst (claim_selective_spec scope cur)"
    using that st ok E Q cur
    by (auto intro!: awp_thenM awp_receiver_put awp_ret simp: receiver_mode_update)
  have same: "Q (fst (claim_selective_spec scope cur)) a" if "cur = Some s" "snd (claim_selective_spec scope cur) = s" for s
    using that st cur Q [of a ?m] fun_upd_idem [of "receiver_mode_of ?m" db "Some s"] by auto
  have fnd: "lower_bound (scope_ids s) scope \<noteq> length (scope_ids s) \<and>
      scope_ids s ! lower_bound (scope_ids s) scope = scope \<longleftrightarrow> scope \<in> set (scope_ids s)" if "cur = Some s" for s
    using that cur receiver_mode_ok by (intro lower_bound_found) (auto simp: receiver_ok_def)
  have body: "awp (case cur of
        Some state \<Rightarrow>
          if rs_mode state \<noteq> Selective then ret False else
          (let position = lower_bound (scope_ids state) scope in
           if position \<noteq> length (scope_ids state) \<and> scope_ids state ! position = scope then ret True
           else thenM (receiver_put M st db (state\<lparr>scope_ids :=
                   take position (scope_ids state) @ scope # drop position (scope_ids state)\<rparr>)) (ret True))
      | None \<Rightarrow> thenM (receiver_put M st db \<lparr>rs_mode = Selective, scope_ids = [scope]\<rparr>) (ret True)) Q E a"
  proof (cases cur)
    case None
    then show ?thesis using put by (simp add: claim_selective_spec_def)
  next
    case (Some s)
    then show ?thesis
      using put same [OF Some] fnd [OF Some]
      by (cases "rs_mode s"; cases "scope \<in> set (scope_ids s)")
        (auto simp: Let_def claim_selective_spec_def lower_bound_split intro!: awp_ret)
  qed
  show ?thesis
    unfolding claim_selective_def receiver_ensure_open_def
    by (rule awp_thenM, rule awp_checked_bound [OF st(1)], rule awp_thenM, rule awp_ensure_open,
        rule bound_open [OF st(1)], rule awp_thenM, rule awp_liftE, unfold v sum.case, rule awp_bindM,
        rule awp_receiver_get [OF st(1,3,4)], unfold cur, rule body, rule E)
qed

end

end
