(* ===== verification/Identity_Index.thy ===== *)
theory Identity_Index
  imports Store_Base Readers
begin

unbundle bit_operations_syntax

text \<open>
  \<^verbatim>\<open>include/mdbx_containers/sync/stores/IdentityIndexStore.hpp\<close>: the record that maps a
  (DBI name, identity key) pair to the physical key that holds it, with its origin and version.
\<close>

definition IDENTITY_NONE :: u32 where "IDENTITY_NONE = 0"
definition IDENTITY_TOMBSTONE :: u32 where "IDENTITY_TOMBSTONE = push_bit 0 1"

record identity_value =
  iv_storage_key :: bytes
  iv_origin_node_id :: node_id
  iv_seq :: u64
  iv_revision_key :: bytes
  iv_flags :: u32

definition new_identity_store :: "nat \<Rightarrow> store" where
  "new_identity_store env = new_store env ''_mdbxc_identity_index''"

definition identity_open :: "('t, 'c) mdbx \<Rightarrow> store \<Rightarrow> ('t, store) io" where
  "identity_open M st =
     open_create M ''IdentityIndexStore::open'' ''Failed to open IdentityIndexStore DBI'' st"

definition identity_ensure_open :: "store \<Rightarrow> ('t, unit) io" where
  "identity_ensure_open st = ensure_open ''IdentityIndexStore is not open'' st"

definition identity_encode_key :: "string \<Rightarrow> bytes \<Rightarrow> bytes" where
  "identity_encode_key name idk =
     write_u32_le (u32_of_size (length name)) @ bytes_of_string name @ idk"

definition encode_value :: "identity_value \<Rightarrow> bytes" where
  "encode_value v =
     put_bytes (iv_storage_key v) @
     take 16 (iv_origin_node_id v) @
     write_u64_le (iv_seq v) @
     put_bytes (iv_revision_key v) @
     write_u32_le (iv_flags v)"

definition decode_value :: "(cursor, identity_value) io" where
  "decode_value = (let e = RuntimeError ''IdentityIndexStore decode underrun'' in
     bindM (fetch_u32 e) (\<lambda>sk_len.
     bindM (fetch e (unat sk_len)) (\<lambda>sk.
     bindM (fetch e 16) (\<lambda>origin.
     bindM (fetch_u64 e) (\<lambda>sq.
     bindM (fetch_u32 e) (\<lambda>rv_len.
     bindM (fetch e (unat rv_len)) (\<lambda>rv.
     bindM (fetch_u32 e) (\<lambda>fl.
     ret \<lparr>iv_storage_key = sk, iv_origin_node_id = origin, iv_seq = sq, iv_revision_key = rv,
          iv_flags = fl\<rparr>))))))))"

definition identity_put ::
  "('t, 'c) mdbx \<Rightarrow> store \<Rightarrow> string \<Rightarrow> bytes \<Rightarrow> identity_value \<Rightarrow> ('t, unit) io" where
  "identity_put M st name idk v =
     thenM (checked_txn_env M (m_env st) ''IdentityIndexStore::put'')
     (thenM (identity_ensure_open st)
     (bindM (api_put M (m_dbi st) (identity_encode_key name idk) (encode_value v) MDBX_UPSERT) (\<lambda>rc.
        check_mdbx rc ''IdentityIndexStore put failed'')))"

text \<open>\<open>get\<close> returns false with no output, or true with the record.\<close>

definition identity_get ::
  "('t, 'c) mdbx \<Rightarrow> store \<Rightarrow> string \<Rightarrow> bytes \<Rightarrow> ('t, identity_value option) io" where
  "identity_get M st name idk =
     thenM (checked_txn_env M (m_env st) ''IdentityIndexStore::get'')
     (thenM (identity_ensure_open st)
     (bindM (api_get M (m_dbi st) (identity_encode_key name idk)) (\<lambda>(rc, v).
        if rc = MDBX_NOTFOUND then ret None
        else thenM (check_mdbx rc ''IdentityIndexStore get failed'')
          (bindM (liftE (decode_with decode_value v)) (\<lambda>out. ret (Some out))))))"

definition tombstone ::
  "('t, 'c) mdbx \<Rightarrow> store \<Rightarrow> string \<Rightarrow> bytes \<Rightarrow> identity_value \<Rightarrow> ('t, unit) io" where
  "tombstone M st name idk marker =
     thenM (checked_txn_env M (m_env st) ''IdentityIndexStore::tombstone'')
     (thenM (identity_ensure_open st)
     (identity_put M st name idk (marker\<lparr>iv_flags := iv_flags marker OR IDENTITY_TOMBSTONE\<rparr>)))"

definition identity_erase :: "('t, 'c) mdbx \<Rightarrow> store \<Rightarrow> string \<Rightarrow> bytes \<Rightarrow> ('t, bool) io" where
  "identity_erase M st name idk =
     thenM (checked_txn_env M (m_env st) ''IdentityIndexStore::erase'')
     (thenM (identity_ensure_open st)
     (bindM (api_del M (m_dbi st) (identity_encode_key name idk)) (\<lambda>rc.
        if rc = MDBX_SUCCESS then ret True
        else if rc = MDBX_NOTFOUND then ret False
        else thenM (check_mdbx rc ''IdentityIndexStore erase failed'') (ret False))))"

section \<open>Specification\<close>

text \<open>The sizes that the 32-bit length prefixes can express.\<close>

definition identity_fits :: "identity_value \<Rightarrow> bool" where
  "identity_fits v \<longleftrightarrow> length (iv_storage_key v) < 2 ^ 32 \<and> length (iv_revision_key v) < 2 ^ 32 \<and>
     is_node_id (iv_origin_node_id v)"

text \<open>The length prefix separates the name from the identity key.\<close>

lemma identity_encode_key_inj:
  assumes "length n1 < 2 ^ 32" "length n2 < 2 ^ 32"
  shows "identity_encode_key n1 k1 = identity_encode_key n2 k2 \<longleftrightarrow> n1 = n2 \<and> k1 = k2"
proof
  assume eq: "identity_encode_key n1 k1 = identity_encode_key n2 k2"
  then have "write_u32_le (u32_of_size (length n1)) = write_u32_le (u32_of_size (length n2))"
    by (simp add: identity_encode_key_def)
  then have "u32_of_size (length n1) = u32_of_size (length n2)" by (metis read_write_u32_le)
  then have "unat (u32_of_size (length n1)) = unat (u32_of_size (length n2))" by simp
  then have "length n1 = length n2" using assms by (simp add: unat_of_nat)
  with eq have "bytes_of_string n1 = bytes_of_string n2 \<and> k1 = k2"
    by (simp add: identity_encode_key_def)
  then show "n1 = n2 \<and> k1 = k2" by (metis string_of_bytes_of_string)
qed simp

lemma reads_decode_value: "identity_fits v \<Longrightarrow> reads decode_value (encode_value v) v"
  unfolding decode_value_def encode_value_def Let_def
  by (intro reads_sized_then reads_bindM [OF reads_fetch] reads_bindM [OF reads_fetch_u64]
      reads_bindM_last [OF reads_fetch_u32] reads_retI)
    (auto simp: identity_fits_def is_node_id_def)

interpretation identity_codec: codec encode_value decode_value identity_fits
  by unfold_locales (rule reads_decode_value)

text \<open>What the table holds for a name and an identity key.\<close>

definition identity_record :: "(bytes \<rightharpoonup> bytes) \<Rightarrow> string \<Rightarrow> bytes \<Rightarrow> identity_value option" where
  "identity_record m name idk = (case m (identity_encode_key name idk) of None \<Rightarrow> None
     | Some v \<Rightarrow> (case decode_with decode_value v of Inl e \<Rightarrow> None | Inr r \<Rightarrow> Some r))"

definition identity_ok :: "(bytes \<rightharpoonup> bytes) \<Rightarrow> bool" where
  "identity_ok m \<longleftrightarrow> (\<forall>k v. m k = Some v \<longrightarrow> (\<exists>r. decode_with decode_value v = Inr r))"

lemma identity_okD: "identity_ok m \<Longrightarrow> m k = Some v \<Longrightarrow> decode_with decode_value v \<noteq> Inl e"
  unfolding identity_ok_def by force

lemma identity_record_update:
  assumes "identity_fits v" "length name < 2 ^ 32" "length name' < 2 ^ 32"
  shows "identity_record (m(identity_encode_key name idk \<mapsto> encode_value v)) name' idk' =
    (if name' = name \<and> idk' = idk then Some v else identity_record m name' idk')"
  using assms decode_with_reads_all [OF reads_decode_value [OF assms(1)]]
  by (auto simp: identity_record_def identity_encode_key_inj)

lemma identity_ok_update:
  "identity_ok m \<Longrightarrow> identity_fits v \<Longrightarrow> identity_ok (m(k \<mapsto> encode_value v))"
  using decode_with_reads_all [OF reads_decode_value] by (auto simp: identity_ok_def)

context mdbx_engine
begin

lemma awp_identity_put:
  assumes "bound st a" "a_writable a"
    and "\<And>a'. ext a a' \<Longrightarrow> bound st a' \<Longrightarrow> content a' = (content a)(m_dbi_name st :=
      (content a (m_dbi_name st))(identity_encode_key name idk \<mapsto> encode_value v)) \<Longrightarrow> Q () a'"
    and "\<And>c rc. fails rc \<Longrightarrow> E (MdbxException c rc)"
  shows "awp (identity_put M st name idk v) Q E a"
  using assms bound_open [OF assms(1)]
  unfolding identity_put_def identity_ensure_open_def
  by (auto intro!: awp_thenM awp_checked_bound awp_ensure_open awp_bindM awp_store_put awp_check)

lemma awp_identity_get:
  assumes "bound st a" "identity_ok (content a (m_dbi_name st))"
    and "Q (identity_record (content a (m_dbi_name st)) name idk) a"
    and "\<And>c rc. fails rc \<Longrightarrow> E (MdbxException c rc)"
  shows "awp (identity_get M st name idk) Q E a"
  using assms bound_open [OF assms(1)]
  unfolding identity_get_def identity_ensure_open_def
  by (auto intro!: awp_thenM awp_checked_bound awp_ensure_open awp_bindM awp_store_get awp_check
      awp_ret awp_liftE simp: identity_record_def dest: identity_okD split: sum.splits)

end

end
