(* ===== verification/Sync_Apply.thy ===== *)
theory Sync_Apply
  imports Meta_Store Applied_Store Versioned_Dbi Receiver_Mode Identity_Index
begin

unbundle bit_operations_syntax

text \<open>
  The apply path of \<^verbatim>\<open>include/mdbx_containers/sync/engine/SyncEngine.hpp\<close>: one incoming batch is
  checked against the receiver's state and, if nothing speaks against it, written to the user
  tables, all inside the caller's write transaction.
\<close>

datatype conflict_policy = Reject | LastWriterWins

datatype apply_result = Applied | Skipped | Conflict

datatype apply_conflict_reason =
    NoConflict | SequenceGap | InconsistentBatchDbiFlags | ExistingDbiFlagsMismatch
  | ReservedDbiName | MissingLwwRevision | UnsupportedLwwOperation | LwwPolicyDisabled
  | UnexpectedLwwRevision | ReceiverModeConflict

record apply_outcome =
  ao_result :: apply_result
  ao_conflict_reason :: apply_conflict_reason
  ao_origin_node_id :: node_id
  ao_last_applied_seq :: u64
  ao_batch_seq :: u64
  ao_dbi_name :: string
  ao_expected_dbi_flags :: u32
  ao_incoming_dbi_flags :: u32
  ao_actual_dbi_flags_available :: bool
  ao_actual_dbi_flags :: u32
  ao_mdbx_error_code :: mdbx_rc

definition make_apply_outcome :: "apply_result \<Rightarrow> change_batch \<Rightarrow> u64 \<Rightarrow> apply_outcome" where
  "make_apply_outcome result batch last_applied =
     \<lparr>ao_result = result, ao_conflict_reason = NoConflict, ao_origin_node_id = origin_node_id batch,
      ao_last_applied_seq = last_applied, ao_batch_seq = seq batch, ao_dbi_name = [],
      ao_expected_dbi_flags = 0, ao_incoming_dbi_flags = 0, ao_actual_dbi_flags_available = False,
      ao_actual_dbi_flags = 0, ao_mdbx_error_code = MDBX_SUCCESS\<rparr>"

definition apply_conflict_reason_name :: "apply_conflict_reason \<Rightarrow> string" where
  "apply_conflict_reason_name reason = (case reason of
       NoConflict \<Rightarrow> ''none''
     | SequenceGap \<Rightarrow> ''sequence_gap''
     | InconsistentBatchDbiFlags \<Rightarrow> ''inconsistent_batch_dbi_flags''
     | ExistingDbiFlagsMismatch \<Rightarrow> ''existing_dbi_flags_mismatch''
     | ReservedDbiName \<Rightarrow> ''reserved_dbi_name''
     | MissingLwwRevision \<Rightarrow> ''missing_lww_revision''
     | UnsupportedLwwOperation \<Rightarrow> ''unsupported_lww_operation''
     | LwwPolicyDisabled \<Rightarrow> ''lww_policy_disabled''
     | UnexpectedLwwRevision \<Rightarrow> ''unexpected_lww_revision''
     | ReceiverModeConflict \<Rightarrow> ''receiver_mode_conflict'')"

text \<open>\<open>persistent_dbi_flags\<close>: the part of the flags that libmdbx stores with a table.\<close>

definition persistent_dbi_flags :: "('t, 'c) mdbx \<Rightarrow> u32 \<Rightarrow> u32" where
  "persistent_dbi_flags M flags = flags AND persistent_mask M"

definition quoted :: "string \<Rightarrow> string" where
  "quoted name = CHR 0x27 # name @ [CHR 0x27]"

section \<open>Flags of the batch\<close>

text \<open>
  \<open>dbis\<close> lists each name once, with the flags of its first operation, so \<open>map_of dbis\<close> is the index
  that the C++ code keeps beside the vector. The result is the vector, or the outcome of the
  conflict.
\<close>

fun collect_batch_dbi_flags ::
  "('t, 'c) mdbx \<Rightarrow> change_op list \<Rightarrow> (string \<times> u32) list \<Rightarrow> apply_outcome \<Rightarrow>
     apply_outcome + (string \<times> u32) list" where
  "collect_batch_dbi_flags M [] dbis outcome = Inr dbis"
| "collect_batch_dbi_flags M (op # rest) dbis outcome =
    (if is_reserved_dbi_name (dbi_name op)
     then Inl (outcome\<lparr>ao_result := Conflict, ao_conflict_reason := ReservedDbiName,
                 ao_dbi_name := dbi_name op,
                 ao_incoming_dbi_flags := persistent_dbi_flags M (dbi_flags op)\<rparr>)
     else let flags = persistent_dbi_flags M (dbi_flags op) in
       case map_of dbis (dbi_name op) of
         None \<Rightarrow> collect_batch_dbi_flags M rest (dbis @ [(dbi_name op, flags)]) outcome
       | Some existing \<Rightarrow>
           if existing \<noteq> flags
           then Inl (outcome\<lparr>ao_result := Conflict, ao_conflict_reason := InconsistentBatchDbiFlags,
                       ao_dbi_name := dbi_name op, ao_expected_dbi_flags := existing,
                       ao_incoming_dbi_flags := flags\<rparr>)
           else collect_batch_dbi_flags M rest dbis outcome)"

section \<open>The user tables\<close>

text \<open>The result of \<open>open_existing_user_dbi\<close> with its two output parameters.\<close>

definition open_existing_user_dbi ::
  "('t, 'c) mdbx \<Rightarrow> string \<Rightarrow> u32 \<Rightarrow> ('t, bool \<times> nat \<times> mdbx_rc) io" where
  "open_existing_user_dbi M name flags =
    (let open_flags = persistent_dbi_flags M flags in
     bindM (api_dbi_open M (c_str name) open_flags) (\<lambda>(rc, dbi).
     bindM (if rc = MDBX_INCOMPATIBLE \<and> open_flags AND MDBX_INTEGERKEY M = 0
            then api_dbi_open M (c_str name) (open_flags OR MDBX_INTEGERKEY M)
            else ret (rc, dbi)) (\<lambda>(rc, dbi).
     if rc = MDBX_NOTFOUND then ret (True, 0, MDBX_SUCCESS)
     else if rc = MDBX_INCOMPATIBLE \<or> rc = MDBX_EINVAL then ret (False, 0, rc)
     else thenM (check_mdbx rc (''SyncEngine: failed to preflight user DBI '' @ quoted name))
            (ret (True, dbi, MDBX_SUCCESS)))))"

definition read_existing_user_dbi_flags ::
  "('t, 'c) mdbx \<Rightarrow> string \<Rightarrow> ('t, bool \<times> u32) io" where
  "read_existing_user_dbi_flags M name =
     bindM (api_dbi_open M (c_str name) (MDBX_DB_ACCEDE M)) (\<lambda>(rc, dbi).
     if rc = MDBX_NOTFOUND \<or> rc = MDBX_INCOMPATIBLE \<or> rc = MDBX_EINVAL then ret (False, 0)
     else thenM (check_mdbx rc (''SyncEngine: failed to probe existing user DBI '' @ quoted name))
       (bindM (api_dbi_flags M dbi) (\<lambda>(rc, raw_flags).
        thenM (check_mdbx rc
                 (''SyncEngine: failed to read flags for existing user DBI '' @ quoted name))
          (ret (True, persistent_dbi_flags M raw_flags)))))"

text \<open>\<open>preflight_batch_user_dbis\<close>: the cache of handles, or the outcome of the conflict.\<close>

fun preflight_batch_user_dbis ::
  "('t, 'c) mdbx \<Rightarrow> (string \<times> u32) list \<Rightarrow> (string \<rightharpoonup> nat) \<Rightarrow> apply_outcome \<Rightarrow>
     ('t, apply_outcome + (string \<rightharpoonup> nat)) io" where
  "preflight_batch_user_dbis M [] cache outcome = ret (Inr cache)"
| "preflight_batch_user_dbis M ((name, flags) # rest) cache outcome =
     bindM (open_existing_user_dbi M name flags) (\<lambda>(opened, dbi, error_code).
     if \<not> opened then
       bindM (read_existing_user_dbi_flags M name) (\<lambda>(available, actual).
         ret (Inl (outcome\<lparr>ao_result := Conflict, ao_conflict_reason := ExistingDbiFlagsMismatch,
           ao_dbi_name := name, ao_incoming_dbi_flags := flags,
           ao_actual_dbi_flags_available := available, ao_actual_dbi_flags := actual,
           ao_mdbx_error_code := error_code\<rparr>)))
     else preflight_batch_user_dbis M rest (if dbi \<noteq> 0 then cache(name \<mapsto> dbi) else cache) outcome)"

definition resolve_user_dbi ::
  "('t, 'c) mdbx \<Rightarrow> string \<Rightarrow> u32 \<Rightarrow> (string \<rightharpoonup> nat) \<Rightarrow> ('t, nat \<times> (string \<rightharpoonup> nat)) io" where
  "resolve_user_dbi M name flags cache =
    (if cache name \<noteq> None \<and> the (cache name) \<noteq> 0 then ret (the (cache name), cache) else
     let open_dbi_flags = persistent_dbi_flags M flags;
         open_flags = open_dbi_flags OR MDBX_CREATE M in
     bindM (api_dbi_open M (c_str name) open_flags) (\<lambda>(rc, dbi).
     bindM (if rc = MDBX_INCOMPATIBLE \<and> open_dbi_flags AND MDBX_INTEGERKEY M = 0
            then api_dbi_open M (c_str name) (open_flags OR MDBX_INTEGERKEY M)
            else ret (rc, dbi)) (\<lambda>(rc, dbi).
     thenM (check_mdbx rc (''SyncEngine: failed to open user DBI '' @ quoted name))
       (ret (dbi, cache(name \<mapsto> dbi))))))"

text \<open>\<open>apply_one_op\<close> returns the cache it was given by reference.\<close>

definition apply_one_op ::
  "('t, 'c) mdbx \<Rightarrow> change_op \<Rightarrow> (string \<rightharpoonup> nat) \<Rightarrow> ('t, string \<rightharpoonup> nat) io" where
  "apply_one_op M op cache =
     bindM (resolve_user_dbi M (dbi_name op) (dbi_flags op) cache) (\<lambda>(dbi, cache).
     case op_type op of
       Put \<Rightarrow>
         bindM (api_put M dbi (storage_key op) (op_value op) MDBX_UPSERT) (\<lambda>rc.
         thenM (check_mdbx rc (''SyncEngine: mdbx_put failed for DBI '' @ quoted (dbi_name op)))
           (ret cache))
     | Delete \<Rightarrow>
         bindM (api_del M dbi (storage_key op)) (\<lambda>rc.
         thenM (if rc \<noteq> MDBX_SUCCESS \<and> rc \<noteq> MDBX_NOTFOUND
                then check_mdbx rc (''SyncEngine: mdbx_del failed for DBI '' @ quoted (dbi_name op))
                else ret ())
           (ret (cache(dbi_name op := None))))
     | ClearTable \<Rightarrow>
         bindM (api_drop M dbi) (\<lambda>rc.
         thenM (check_mdbx rc (''SyncEngine: mdbx_drop failed for DBI '' @ quoted (dbi_name op)))
           (ret (cache(dbi_name op := None)))))"

section \<open>Source versions\<close>

text \<open>\<open>std::vector\<close>'s \<open><\<close> on byte vectors is the lexicographic order of the byte lists.\<close>

definition lww_stale :: "change_op \<Rightarrow> node_id \<Rightarrow> identity_value \<Rightarrow> bool" where
  "lww_stale op origin current \<longleftrightarrow> revision_key op < iv_revision_key current \<or>
     revision_key op = iv_revision_key current \<and>
       compare_node_id origin (iv_origin_node_id current) \<le> 0"

definition lww_marker :: "change_op \<Rightarrow> node_id \<Rightarrow> u64 \<Rightarrow> identity_value" where
  "lww_marker op origin sequence = \<lparr>iv_storage_key = storage_key op, iv_origin_node_id = origin,
     iv_seq = sequence, iv_revision_key = revision_key op, iv_flags = 0\<rparr>"

definition apply_lww_one_op ::
  "('t, 'c) mdbx \<Rightarrow> change_op \<Rightarrow> node_id \<Rightarrow> u64 \<Rightarrow> (string \<rightharpoonup> nat) \<Rightarrow> store \<Rightarrow>
     ('t, string \<rightharpoonup> nat) io" where
  "apply_lww_one_op M op origin sequence cache identity_index =
     bindM (identity_get M identity_index (dbi_name op) (storage_key op)) (\<lambda>found.
     if (case found of None \<Rightarrow> False | Some current \<Rightarrow> lww_stale op origin current) then ret cache
     else bindM (apply_one_op M op cache) (\<lambda>cache.
       let marker = lww_marker op origin sequence in
       thenM (if op_type op = Delete
              then tombstone M identity_index (dbi_name op) (storage_key op) marker
              else identity_put M identity_index (dbi_name op) (storage_key op) marker)
         (ret cache)))"

text \<open>One round of \<open>validate_versioned_dbi_batch\<close>: what speaks against the operation.\<close>

definition versioned_conflict ::
  "conflict_policy \<Rightarrow> bool \<Rightarrow> change_op \<Rightarrow> apply_conflict_reason option" where
  "versioned_conflict policy is_versioned op =
    (let has_revision = op_flags op AND OP_HAS_REVISION_KEY \<noteq> 0 \<or> revision_key op \<noteq> [] in
     if \<not> is_versioned
     then (if \<not> has_revision then None else Some UnexpectedLwwRevision)
     else if policy \<noteq> LastWriterWins then Some LwwPolicyDisabled
     else if \<not> has_revision \<or> revision_key op = [] then Some MissingLwwRevision
     else if op_flags op AND OP_HAS_IDENTITY_KEY \<noteq> 0 \<or> op_type op \<noteq> Put \<and> op_type op \<noteq> Delete
     then Some UnsupportedLwwOperation
     else None)"

fun validate_versioned_dbi_batch ::
  "('t, 'c) mdbx \<Rightarrow> conflict_policy \<Rightarrow> change_op list \<Rightarrow> store \<Rightarrow> bool list \<Rightarrow> apply_outcome \<Rightarrow>
     ('t, (apply_outcome + bool list) \<times> store) io" where
  "validate_versioned_dbi_batch M policy [] registry versioned_ops outcome =
     ret (Inr versioned_ops, registry)"
| "validate_versioned_dbi_batch M policy (op # rest) registry versioned_ops outcome =
     bindM (versioned_contains M registry (dbi_name op)) (\<lambda>(is_versioned, registry).
     case versioned_conflict policy is_versioned op of
       Some reason \<Rightarrow> ret (Inl (outcome\<lparr>ao_result := Conflict, ao_conflict_reason := reason,
                                ao_dbi_name := dbi_name op\<rparr>), registry)
     | None \<Rightarrow> validate_versioned_dbi_batch M policy rest registry
                 (versioned_ops @ [is_versioned]) outcome)"

section \<open>Applying a batch\<close>

definition apply_ops ::
  "('t, 'c) mdbx \<Rightarrow> change_batch \<Rightarrow> bool list \<Rightarrow> (string \<rightharpoonup> nat) \<Rightarrow> store \<Rightarrow>
     ('t, string \<rightharpoonup> nat) io" where
  "apply_ops M batch versioned_ops cache identity_index =
     foldM (\<lambda>(op, v) cache.
       if v then apply_lww_one_op M op (origin_node_id batch) (seq batch) cache identity_index
       else apply_one_op M op cache) (zip (ops batch) versioned_ops) cache"

text \<open>The part of \<open>apply_batch_ex\<close> after the preflight.\<close>

definition apply_checked ::
  "('t, 'c) mdbx \<Rightarrow> nat \<Rightarrow> change_batch \<Rightarrow> store \<Rightarrow> store \<Rightarrow> bool list \<Rightarrow> (string \<rightharpoonup> nat) \<Rightarrow>
     apply_outcome \<Rightarrow> ('t, apply_outcome) io" where
  "apply_checked M env batch meta applied versioned_ops cache outcome =
     bindM (get_db_uuid M meta) (\<lambda>local_db_id.
     bindM (if \<not> is_zero_sync_id local_db_id
            then bindM (receiver_open M (new_receiver_store env)) (\<lambda>receiver_mode.
                   claim_full_global M receiver_mode local_db_id)
            else ret True) (\<lambda>claimed.
     if \<not> claimed
     then ret (outcome\<lparr>ao_result := Conflict, ao_conflict_reason := ReceiverModeConflict\<rparr>) else
     bindM (if True \<in> set versioned_ops then identity_open M (new_identity_store env)
            else ret (new_identity_store env)) (\<lambda>identity_index.
     bindM (apply_ops M batch versioned_ops cache identity_index) (\<lambda>_.
     thenM (set_last_applied_seq M applied (origin_node_id batch) (seq batch))
       (ret (outcome\<lparr>ao_result := Applied, ao_conflict_reason := NoConflict,
              ao_last_applied_seq := seq batch\<rparr>))))))"

definition apply_batch_ex ::
  "('t, 'c) mdbx \<Rightarrow> nat \<Rightarrow> conflict_policy \<Rightarrow> change_batch \<Rightarrow> ('t, apply_outcome) io" where
  "apply_batch_ex M env policy batch =
     thenM (checked_txn_env M env ''SyncEngine::apply_batch_ex'')
     (let outcome = make_apply_outcome Applied batch 0 in
      bindM (meta_open M (new_meta_store env)) (\<lambda>meta.
      bindM (applied_open M (new_applied_store env)) (\<lambda>applied.
      bindM (get_node_id M meta) (\<lambda>local_node.
      if compare_node_id (origin_node_id batch) local_node = 0
      then ret (outcome\<lparr>ao_result := Skipped\<rparr>) else
      bindM (last_applied_seq M applied (origin_node_id batch)) (\<lambda>last.
      let outcome = outcome\<lparr>ao_last_applied_seq := last\<rparr> in
      if seq batch \<le> last then ret (outcome\<lparr>ao_result := Skipped\<rparr>)
      else if seq batch \<noteq> last + 1
      then ret (outcome\<lparr>ao_result := Conflict, ao_conflict_reason := SequenceGap\<rparr>) else
      bindM (validate_versioned_dbi_batch M policy (ops batch) (new_versioned_store env) [] outcome)
        (\<lambda>(valid, versioned_dbis). case valid of Inl out \<Rightarrow> ret out | Inr versioned_ops \<Rightarrow>
      case collect_batch_dbi_flags M (ops batch) [] outcome of Inl out \<Rightarrow> ret out
      | Inr batch_dbis \<Rightarrow>
      bindM (preflight_batch_user_dbis M batch_dbis Map.empty outcome) (\<lambda>pre.
      case pre of Inl out \<Rightarrow> ret out
      | Inr dbi_cache \<Rightarrow>
      apply_checked M env batch meta applied versioned_ops dbi_cache outcome)))))))"

definition apply_batch ::
  "('t, 'c) mdbx \<Rightarrow> nat \<Rightarrow> conflict_policy \<Rightarrow> change_batch \<Rightarrow> ('t, apply_result) io" where
  "apply_batch M env policy batch =
     bindM (apply_batch_ex M env policy batch) (\<lambda>outcome. ret (ao_result outcome))"

end
