(* ===== verification/Apply_Spec.thy ===== *)
theory Apply_Spec
  imports Sync_Apply
begin

unbundle bit_operations_syntax

text \<open>
  What \<open>apply_batch_ex\<close> promises: a pure function that decides the outcome from the contents of the
  receiver's tables, a pure function that gives the contents after the batch, and the proof that
  the code computes both.
\<close>

type_synonym db = "string \<Rightarrow> bytes \<rightharpoonup> bytes"

section \<open>The effect of a batch\<close>

abbreviation t_meta :: string where "t_meta \<equiv> ''_mdbxc_meta''"
abbreviation t_applied :: string where "t_applied \<equiv> ''_mdbxc_applied''"
abbreviation t_versioned :: string where "t_versioned \<equiv> ''_mdbxc_versioned_dbis''"
abbreviation t_mode :: string where "t_mode \<equiv> ''_mdbxc_receiver_mode''"
abbreviation t_identity :: string where "t_identity \<equiv> ''_mdbxc_identity_index''"

definition op_effect :: "change_op \<Rightarrow> db \<Rightarrow> db" where
  "op_effect op c = c(dbi_name op := (case op_type op of
       Put \<Rightarrow> (c (dbi_name op))(storage_key op \<mapsto> op_value op)
     | Delete \<Rightarrow> (c (dbi_name op))(storage_key op := None)
     | ClearTable \<Rightarrow> Map.empty))"

definition lww_record :: "change_op \<Rightarrow> node_id \<Rightarrow> u64 \<Rightarrow> identity_value" where
  "lww_record op origin sq = (let marker = lww_marker op origin sq in
     if op_type op = Delete then marker\<lparr>iv_flags := iv_flags marker OR IDENTITY_TOMBSTONE\<rparr> else marker)"

definition lww_effect :: "node_id \<Rightarrow> u64 \<Rightarrow> change_op \<Rightarrow> db \<Rightarrow> db" where
  "lww_effect origin sq op c =
    (if (case identity_record (c t_identity) (dbi_name op) (storage_key op) of None \<Rightarrow> False
         | Some current \<Rightarrow> lww_stale op origin current) then c
     else (op_effect op c)(t_identity := (c t_identity)
       (identity_encode_key (dbi_name op) (storage_key op) \<mapsto> encode_value (lww_record op origin sq))))"

definition ops_effect :: "change_batch \<Rightarrow> bool list \<Rightarrow> db \<Rightarrow> db" where
  "ops_effect batch vs c = fold (\<lambda>(op, v). if v then lww_effect (origin_node_id batch) (seq batch) op
     else op_effect op) (zip (ops batch) vs) c"

definition versioned_ops_of :: "db \<Rightarrow> change_batch \<Rightarrow> bool list" where
  "versioned_ops_of c batch = map (\<lambda>op. versioned (c t_versioned) (dbi_name op)) (ops batch)"

definition claimed_content :: "db \<Rightarrow> db" where
  "claimed_content c = (let db = meta_db_uuid (c t_meta) in
     if is_zero_sync_id db then c else c(t_mode := claimed_full db (c t_mode)))"

definition applied_content :: "change_batch \<Rightarrow> db \<Rightarrow> db" where
  "applied_content batch c = (let c' = ops_effect batch (versioned_ops_of c batch) (claimed_content c) in
     c'(t_applied := (c' t_applied)(origin_node_id batch \<mapsto> write_u64_le (seq batch))))"

section \<open>The verdict\<close>

fun validate_spec ::
  "conflict_policy \<Rightarrow> (bytes \<rightharpoonup> bytes) \<Rightarrow> change_op list \<Rightarrow> apply_outcome \<Rightarrow> apply_outcome option" where
  "validate_spec policy reg [] outcome = None"
| "validate_spec policy reg (op # rest) outcome =
    (case versioned_conflict policy (versioned reg (dbi_name op)) op of
       Some reason \<Rightarrow> Some (outcome\<lparr>ao_result := Conflict, ao_conflict_reason := reason,
                              ao_dbi_name := dbi_name op\<rparr>)
     | None \<Rightarrow> validate_spec policy reg rest outcome)"

definition mode_allows :: "db \<Rightarrow> bool" where
  "mode_allows c \<longleftrightarrow> (let db = meta_db_uuid (c t_meta) in
     is_zero_sync_id db \<or> fst (claim_full_spec (receiver_mode_of (c t_mode) db)))"

definition verdict :: "('t, 'c) mdbx \<Rightarrow> conflict_policy \<Rightarrow> change_batch \<Rightarrow> db \<Rightarrow> apply_outcome" where
  "verdict M policy batch c =
    (let outcome = make_apply_outcome Applied batch 0;
         l = applied_seq (c t_applied) (origin_node_id batch);
         outcome' = outcome\<lparr>ao_last_applied_seq := l\<rparr> in
     if compare_node_id (origin_node_id batch) (meta_node_id (c t_meta)) = 0
     then outcome\<lparr>ao_result := Skipped\<rparr>
     else if seq batch \<le> l then outcome'\<lparr>ao_result := Skipped\<rparr>
     else if seq batch \<noteq> l + 1
     then outcome'\<lparr>ao_result := Conflict, ao_conflict_reason := SequenceGap\<rparr>
     else case validate_spec policy (c t_versioned) (ops batch) outcome' of Some out \<Rightarrow> out
     | None \<Rightarrow> (case collect_batch_dbi_flags M (ops batch) [] outcome' of Inl out \<Rightarrow> out
     | Inr _ \<Rightarrow>
         if \<not> mode_allows c
         then outcome'\<lparr>ao_result := Conflict, ao_conflict_reason := ReceiverModeConflict\<rparr>
         else outcome'\<lparr>ao_result := Applied, ao_conflict_reason := NoConflict,
                ao_last_applied_seq := seq batch\<rparr>))"

section \<open>Flags\<close>

lemma collect_flags:
  assumes "collect_batch_dbi_flags M os dbis outcome = Inr dbis'"
  shows "map_of dbis \<subseteq>\<^sub>m map_of dbis'"
    and "\<forall>op \<in> set os. \<not> is_reserved_dbi_name (dbi_name op) \<and>
           map_of dbis' (dbi_name op) = Some (persistent_dbi_flags M (dbi_flags op))"
    and "\<forall>p \<in> set dbis'. p \<in> set dbis \<or>
           (\<exists>op \<in> set os. p = (dbi_name op, persistent_dbi_flags M (dbi_flags op)))"
proof -
  have "map_of dbis \<subseteq>\<^sub>m map_of dbis' \<and> (\<forall>op \<in> set os. \<not> is_reserved_dbi_name (dbi_name op) \<and>
      map_of dbis' (dbi_name op) = Some (persistent_dbi_flags M (dbi_flags op))) \<and>
      (\<forall>p \<in> set dbis'. p \<in> set dbis \<or>
         (\<exists>op \<in> set os. p = (dbi_name op, persistent_dbi_flags M (dbi_flags op))))"
    using assms
  proof (induction M os dbis outcome arbitrary: dbis' rule: collect_batch_dbi_flags.induct)
    case (2 M op rest dbis outcome)
    let ?f = "persistent_dbi_flags M (dbi_flags op)"
    show ?case
    proof (cases "map_of dbis (dbi_name op)")
      case None
      with 2 have "collect_batch_dbi_flags M rest (dbis @ [(dbi_name op, ?f)]) outcome = Inr dbis'"
        by (auto simp: Let_def split: if_splits)
      moreover have res: "\<not> is_reserved_dbi_name (dbi_name op)" using 2(3) by (auto split: if_splits)
      ultimately have ih: "map_of (dbis @ [(dbi_name op, ?f)]) \<subseteq>\<^sub>m map_of dbis' \<and>
        (\<forall>op \<in> set rest. \<not> is_reserved_dbi_name (dbi_name op) \<and>
          map_of dbis' (dbi_name op) = Some (persistent_dbi_flags M (dbi_flags op))) \<and>
        (\<forall>p \<in> set dbis'. p \<in> set (dbis @ [(dbi_name op, ?f)]) \<or>
          (\<exists>op \<in> set rest. p = (dbi_name op, persistent_dbi_flags M (dbi_flags op))))"
        using 2(1) [OF _ refl None] by blast
      then have le: "map_of (dbis @ [(dbi_name op, ?f)]) \<subseteq>\<^sub>m map_of dbis'" by blast
      have "map_of dbis' n = Some x" if "map_of dbis n = Some x" for n x
        using le that by (auto simp: map_le_def map_add_def dom_def split: option.splits)
      moreover have "map_of dbis' (dbi_name op) = Some ?f"
        using le None by (auto simp: map_le_def map_add_def dom_def split: option.splits)
      ultimately show ?thesis using ih res by (auto simp: map_le_def dom_def)
    next
      case (Some x)
      with 2(3) have "collect_batch_dbi_flags M rest dbis outcome = Inr dbis'"
        and x: "x = ?f" "\<not> is_reserved_dbi_name (dbi_name op)"
        by (auto simp: Let_def split: if_splits)
      with 2(2) [OF x(2) refl Some] have ih: "map_of dbis \<subseteq>\<^sub>m map_of dbis' \<and>
        (\<forall>op \<in> set rest. \<not> is_reserved_dbi_name (dbi_name op) \<and>
          map_of dbis' (dbi_name op) = Some (persistent_dbi_flags M (dbi_flags op))) \<and>
        (\<forall>p \<in> set dbis'. p \<in> set dbis \<or>
          (\<exists>op \<in> set rest. p = (dbi_name op, persistent_dbi_flags M (dbi_flags op))))" by blast
      moreover have "map_of dbis' (dbi_name op) = Some x"
        using ih Some by (auto simp: map_le_def dom_def)
      ultimately show ?thesis using x by auto
    qed
  qed simp
  then show "map_of dbis \<subseteq>\<^sub>m map_of dbis'"
    "\<forall>op \<in> set os. \<not> is_reserved_dbi_name (dbi_name op) \<and>
       map_of dbis' (dbi_name op) = Some (persistent_dbi_flags M (dbi_flags op))"
    "\<forall>p \<in> set dbis'. p \<in> set dbis \<or>
       (\<exists>op \<in> set os. p = (dbi_name op, persistent_dbi_flags M (dbi_flags op)))"
    by blast+
qed

section \<open>The user tables\<close>

text \<open>\<open>F\<close> gives the persistent flags of the tables the batch names.\<close>

definition flags_ok :: "('t, 'c) mdbx \<Rightarrow> (string \<rightharpoonup> u32) \<Rightarrow> bool" where
  "flags_ok M F \<longleftrightarrow> (\<forall>n f. F n = Some f \<longrightarrow> c_str n = n \<and> \<not> is_reserved_dbi_name n \<and>
     f AND persistent_mask M = f \<and> f AND MDBX_DUPSORT M = 0)"

lemma flags_ok_user: "flags_ok M F \<Longrightarrow> F n = Some f \<Longrightarrow> \<not> is_reserved_dbi_name n"
  by (auto simp: flags_ok_def)

definition compatible :: "(string \<rightharpoonup> u32) \<Rightarrow> adb \<Rightarrow> bool" where
  "compatible F a \<longleftrightarrow> (\<forall>n f T. F n = Some f \<longrightarrow> a_tables a n = Some T \<longrightarrow> tflags T = f)"

definition cache_ok :: "(string \<rightharpoonup> nat) \<Rightarrow> adb \<Rightarrow> bool" where
  "cache_ok cache a \<longleftrightarrow> (\<forall>n h. cache n = Some h \<longrightarrow> h \<noteq> 0 \<and> a_handles a h = Some n)"

lemma cache_ok_grow: "cache_ok cache a \<Longrightarrow> grow a a' \<Longrightarrow> cache_ok cache a'"
  by (auto simp: cache_ok_def grow_def map_le_def dom_def)

lemma cache_ok_simps [simp]:
  "cache_ok Map.empty a" "cache_ok cache a \<Longrightarrow> cache_ok (cache(n := None)) a"
  by (auto simp: cache_ok_def)

lemma compatible_set_rows [simp]: "compatible F a \<Longrightarrow> compatible F (set_rows n r a)"
  by (auto simp: compatible_def set_rows_def split: option.splits if_splits)

lemma compatible_rows [simp]:
  "compatible F a \<Longrightarrow> compatible F (put_row n k v a)"
  "compatible F a \<Longrightarrow> compatible F (del_row n k a)"
  "compatible F a \<Longrightarrow> compatible F (clear_rows n a)"
  by (simp_all add: put_row_def del_row_def clear_rows_def)

lemma compatible_opened:
  assumes "compatible F a" "F n = Some f" "fl AND persistent_mask M = f"
    and "dbi_opened M fl (a_tables a n) T"
  shows "tflags T = f" and "compatible F (opened_view n h T a)"
proof -
  show "tflags T = f"
    using assms by (cases "a_tables a n") (auto simp: dbi_opened_def compatible_def)
  with assms(1,2) show "compatible F (opened_view n h T a)"
    by (auto simp: compatible_def opened_view_def)
qed

lemma compatible_ext: "flags_ok M F \<Longrightarrow> compatible F a \<Longrightarrow> ext a a' \<Longrightarrow> compatible F a'"
  by (auto simp: flags_ok_def compatible_def ext_def)

text \<open>The receiver's own tables, and batches the sizes of which the formats can express.\<close>

definition receiver_inv :: "adb \<Rightarrow> bool" where
  "receiver_inv a \<longleftrightarrow> sys_ok a \<and> meta_node_ok (content a t_meta) \<and> modes_ok (content a t_mode) \<and>
     identity_ok (content a t_identity)"

definition batch_ok :: "('t, 'c) mdbx \<Rightarrow> adb \<Rightarrow> change_batch \<Rightarrow> bool" where
  "batch_ok M a batch \<longleftrightarrow> is_node_id (origin_node_id batch) \<and>
     (\<forall>op \<in> set (ops batch). c_str (dbi_name op) = dbi_name op \<and> dbi_flags op AND MDBX_DUPSORT M = 0 \<and>
        length (storage_key op) < 2 ^ 32 \<and> length (revision_key op) < 2 ^ 32 \<and>
        (\<forall>T. \<not> is_reserved_dbi_name (dbi_name op) \<longrightarrow> a_tables a (dbi_name op) = Some T \<longrightarrow>
           tflags T = persistent_dbi_flags M (dbi_flags op)))"

lemma batch_flags:
  assumes "batch_ok M a batch" "collect_batch_dbi_flags M (ops batch) [] outcome = Inr dbis"
  shows "flags_ok M (map_of dbis)" "compatible (map_of dbis) a"
    "\<forall>op \<in> set (ops batch). map_of dbis (dbi_name op) = Some (persistent_dbi_flags M (dbi_flags op))"
    "\<forall>p \<in> set dbis. map_of dbis (fst p) = Some (snd p)"
proof -
  note c = collect_flags [OF assms(2)]
  have src: "\<exists>op \<in> set (ops batch). n = dbi_name op \<and> f = persistent_dbi_flags M (dbi_flags op)"
    if "map_of dbis n = Some f" for n f
    using c(3) map_of_SomeD [OF that] by auto
  show u: "\<forall>op \<in> set (ops batch). map_of dbis (dbi_name op) = Some (persistent_dbi_flags M (dbi_flags op))"
    using c(2) by blast
  show "\<forall>p \<in> set dbis. map_of dbis (fst p) = Some (snd p)" using c(3) u by auto
  have pf: "persistent_dbi_flags M x AND persistent_mask M = persistent_dbi_flags M x"
    "x AND MDBX_DUPSORT M = 0 \<Longrightarrow> persistent_dbi_flags M x AND MDBX_DUPSORT M = 0" for x
  proof -
    show "persistent_dbi_flags M x AND persistent_mask M = persistent_dbi_flags M x"
      by (simp add: persistent_dbi_flags_def and.assoc)
    have "persistent_dbi_flags M x AND MDBX_DUPSORT M = (x AND MDBX_DUPSORT M) AND persistent_mask M"
      by (simp add: persistent_dbi_flags_def and.assoc and.commute [of "persistent_mask M"])
    then show "x AND MDBX_DUPSORT M = 0 \<Longrightarrow> persistent_dbi_flags M x AND MDBX_DUPSORT M = 0" by simp
  qed
  show "flags_ok M (map_of dbis)" unfolding flags_ok_def
  proof (intro allI impI)
    fix n f
    assume "map_of dbis n = Some f"
    from src [OF this] obtain op where "op \<in> set (ops batch)" "n = dbi_name op"
      "f = persistent_dbi_flags M (dbi_flags op)" by blast
    with assms(1) c(2) pf show "c_str n = n \<and> \<not> is_reserved_dbi_name n \<and> f AND persistent_mask M = f \<and>
      f AND MDBX_DUPSORT M = 0"
      unfolding batch_ok_def by auto
  qed
  show "compatible (map_of dbis) a"
    unfolding compatible_def
  proof (intro allI impI)
    fix n f T
    assume "map_of dbis n = Some f" "a_tables a n = Some T"
    moreover from src [OF this(1)] obtain op where "op \<in> set (ops batch)" "n = dbi_name op"
      "f = persistent_dbi_flags M (dbi_flags op)" by blast
    ultimately show "tflags T = f" using assms(1) c(2) unfolding batch_ok_def by blast
  qed
qed

text \<open>\<open>F\<close> gives the flags of the tables of a batch, and the tables that exist have them.\<close>

definition batch_tables :: "('t, 'c) mdbx \<Rightarrow> (string \<rightharpoonup> u32) \<Rightarrow> adb \<Rightarrow> change_batch \<Rightarrow> bool" where
  "batch_tables M F a batch \<longleftrightarrow> flags_ok M F \<and> compatible F a \<and>
     (\<forall>outcome dbis. collect_batch_dbi_flags M (ops batch) [] outcome = Inr dbis \<longrightarrow>
        (\<forall>op \<in> set (ops batch). F (dbi_name op) = Some (persistent_dbi_flags M (dbi_flags op))) \<and>
        (\<forall>p \<in> set dbis. F (fst p) = Some (snd p)))"

lemma batch_tablesD:
  assumes "batch_tables M F a batch" shows "flags_ok M F" "compatible F a"
  using assms by (simp_all add: batch_tables_def)

lemma batch_tables_collect:
  assumes "batch_tables M F a batch" "collect_batch_dbi_flags M (ops batch) [] outcome = Inr dbis"
  shows "\<forall>op \<in> set (ops batch). F (dbi_name op) = Some (persistent_dbi_flags M (dbi_flags op))"
    "\<forall>p \<in> set dbis. F (fst p) = Some (snd p)"
  using assms unfolding batch_tables_def by blast+

lemma batch_tables_exist:
  assumes "batch_ok M a batch" shows "\<exists>F. batch_tables M F a batch"
proof (cases "\<exists>outcome dbis. collect_batch_dbi_flags M (ops batch) [] outcome = Inr dbis")
  case True
  then obtain o1 d1 where c: "collect_batch_dbi_flags M (ops batch) [] o1 = Inr d1" by blast
  note F = batch_flags [OF assms c]
  have "map_of d1 (fst p) = Some (snd p)"
    if "collect_batch_dbi_flags M (ops batch) [] o2 = Inr d2" "p \<in> set d2" for o2 d2 p
    using collect_flags(3) [OF that(1)] that(2) F(3) by auto
  with F show ?thesis unfolding batch_tables_def by blast
next
  case False
  then have "batch_tables M Map.empty a batch"
    by (auto simp: batch_tables_def flags_ok_def compatible_def)
  then show ?thesis by blast
qed

lemma reserved_names [simp]:
  "is_reserved_dbi_name t_meta" "is_reserved_dbi_name t_applied" "is_reserved_dbi_name t_versioned"
  "is_reserved_dbi_name t_mode" "is_reserved_dbi_name t_identity"
  by (simp_all add: is_reserved_iff)

lemma c_str_names [simp]:
  "c_str t_meta = t_meta" "c_str t_applied = t_applied" "c_str t_versioned = t_versioned"
  "c_str t_mode = t_mode" "c_str t_identity = t_identity"
  by simp_all

lemma new_store_sel [simp]: "m_dbi_name (new_store e n) = n" "m_env (new_store e n) = e" "\<not> m_open (new_store e n)"
  by (simp_all add: new_store_def)

lemma new_openable: "sys_ok a \<Longrightarrow> a_env a = e \<Longrightarrow> is_reserved_dbi_name n \<Longrightarrow> c_str n = n \<Longrightarrow>
    openable (new_store e n) a"
  by (simp add: openable_def)

lemma identity_ok_effect:
  assumes "identity_ok (c t_identity)" "dbi_name op \<noteq> t_identity"
    and "identity_fits (lww_record op origin sq)"
  shows "identity_ok (lww_effect origin sq op c t_identity)"
    and "identity_ok (op_effect op c t_identity)"
  using assms identity_ok_update by (auto simp: lww_effect_def op_effect_def)

lemma ops_effect_other:
  assumes "\<forall>op \<in> set (ops batch). dbi_name op \<noteq> n" "n \<noteq> t_identity"
  shows "ops_effect batch vs c n = c n"
proof -
  have "fold (\<lambda>(op, v). if v then lww_effect (origin_node_id batch) (seq batch) op else op_effect op) xs c n = c n"
    if "\<forall>p \<in> set xs. dbi_name (fst p) \<noteq> n" for xs :: "(change_op \<times> bool) list"
    using that
  proof (induction xs arbitrary: c)
    case (Cons x xs)
    then show ?case using assms(2) by (cases x) (auto simp: lww_effect_def op_effect_def)
  qed simp
  with assms(1) show ?thesis
    unfolding ops_effect_def by (metis (no_types, lifting) fst_conv set_zip_leftD surj_pair)
qed

lemma validate_spec_result: "validate_spec policy reg os outcome = Some out \<Longrightarrow> ao_result out = Conflict"
  by (induction os) (auto split: option.splits)

lemma collect_result:
  "collect_batch_dbi_flags M os dbis outcome = Inl out \<Longrightarrow> ao_result out = Conflict"
  by (induction M os dbis outcome rule: collect_batch_dbi_flags.induct)
    (auto simp: Let_def split: if_splits option.splits)

context mdbx_engine
begin

lemma awp_open_user:
  assumes F: "flags_ok M F" "compatible F a" "F n = Some f" and fl: "fl AND persistent_mask M = f"
    and w: "fl AND MDBX_CREATE M \<noteq> 0 \<Longrightarrow> a_writable a"
    and Q: "\<And>h T a'. h \<noteq> 0 \<Longrightarrow> grow a a' \<Longrightarrow> content a' = content a \<Longrightarrow> compatible F a' \<Longrightarrow>
      a_handles a' h = Some n \<Longrightarrow> a_tables a' n = Some T \<Longrightarrow> tflags T = f \<Longrightarrow> Q (MDBX_SUCCESS, h) a'"
    and none: "\<And>h. fl AND MDBX_CREATE M = 0 \<Longrightarrow> Q (MDBX_NOTFOUND, h) a"
    and flt: "\<And>rc h. rc \<notin> {MDBX_SUCCESS, MDBX_NOTFOUND, MDBX_EACCESS, MDBX_INCOMPATIBLE, MDBX_EINVAL} \<Longrightarrow>
      fails rc \<Longrightarrow> Q (rc, h) a"
  shows "awp (api_dbi_open M (c_str n) fl) Q E a"
proof -
  have n: "c_str n = n" "\<not> is_reserved_dbi_name n" using F by (auto simp: flags_ok_def)
  have succ: "Q (MDBX_SUCCESS, h) (a\<lparr>a_tables := (a_tables a)(n \<mapsto> T), a_handles := (a_handles a)(h \<mapsto> n)\<rparr>)"
    if "h \<noteq> 0" "dbi_opened M fl (a_tables a n) T" "a_handles a h \<in> {None, Some n}" for h T
    using that n compatible_opened [OF F(2,3) fl that(2)] grow_opened [OF that(2,3)]
      content_opened [OF that(2), of h] unfolding opened_view_def
    by (intro Q [of h _ T]) auto
  show ?thesis
    unfolding n(1)
    by (rule awp_dbi_open) (use succ none flt w F fl in \<open>auto simp: compatible_def\<close>)
qed


lemma user_flags:
  assumes "flags_ok M F" "F n = Some f"
  shows "f AND persistent_mask M = f" "(f OR MDBX_CREATE M) AND persistent_mask M = f"
    "f AND MDBX_DUPSORT M = 0" "(f OR MDBX_CREATE M) AND MDBX_CREATE M \<noteq> 0"
proof -
  show f: "f AND persistent_mask M = f" "f AND MDBX_DUPSORT M = 0" using assms by (auto simp: flags_ok_def)
  have "(f OR MDBX_CREATE M) AND persistent_mask M =
      (f AND persistent_mask M) OR (MDBX_CREATE M AND persistent_mask M)"
    by (rule bit_eqI) (auto simp: bit_simps)
  then show "(f OR MDBX_CREATE M) AND persistent_mask M = f"
    using f create_not_persistent by simp
  have "(f OR MDBX_CREATE M) AND MDBX_CREATE M = MDBX_CREATE M"
    by (rule bit_eqI) (auto simp: bit_simps)
  then show "(f OR MDBX_CREATE M) AND MDBX_CREATE M \<noteq> 0" using create_flag by simp
qed

lemma awp_open_existing_user_dbi:
  assumes F: "flags_ok M F" "compatible F a" "F n = Some f" and w: "a_writable a"
    and Q: "\<And>h a'. grow a a' \<Longrightarrow> content a' = content a \<Longrightarrow> compatible F a' \<Longrightarrow>
      (h \<noteq> 0 \<longrightarrow> a_handles a' h = Some n) \<Longrightarrow> Q (True, h, MDBX_SUCCESS) a'"
    and E: "\<And>c rc. fails rc \<Longrightarrow> E (MdbxException c rc)"
  shows "awp (open_existing_user_dbi M n f) Q E a"
proof -
  note f = user_flags [OF F(1,3)]
  have op: "awp (api_dbi_open M (c_str n) (persistent_dbi_flags M f)) R E a"
    if "\<And>h T a'. h \<noteq> 0 \<Longrightarrow> grow a a' \<Longrightarrow> content a' = content a \<Longrightarrow> compatible F a' \<Longrightarrow>
        a_handles a' h = Some n \<Longrightarrow> R (MDBX_SUCCESS, h) a'" "\<And>h. R (MDBX_NOTFOUND, h) a"
      "\<And>rc h. rc \<notin> {MDBX_SUCCESS, MDBX_NOTFOUND, MDBX_EACCESS, MDBX_INCOMPATIBLE, MDBX_EINVAL} \<Longrightarrow>
        fails rc \<Longrightarrow> R (rc, h) a" for R
    using that w f by (intro awp_open_user [OF F]) (auto simp: persistent_dbi_flags_def)
  show ?thesis
    unfolding open_existing_user_dbi_def Let_def
    by (rule awp_bindM, rule op) (use Q F(2) E in \<open>auto intro!: awp_bindM awp_ret awp_thenM awp_check\<close>)
qed

lemma awp_preflight:
  assumes F: "flags_ok M F" "compatible F a" "\<forall>p \<in> set dbis. F (fst p) = Some (snd p)"
    and w: "a_writable a" "cache_ok cache a"
    and Q: "\<And>cache' a'. grow a a' \<Longrightarrow> content a' = content a \<Longrightarrow> compatible F a' \<Longrightarrow> cache_ok cache' a' \<Longrightarrow>
      Q (Inr cache') a'"
    and E: "\<And>c rc. fails rc \<Longrightarrow> E (MdbxException c rc)"
  shows "awp (preflight_batch_user_dbis M dbis cache outcome) Q E a"
  using F(2,3) w Q
proof (induction dbis arbitrary: cache a)
  case Nil
  then show ?case by (auto intro!: awp_ret)
next
  case (Cons p rest)
  obtain n f where p: "p = (n, f)" by (cases p)
  then have nf: "F n = Some f" using Cons.prems(2) by simp
  have step: "awp (preflight_batch_user_dbis M rest (if h \<noteq> 0 then cache(n \<mapsto> h) else cache) outcome) Q E a'"
    if a': "grow a a'" "content a' = content a" "compatible F a'" "h \<noteq> 0 \<longrightarrow> a_handles a' h = Some n" for h a'
  proof (rule Cons.IH)
    show "a_writable a'" using a'(1) Cons.prems(3) by (simp add: grow_writable)
    show "cache_ok (if h \<noteq> 0 then cache(n \<mapsto> h) else cache) a'"
      using cache_ok_grow [OF Cons.prems(4) a'(1)] a'(4) by (auto simp: cache_ok_def)
    show "Q (Inr cache') a''" if "grow a' a''" "content a'' = content a'" "compatible F a''"
      "cache_ok cache' a''" for cache' a''
      using grow_trans [OF a'(1) that(1)] that a' by (intro Cons.prems(5)) auto
  qed (use a' Cons.prems in auto)
  show ?case
    unfolding p preflight_batch_user_dbis.simps
    by (rule awp_bindM, rule awp_open_existing_user_dbi [OF F(1) Cons.prems(1) nf Cons.prems(3)])
      (simp_all add: step E del: neq0_conv split del: if_split)
qed

lemma awp_resolve_user_dbi:
  assumes F: "flags_ok M F" "compatible F a" "F n = Some f" and w: "a_writable a" "cache_ok cache a"
    and fl: "persistent_dbi_flags M fl = f"
    and Q: "\<And>h cache' T a'. grow a a' \<Longrightarrow> content a' = content a \<Longrightarrow> compatible F a' \<Longrightarrow> cache_ok cache' a' \<Longrightarrow>
      a_handles a' h = Some n \<Longrightarrow> a_tables a' n = Some T \<Longrightarrow> single M T \<Longrightarrow> Q (h, cache') a'"
    and E: "\<And>c rc. fails rc \<Longrightarrow> E (MdbxException c rc)"
  shows "awp (resolve_user_dbi M n fl cache) Q E a"
proof (cases "cache n \<noteq> None \<and> the (cache n) \<noteq> 0")
  case True
  then obtain h where h: "cache n = Some h" "h \<noteq> 0" by auto
  then have hn: "a_handles a h = Some n" using w(2) by (auto simp: cache_ok_def)
  show ?thesis
  proof (rule awp_wf)
    assume "wf_view a"
    then obtain T where T: "a_tables a n = Some T" using hn unfolding wf_view_def by blast
    then have "single M T"
      using F user_flags [OF F(1,3)] by (auto simp: compatible_def single_def)
    with True h hn T Q [of a cache h T] F w show ?thesis
      unfolding resolve_user_dbi_def by (auto intro!: awp_ret)
  qed
next
  case False
  note f = user_flags [OF F(1,3)]
  have Q': "Q (h, cache(n \<mapsto> h)) a'"
    if "h \<noteq> 0" "grow a a'" "content a' = content a" "compatible F a'" "a_handles a' h = Some n"
      "a_tables a' n = Some T" "tflags T = f" for h T a'
    using that f cache_ok_grow [OF w(2) that(2)]
    by (intro Q [of a' _ h T]) (auto simp: single_def cache_ok_def)
  show ?thesis
    unfolding resolve_user_dbi_def Let_def fl
    by (subst if_not_P [OF False], rule awp_bindM, rule awp_open_user [OF F f(2)])
      (use w Q' E f in \<open>auto intro!: awp_bindM awp_ret awp_thenM awp_check\<close>)
qed


lemma awp_apply_one_op:
  assumes F: "flags_ok M F" "compatible F a" "F (dbi_name op) = Some (persistent_dbi_flags M (dbi_flags op))"
    and w: "a_writable a" "cache_ok cache a"
    and Q: "\<And>cache' a'. grow a a' \<Longrightarrow> content a' = op_effect op (content a) \<Longrightarrow> compatible F a' \<Longrightarrow>
      cache_ok cache' a' \<Longrightarrow> Q cache' a'"
    and E: "\<And>c rc. fails rc \<Longrightarrow> E (MdbxException c rc)"
  shows "awp (apply_one_op M op cache) Q E a"
proof -
  let ?n = "dbi_name op"
  have same: "content a = op_effect op (content a)" if "op_type op = Delete" "content a ?n (storage_key op) = None"
    using that by (auto simp: op_effect_def fun_eq_iff)
  have body: "awp (case op_type op of
       Put \<Rightarrow>
         bindM (api_put M h (storage_key op) (op_value op) MDBX_UPSERT) (\<lambda>rc.
         thenM (check_mdbx rc (''SyncEngine: mdbx_put failed for DBI '' @ quoted (dbi_name op)))
           (ret cache'))
     | Delete \<Rightarrow>
         bindM (api_del M h (storage_key op)) (\<lambda>rc.
         thenM (if rc \<noteq> MDBX_SUCCESS \<and> rc \<noteq> MDBX_NOTFOUND
                then check_mdbx rc (''SyncEngine: mdbx_del failed for DBI '' @ quoted (dbi_name op))
                else ret ())
           (ret (cache'(dbi_name op := None))))
     | ClearTable \<Rightarrow>
         bindM (api_drop M h) (\<lambda>rc.
         thenM (check_mdbx rc (''SyncEngine: mdbx_drop failed for DBI '' @ quoted (dbi_name op)))
           (ret (cache'(dbi_name op := None))))) Q E a'"
    if a': "grow a a'" "content a' = content a" "compatible F a'" "cache_ok cache' a'"
      "a_handles a' h = Some ?n" "a_tables a' ?n = Some T" "single M T" for h cache' T a'
  proof -
    have w': "a_writable a'" using a'(1) w(1) by (simp add: grow_writable)
    have T: "rows T = content a ?n" using a'(6) unfolding a'(2) [symmetric] by (simp add: content_def)
    have fin: "Q cache'' a''" if "grow a' a''" "content a'' = op_effect op (content a)" "compatible F a''"
      "cache_ok cache'' a''" for cache'' a''
      using that grow_trans [OF a'(1)] by (intro Q)
    have c: "cache_ok cache' a''" if "grow a' a''" for a'' using cache_ok_grow [OF a'(4) that] .
    show ?thesis
    proof (cases "op_type op")
      case Put
      with fin [of "put_row ?n (storage_key op) (op_value op) a'" cache'] a' c content_put_row [OF a'(6)] E w'
      show ?thesis
        by (auto intro!: awp_bindM awp_put [OF a'(5-7)] awp_thenM awp_check awp_ret simp: op_effect_def)
    next
      case Delete
      with fin [of "del_row ?n (storage_key op) a'" "cache'(?n := None)"] fin [of a' "cache'(?n := None)"]
        a' c content_del_row [OF a'(6)] E w' same T
      show ?thesis
        by (auto intro!: awp_bindM awp_del [OF a'(5-7)] awp_thenM awp_check awp_ret simp: op_effect_def)
    next
      case ClearTable
      with fin [of "clear_rows ?n a'" "cache'(?n := None)"] a' c E w'
      show ?thesis
        by (auto intro!: awp_bindM awp_drop [OF a'(5,6)] awp_thenM awp_check awp_ret
            simp: op_effect_def content_clear_rows)
    qed
  qed
  show ?thesis
    unfolding apply_one_op_def
    by (rule awp_bindM, rule awp_resolve_user_dbi [OF F w refl]) (use body E in auto)
qed


lemma awp_apply_lww_one_op:
  assumes F: "flags_ok M F" "compatible F a" "F (dbi_name op) = Some (persistent_dbi_flags M (dbi_flags op))"
    and w: "a_writable a" "cache_ok cache a"
    and ix: "bound ix a" "m_dbi_name ix = t_identity" "identity_ok (content a t_identity)"
    and Q: "\<And>cache' a'. grow a a' \<Longrightarrow> content a' = lww_effect origin sq op (content a) \<Longrightarrow> compatible F a' \<Longrightarrow>
      cache_ok cache' a' \<Longrightarrow> Q cache' a'"
    and E: "\<And>c rc. fails rc \<Longrightarrow> E (MdbxException c rc)"
  shows "awp (apply_lww_one_op M op origin sq cache ix) Q E a"
proof -
  let ?rec = "identity_record (content a t_identity) (dbi_name op) (storage_key op)"
  let ?stale = "case ?rec of None \<Rightarrow> False | Some current \<Rightarrow> lww_stale op origin current"
  have ne: "dbi_name op \<noteq> t_identity" using flags_ok_user [OF F(1,3)] by auto
  have fin: "awp (thenM (if op_type op = Delete
        then tombstone M ix (dbi_name op) (storage_key op) (lww_marker op origin sq)
        else identity_put M ix (dbi_name op) (storage_key op) (lww_marker op origin sq)) (ret cache')) Q E a'"
    if ns: "\<not> ?stale" and a': "grow a a'" "content a' = op_effect op (content a)" "compatible F a'"
      "cache_ok cache' a'" for cache' a'
  proof -
    have b: "bound ix a'" "a_writable a'" "m_open ix" "a_env a' = m_env ix"
      using bound_grow [OF ix(1) a'(1)] a'(1) w(1) by (auto simp: grow_writable dest: bound_open)
    have id: "content a' t_identity = content a t_identity" using a'(2) ne by (simp add: op_effect_def)
    have "Q cache' a''" if "ext a' a''" "content a'' = (content a')(t_identity :=
        (content a' t_identity)(identity_encode_key (dbi_name op) (storage_key op) \<mapsto>
          encode_value (lww_record op origin sq)))" for a''
      using ns that id a' grow_trans [OF a'(1) ext_grow [OF that(1)]] cache_ok_grow [OF a'(4) ext_grow [OF that(1)]]
        compatible_ext [OF F(1) a'(3) that(1)]
      by (intro Q) (auto simp: lww_effect_def)
    then show ?thesis
      using b ix(2) E
      by (auto intro!: awp_thenM awp_identity_put awp_checked_bound awp_ensure_open awp_ret
          simp: tombstone_def identity_ensure_open_def lww_record_def Let_def)
  qed
  have stale: "Q cache a" if ?stale using that w F(2) by (intro Q) (auto simp: lww_effect_def)
  show ?thesis
    unfolding apply_lww_one_op_def Let_def
  proof (rule awp_bindM, rule awp_identity_get [OF ix(1)], unfold ix(2))
    show "awp (if case ?rec of None \<Rightarrow> False | Some current \<Rightarrow> lww_stale op origin current then ret cache
      else bindM (apply_one_op M op cache) (\<lambda>cache. thenM (if op_type op = Delete
        then tombstone M ix (dbi_name op) (storage_key op) (lww_marker op origin sq)
        else identity_put M ix (dbi_name op) (storage_key op) (lww_marker op origin sq)) (ret cache))) Q E a"
    proof (rule awp_if)
      show "awp (ret cache) Q E a" if ?stale by (intro awp_ret stale that)
      show "awp (bindM (apply_one_op M op cache) (\<lambda>cache. thenM (if op_type op = Delete
        then tombstone M ix (dbi_name op) (storage_key op) (lww_marker op origin sq)
        else identity_put M ix (dbi_name op) (storage_key op) (lww_marker op origin sq)) (ret cache))) Q E a"
        if "\<not> ?stale"
        by (rule awp_bindM, rule awp_apply_one_op [OF F w]) (use fin [OF that] E in auto)
    qed
  qed (use ix(3) E in auto)
qed


lemma awp_apply_ops:
  assumes F: "flags_ok M F" "compatible F a"
      "\<forall>op \<in> set (ops batch). F (dbi_name op) = Some (persistent_dbi_flags M (dbi_flags op))"
    and w: "a_writable a" "cache_ok cache a" "length vs = length (ops batch)"
    and ix: "m_dbi_name ix = t_identity" "True \<in> set vs \<Longrightarrow> bound ix a" "identity_ok (content a t_identity)"
    and fits: "\<forall>op \<in> set (ops batch). identity_fits (lww_record op (origin_node_id batch) (seq batch))"
    and Q: "\<And>cache' a'. grow a a' \<Longrightarrow> content a' = ops_effect batch vs (content a) \<Longrightarrow> compatible F a' \<Longrightarrow>
      Q cache' a'"
    and E: "\<And>c rc. fails rc \<Longrightarrow> E (MdbxException c rc)"
  shows "awp (apply_ops M batch vs cache ix) Q E a"
proof -
  let ?f = "\<lambda>(op, v). if v then lww_effect (origin_node_id batch) (seq batch) op else op_effect op"
  let ?I = "\<lambda>xs cache a'. grow a a' \<and> compatible F a' \<and> cache_ok cache a' \<and>
    identity_ok (content a' t_identity) \<and>
    (\<exists>dn. zip (ops batch) vs = dn @ xs \<and> content a' = fold ?f dn (content a))"
  have step: "awp ((case x of (op, v) \<Rightarrow> \<lambda>cache. if v
        then apply_lww_one_op M op (origin_node_id batch) (seq batch) cache ix
        else apply_one_op M op cache) cache) (?I xs) E a'"
    if I: "?I (x # xs) cache a'" for x xs cache a'
  proof -
    obtain op v where x: "x = (op, v)" by (cases x)
    from I obtain dn where dn: "zip (ops batch) vs = dn @ x # xs" "content a' = fold ?f dn (content a)"
      and g: "grow a a'" "compatible F a'" "cache_ok cache a'" "identity_ok (content a' t_identity)" by blast
    have mem: "op \<in> set (ops batch)" "v \<in> set vs"
      using arg_cong [OF dn(1), of set] x by (auto dest: set_zip_leftD set_zip_rightD)
    then have Fo: "F (dbi_name op) = Some (persistent_dbi_flags M (dbi_flags op))" using F(3) by blast
    have ne: "dbi_name op \<noteq> t_identity" using flags_ok_user [OF F(1) Fo] by auto
    note idok = identity_ok_effect [of "content a'" op "origin_node_id batch" "seq batch", OF g(4) ne]
    have w': "a_writable a'" using g(1) w(1) by (simp add: grow_writable)
    have fin: "?I xs cache' a''"
      if "grow a' a''" "content a'' = ?f x (content a')" "compatible F a''" "cache_ok cache' a''" for cache' a''
      using that dn grow_trans [OF g(1) that(1)] idok fits mem(1) x
      by (intro conjI exI [of _ "dn @ [x]"]) (auto split: if_splits)
    show ?thesis
    proof (cases v)
      case True
      then have "True \<in> set vs" using mem(2) by simp
      then have b: "bound ix a'" by (rule bound_grow [OF ix(2) g(1)])
      show ?thesis
        unfolding x using True fin x
        by (auto intro!: awp_apply_lww_one_op [OF F(1) g(2) Fo w' g(3) b ix(1) g(4)] E)
    next
      case False
      then show ?thesis
        unfolding x using fin x by (auto intro!: awp_apply_one_op [OF F(1) g(2) Fo w' g(3)] E)
    qed
  qed
  show ?thesis
    unfolding apply_ops_def
  proof (rule awp_foldM [where I = ?I])
    show "?I (zip (ops batch) vs) cache a" using F w ix by auto
  qed (use step Q in \<open>auto simp: ops_effect_def\<close>)
qed

lemma awp_validate_versioned:
  assumes st: "versioned_store reg a"
    and Q: "\<And>reg' a'. ext a a' \<Longrightarrow> content a' = content a \<Longrightarrow>
      Q (case validate_spec policy (content a t_versioned) os outcome of
           Some out \<Rightarrow> Inl out
         | None \<Rightarrow> Inr (vs @ map (\<lambda>op. versioned (content a t_versioned) (dbi_name op)) os), reg') a'"
    and E: "\<And>c rc. fails rc \<Longrightarrow> E (MdbxException c rc)"
  shows "awp (validate_versioned_dbi_batch M policy os reg vs outcome) Q E a"
  using st Q
proof (induction os arbitrary: reg vs a)
  case Nil
  then show ?case by (auto intro!: awp_ret)
next
  case (Cons op os)
  let ?v = "versioned (content a t_versioned) (dbi_name op)"
  show ?case
    unfolding validate_versioned_dbi_batch.simps
  proof (rule awp_bindM, rule awp_versioned_contains [OF Cons.prems(1)])
    fix reg' a'
    assume a': "ext a a'" "content a' = content a" "versioned_store reg' a'"
    show "awp (case (?v, reg') of (is_versioned, registry) \<Rightarrow> case versioned_conflict policy is_versioned op of
        None \<Rightarrow> validate_versioned_dbi_batch M policy os registry (vs @ [is_versioned]) outcome
      | Some reason \<Rightarrow> ret (Inl (outcome\<lparr>ao_result := Conflict, ao_conflict_reason := reason,
                                ao_dbi_name := dbi_name op\<rparr>), registry)) Q E a'"
    proof (cases "versioned_conflict policy ?v op")
      case None
      have "awp (validate_versioned_dbi_batch M policy os reg' (vs @ [?v]) outcome) Q E a'"
      proof (rule Cons.IH [OF a'(3)])
        fix reg'' a''
        assume a'': "ext a' a''" "content a'' = content a'"
        have "Q (case validate_spec policy (content a t_versioned) (op # os) outcome of
           Some out \<Rightarrow> Inl out
         | None \<Rightarrow> Inr (vs @ map (\<lambda>op. versioned (content a t_versioned) (dbi_name op)) (op # os)), reg'') a''"
          using ext_trans [OF a'(1) a''(1)] a''(2) a'(2) by (intro Cons.prems(2)) auto
        with None show "Q (case validate_spec policy (content a' t_versioned) os outcome of
           None \<Rightarrow> Inr ((vs @ [?v]) @ map (\<lambda>op. versioned (content a' t_versioned) (dbi_name op)) os)
         | Some out \<Rightarrow> Inl out, reg'') a''"
          unfolding a'(2) by (simp split: option.splits)
      qed
      with None show ?thesis by simp
    next
      case (Some r)
      with Cons.prems(2) [of a' reg'] a' show ?thesis by (auto intro!: awp_ret)
    qed
  qed (rule E)
qed


lemma awp_apply_checked:
  assumes inv: "receiver_inv a" "a_writable a" "a_env a = env"
    and st: "bound meta a" "m_dbi_name meta = t_meta" "bound applied a" "m_dbi_name applied = t_applied"
    and F: "flags_ok M F" "compatible F a" "cache_ok cache a"
      "\<forall>op \<in> set (ops batch). F (dbi_name op) = Some (persistent_dbi_flags M (dbi_flags op))"
    and vs: "length vs = length (ops batch)"
    and fits: "\<forall>op \<in> set (ops batch). identity_fits (lww_record op (origin_node_id batch) (seq batch))"
    and no: "\<And>a'. grow a a' \<Longrightarrow> content a' = content a \<Longrightarrow> compatible F a' \<Longrightarrow> \<not> mode_allows (content a) \<Longrightarrow>
      Q (outcome\<lparr>ao_result := Conflict, ao_conflict_reason := ReceiverModeConflict\<rparr>) a'"
    and yes: "\<And>a' c'. grow a a' \<Longrightarrow> compatible F a' \<Longrightarrow> mode_allows (content a) \<Longrightarrow>
      c' = ops_effect batch vs (claimed_content (content a)) \<Longrightarrow>
      content a' = c'(t_applied := (c' t_applied)(origin_node_id batch \<mapsto> write_u64_le (seq batch))) \<Longrightarrow>
      Q (outcome\<lparr>ao_result := Applied, ao_conflict_reason := NoConflict,
           ao_last_applied_seq := seq batch\<rparr>) a'"
    and E: "\<And>c rc. fails rc \<Longrightarrow> E (MdbxException c rc)"
  shows "awp (apply_checked M env batch meta applied vs cache outcome) Q E a"
proof -
  let ?db = "meta_db_uuid (content a t_meta)"
  let ?out = "outcome\<lparr>ao_result := Applied, ao_conflict_reason := NoConflict, ao_last_applied_seq := seq batch\<rparr>"
  let ?rest = "\<lambda>claimed. if \<not> claimed
     then ret (outcome\<lparr>ao_result := Conflict, ao_conflict_reason := ReceiverModeConflict\<rparr>) else
     bindM (if True \<in> set vs then identity_open M (new_identity_store env) else ret (new_identity_store env)) (\<lambda>ix.
     bindM (apply_ops M batch vs cache ix) (\<lambda>_.
     thenM (set_last_applied_seq M applied (origin_node_id batch) (seq batch)) (ret ?out)))"
  have rest: "awp (?rest (mode_allows (content a))) Q E a1"
    if a1: "ext a a1" "content a1 = (if mode_allows (content a) then claimed_content (content a) else content a)" for a1
  proof (cases "mode_allows (content a)")
    case False
    then show ?thesis using no [of a1] a1 ext_grow compatible_ext [OF F(1,2) a1(1)] by (auto intro!: awp_ret)
  next
    case True
    let ?c1 = "claimed_content (content a)"
    have c1: "content a1 = ?c1" "sys_ok a1" "a_writable a1" "a_env a1 = env"
      using a1 True inv by (auto simp: receiver_inv_def ext_def grow_def)
    have ops: "awp (bindM (apply_ops M batch vs cache ix) (\<lambda>_.
        thenM (set_last_applied_seq M applied (origin_node_id batch) (seq batch)) (ret ?out))) Q E a2"
      if a2: "ext a1 a2" "content a2 = ?c1" "m_dbi_name ix = t_identity" "True \<in> set vs \<Longrightarrow> bound ix a2" for ix a2
    proof -
      note e = ext_trans [OF a1(1) a2(1)]
      have w: "a_writable a2" using e inv(2) by (simp add: ext_writable)
      have id: "identity_ok (content a2 t_identity)"
        using inv(1) a2(2) by (simp add: receiver_inv_def claimed_content_def Let_def)
      have fin: "Q ?out a4" if "grow a2 a3" "content a3 = ops_effect batch vs (content a2)" "compatible F a3" "ext a3 a4"
        "content a4 = (content a3)(t_applied := (content a3 t_applied)(origin_node_id batch \<mapsto> write_u64_le (seq batch)))"
        for a3 a4
        using that a2 True grow_trans [OF ext_grow [OF e] grow_trans [OF that(1) ext_grow [OF that(4)]]]
          compatible_ext [OF F(1) that(3,4)]
        by (intro yes [of a4]) auto
      have app: "bound applied a3" "a_writable a3" if "grow a2 a3" for a3
        using bound_grow [OF st(3) grow_trans [OF ext_grow [OF e] that]] w that by (auto simp: grow_writable)
      show ?thesis
        by (rule awp_bindM, rule awp_apply_ops [OF F(1) compatible_ext [OF F(1,2) e] F(4) w
              cache_ok_grow [OF F(3) ext_grow [OF e]] vs a2(3,4) id fits])
          (use fin app st(4) E in \<open>auto intro!: awp_thenM awp_set_last_applied_seq awp_ret\<close>)
    qed
    have op: "openable (new_identity_store env) a1"
      unfolding new_identity_store_def using c1 by (intro new_openable) auto
    have "awp (bindM (if True \<in> set vs then identity_open M (new_identity_store env)
        else ret (new_identity_store env)) (\<lambda>ix. bindM (apply_ops M batch vs cache ix) (\<lambda>_.
        thenM (set_last_applied_seq M applied (origin_node_id batch) (seq batch)) (ret ?out)))) Q E a1"
    proof (cases "True \<in> set vs")
      case True
      have ops': "awp (bindM (apply_ops M batch vs cache ix) (\<lambda>_.
        thenM (set_last_applied_seq M applied (origin_node_id batch) (seq batch)) (ret ?out))) Q E a2"
        if "ext a1 a2" "content a2 = content a1" "bound ix a2" "same_store (new_identity_store env) ix" for ix a2
        using that c1(1) by (intro ops) (auto simp: same_store_def new_identity_store_def)
      show ?thesis
        unfolding identity_open_def
        by (subst if_P [OF True], rule awp_bindM, rule awp_open_create [OF op c1(3)]) (use ops' E in auto)
    next
      case False
      then show ?thesis
        using ops [of a1 "new_identity_store env"] c1(1)
        by (auto intro!: awp_bindM [of "ret _"] awp_ret simp: new_identity_store_def)
    qed
    with True show ?thesis by simp
  qed
  show ?thesis
    unfolding apply_checked_def
  proof (rule awp_bindM, rule awp_get_db_uuid [OF st(1)], unfold st(2), cases "is_zero_sync_id ?db")
    case True
    then have "mode_allows (content a)" "claimed_content (content a) = content a"
      by (simp_all add: mode_allows_def claimed_content_def Let_def)
    with rest [of a] True show "awp (bindM (if \<not> is_zero_sync_id ?db
            then bindM (receiver_open M (new_receiver_store env)) (\<lambda>r. claim_full_global M r ?db)
            else ret True) ?rest) Q E a"
      by (auto intro!: awp_bindM [of "ret _"] awp_ret)
  next
    case False
    have op: "openable (new_receiver_store env) a"
      unfolding new_receiver_store_def using inv by (intro new_openable) (auto simp: receiver_inv_def)
    have allow: "mode_allows (content a) \<longleftrightarrow> fst (claim_full_spec (receiver_mode_of (content a t_mode) ?db))"
      using False by (simp add: mode_allows_def Let_def)
    have modes: "modes_ok (content a t_mode)" using inv(1) by (simp add: receiver_inv_def)
    have keep: "claimed_full ?db (content a t_mode) = content a t_mode" if "\<not> mode_allows (content a)"
      using that allow receiver_mode_None [OF modes, of ?db]
      by (auto simp: claim_full_spec_def claimed_full_def split: option.splits)
    have claim: "awp (claim_full_global M r ?db) (\<lambda>claimed. awp (?rest claimed) Q E) E a1"
      if "ext a a1" "content a1 = content a" "bound r a1" "same_store (new_receiver_store env) r" for r a1
    proof -
      have r: "m_dbi_name r = t_mode" "a_writable a1"
        using that inv(2) by (auto simp: same_store_def new_receiver_store_def ext_writable)
      have "awp (?rest (fst (claim_full_spec (receiver_mode_of (content a t_mode) ?db)))) Q E a2"
        if "ext a1 a2" "content a2 = (content a1)(t_mode := claimed_full ?db (content a1 t_mode))" for a2
        unfolding allow [symmetric]
        using that \<open>content a1 = content a\<close> ext_trans [OF \<open>ext a a1\<close> that(1)] keep False
        by (intro rest) (auto simp: claimed_content_def Let_def)
      then show ?thesis
        using that r modes False E by (intro awp_claim_full_global) auto
    qed
    show "awp (bindM (if \<not> is_zero_sync_id ?db
            then bindM (receiver_open M (new_receiver_store env)) (\<lambda>r. claim_full_global M r ?db)
            else ret True) ?rest) Q E a"
      unfolding receiver_open_def
      by (subst if_P [OF False], rule awp_bindM, rule awp_bindM, rule awp_open_fallback [OF op])
        (use claim inv(2) E in auto)
  qed (rule E)
qed


text \<open>The code after the sequence check.\<close>

lemma awp_apply_contiguous:
  assumes inv: "receiver_inv a" "a_writable a" "a_env a = env" and batch: "batch_ok M a batch"
    and F: "batch_tables M F a batch"
    and st: "bound meta a" "m_dbi_name meta = t_meta" "bound applied a" "m_dbi_name applied = t_applied"
    and early: "\<And>out a'. grow a a' \<Longrightarrow> content a' = content a \<Longrightarrow> compatible F a' \<Longrightarrow>
      validate_spec policy (content a t_versioned) (ops batch) o' = Some out \<or>
      validate_spec policy (content a t_versioned) (ops batch) o' = None \<and>
        (collect_batch_dbi_flags M (ops batch) [] o' = Inl out \<or>
         (\<exists>dbis. collect_batch_dbi_flags M (ops batch) [] o' = Inr dbis) \<and> \<not> mode_allows (content a) \<and>
           out = o'\<lparr>ao_result := Conflict, ao_conflict_reason := ReceiverModeConflict\<rparr>) \<Longrightarrow> Q out a'"
    and yes: "\<And>a' dbis. grow a a' \<Longrightarrow> compatible F a' \<Longrightarrow> validate_spec policy (content a t_versioned) (ops batch) o' = None \<Longrightarrow>
      collect_batch_dbi_flags M (ops batch) [] o' = Inr dbis \<Longrightarrow> mode_allows (content a) \<Longrightarrow>
      content a' = applied_content batch (content a) \<Longrightarrow>
      Q (o'\<lparr>ao_result := Applied, ao_conflict_reason := NoConflict, ao_last_applied_seq := seq batch\<rparr>) a'"
    and E: "\<And>c rc. fails rc \<Longrightarrow> E (MdbxException c rc)"
  shows "awp (bindM (validate_versioned_dbi_batch M policy (ops batch) (new_versioned_store env) [] o')
        (\<lambda>(valid, versioned_dbis). case valid of Inl out \<Rightarrow> ret out | Inr versioned_ops \<Rightarrow>
      case collect_batch_dbi_flags M (ops batch) [] o' of Inl out \<Rightarrow> ret out
      | Inr batch_dbis \<Rightarrow>
      bindM (preflight_batch_user_dbis M batch_dbis Map.empty o') (\<lambda>pre.
      case pre of Inl out \<Rightarrow> ret out
      | Inr dbi_cache \<Rightarrow>
      apply_checked M env batch meta applied versioned_ops dbi_cache o'))) Q E a"
proof -
  let ?vs = "versioned_ops_of (content a) batch"
  have fits: "\<forall>op \<in> set (ops batch). identity_fits (lww_record op (origin_node_id batch) (seq batch))"
    using batch by (auto simp: batch_ok_def identity_fits_def lww_record_def lww_marker_def Let_def)
  have reg: "versioned_store (new_versioned_store env) a"
    unfolding versioned_store_def new_versioned_store_def using inv
    by (auto intro!: new_openable simp: receiver_inv_def)
  have pre: "awp (bindM (preflight_batch_user_dbis M dbis Map.empty o') (\<lambda>pre. case pre of Inl out \<Rightarrow> ret out
      | Inr dbi_cache \<Rightarrow> apply_checked M env batch meta applied ?vs dbi_cache o')) Q E a1"
    if a1: "ext a a1" "content a1 = content a"
      and v: "validate_spec policy (content a t_versioned) (ops batch) o' = None"
      and c: "collect_batch_dbi_flags M (ops batch) [] o' = Inr dbis" for a1 dbis
  proof -
    note T = batch_tablesD [OF F] batch_tables_collect [OF F c]
    have w: "a_writable a1" using a1(1) inv(2) by (simp add: ext_writable)
    have "awp (apply_checked M env batch meta applied ?vs cache o') Q E a2"
      if a2: "grow a1 a2" "content a2 = content a1" "compatible F a2" "cache_ok cache a2" for cache a2
    proof -
      note g = grow_trans [OF ext_grow [OF a1(1)] a2(1)]
      have i2: "receiver_inv a2" "a_writable a2" "a_env a2 = env"
        using inv g a1(2) a2(2) by (auto simp: receiver_inv_def grow_def)
      have c2: "content a2 = content a" using a1(2) a2(2) by simp
      show ?thesis
      proof (rule awp_apply_checked [OF i2 bound_grow [OF st(1) g] st(2) bound_grow [OF st(3) g] st(4)
              T(1) a2(3,4) T(3) _ fits])
        show "length ?vs = length (ops batch)" by (simp add: versioned_ops_of_def)
      next
        fix a3
        assume "grow a2 a3" "content a3 = content a2" "compatible F a3" "\<not> mode_allows (content a2)"
        with c2 v c show "Q (o'\<lparr>ao_result := Conflict, ao_conflict_reason := ReceiverModeConflict\<rparr>) a3"
          by (intro early) (auto intro: grow_trans [OF g])
      next
        fix a3 c'
        assume "grow a2 a3" "compatible F a3" "mode_allows (content a2)" "c' = ops_effect batch ?vs (claimed_content (content a2))"
          "content a3 = c'(t_applied := (c' t_applied)(origin_node_id batch \<mapsto> write_u64_le (seq batch)))"
        with c2 v c show "Q (o'\<lparr>ao_result := Applied, ao_conflict_reason := NoConflict,
            ao_last_applied_seq := seq batch\<rparr>) a3"
          by (intro yes) (auto intro: grow_trans [OF g] simp: applied_content_def Let_def)
      qed (rule E)
    qed
    then show ?thesis
      by (intro awp_bindM awp_preflight [OF T(1) compatible_ext [OF T(1,2) a1(1)] T(4) w])
        (use E in auto)
  qed
  have ret: "awp (ret out) Q E a1"
    if "ext a a1" "content a1 = content a"
      "validate_spec policy (content a t_versioned) (ops batch) o' = Some out \<or>
       validate_spec policy (content a t_versioned) (ops batch) o' = None \<and>
         collect_batch_dbi_flags M (ops batch) [] o' = Inl out" for out a1
    using that early [of a1 out] ext_grow compatible_ext [OF batch_tablesD [OF F] that(1)] by (intro awp_ret) auto
  show ?thesis
    by (rule awp_bindM, rule awp_validate_versioned [OF reg])
      (use pre ret E in \<open>auto split: option.splits sum.splits simp: versioned_ops_of_def\<close>)
qed

text \<open>The code computes the verdict, and writes what the specification says or nothing.\<close>

lemma awp_apply_batch_tables:
  assumes inv: "receiver_inv a" "a_writable a" "a_env a = env"
    and F: "flags_ok M F" "compatible F a"
    and batch: "\<not> seq batch \<le> applied_seq (content a t_applied) (origin_node_id batch) \<Longrightarrow>
      batch_ok M a batch \<and> batch_tables M F a batch"
    and Q: "\<And>a'. grow a a' \<Longrightarrow> compatible F a' \<Longrightarrow> content a' =
        (if ao_result (verdict M policy batch (content a)) = Applied
         then applied_content batch (content a) else content a) \<Longrightarrow>
      Q (verdict M policy batch (content a)) a'"
    and E: "\<And>c rc. fails rc \<Longrightarrow> E (MdbxException c rc)"
  shows "awp (apply_batch_ex M env policy batch) Q E a"
proof -
  let ?c = "content a"
  let ?l = "applied_seq (?c t_applied) (origin_node_id batch)"
  let ?o = "make_apply_outcome Applied batch 0"
  let ?o' = "?o\<lparr>ao_last_applied_seq := ?l\<rparr>"
  have early: "Q out a'" if "grow a a'" "compatible F a'" "content a' = ?c" "verdict M policy batch ?c = out" "ao_result out \<noteq> Applied" for out a'
    using that Q [of a'] by auto
  let ?K = "\<lambda>meta applied. bindM (get_node_id M meta) (\<lambda>local_node.
      if compare_node_id (origin_node_id batch) local_node = 0
      then ret (?o\<lparr>ao_result := Skipped\<rparr>) else
      bindM (last_applied_seq M applied (origin_node_id batch)) (\<lambda>last.
      let outcome = ?o\<lparr>ao_last_applied_seq := last\<rparr> in
      if seq batch \<le> last then ret (outcome\<lparr>ao_result := Skipped\<rparr>)
      else if seq batch \<noteq> last + 1
      then ret (outcome\<lparr>ao_result := Conflict, ao_conflict_reason := SequenceGap\<rparr>) else
      bindM (validate_versioned_dbi_batch M policy (ops batch) (new_versioned_store env) [] outcome)
        (\<lambda>(valid, versioned_dbis). case valid of Inl out \<Rightarrow> ret out | Inr versioned_ops \<Rightarrow>
      case collect_batch_dbi_flags M (ops batch) [] outcome of Inl out \<Rightarrow> ret out
      | Inr batch_dbis \<Rightarrow>
      bindM (preflight_batch_user_dbis M batch_dbis Map.empty outcome) (\<lambda>pre.
      case pre of Inl out \<Rightarrow> ret out
      | Inr dbi_cache \<Rightarrow>
      apply_checked M env batch meta applied versioned_ops dbi_cache outcome))))"
  have stage: "awp (?K meta applied) Q E a1"
    if a1: "ext a a1" "content a1 = content a" and st: "bound meta a1" "m_dbi_name meta = t_meta"
      "bound applied a1" "m_dbi_name applied = t_applied" for meta applied a1
  proof -
    have g: "grow a a1" using ext_grow [OF a1(1)] .
    have i1: "receiver_inv a1" "a_writable a1" "a_env a1 = env"
      using inv g a1(2) by (auto simp: receiver_inv_def grow_def)
    have F1: "compatible F a1" by (rule compatible_ext [OF F a1(1)])
    have b1: "batch_ok M a1 batch" "batch_tables M F a1 batch" if "\<not> seq batch \<le> ?l"
    proof -
      show "batch_ok M a1 batch" using batch [OF that] a1(1) unfolding batch_ok_def ext_def by metis
      show "batch_tables M F a1 batch" using batch [OF that] F1 by (simp add: batch_tables_def)
    qed
    have v: "verdict M policy batch ?c = (case validate_spec policy (?c t_versioned) (ops batch) ?o' of Some out \<Rightarrow> out
       | None \<Rightarrow> (case collect_batch_dbi_flags M (ops batch) [] ?o' of Inl out \<Rightarrow> out
       | Inr _ \<Rightarrow> if \<not> mode_allows ?c
         then ?o'\<lparr>ao_result := Conflict, ao_conflict_reason := ReceiverModeConflict\<rparr>
         else ?o'\<lparr>ao_result := Applied, ao_conflict_reason := NoConflict, ao_last_applied_seq := seq batch\<rparr>))"
      if "compare_node_id (origin_node_id batch) (meta_node_id (?c t_meta)) \<noteq> 0" "\<not> seq batch \<le> ?l" "seq batch = ?l + 1"
      using that by (simp add: verdict_def Let_def)
    have go: "awp (bindM (validate_versioned_dbi_batch M policy (ops batch) (new_versioned_store env) [] ?o')
        (\<lambda>(valid, versioned_dbis). case valid of Inl out \<Rightarrow> ret out | Inr versioned_ops \<Rightarrow>
      case collect_batch_dbi_flags M (ops batch) [] ?o' of Inl out \<Rightarrow> ret out
      | Inr batch_dbis \<Rightarrow>
      bindM (preflight_batch_user_dbis M batch_dbis Map.empty ?o') (\<lambda>pre.
      case pre of Inl out \<Rightarrow> ret out
      | Inr dbi_cache \<Rightarrow>
      apply_checked M env batch meta applied versioned_ops dbi_cache ?o'))) Q E a1"
      if ok: "compare_node_id (origin_node_id batch) (meta_node_id (?c t_meta)) \<noteq> 0" "\<not> seq batch \<le> ?l" "seq batch = ?l + 1"
    proof (rule awp_apply_contiguous [OF i1 b1(1) [OF ok(2)] b1(2) [OF ok(2)] st])
      fix out a'
      assume "grow a1 a'" "content a' = content a1" "compatible F a'"
        "validate_spec policy (content a1 t_versioned) (ops batch) ?o' = Some out \<or>
          validate_spec policy (content a1 t_versioned) (ops batch) ?o' = None \<and>
        (collect_batch_dbi_flags M (ops batch) [] ?o' = Inl out \<or>
         (\<exists>dbis. collect_batch_dbi_flags M (ops batch) [] ?o' = Inr dbis) \<and> \<not> mode_allows (content a1) \<and>
           out = ?o'\<lparr>ao_result := Conflict, ao_conflict_reason := ReceiverModeConflict\<rparr>)"
      with v [OF ok] a1(2) show "Q out a'"
        by (intro early)
          (auto intro: grow_trans [OF g] dest: validate_spec_result collect_result)
    next
      fix a' dbis
      assume "grow a1 a'" "compatible F a'" "validate_spec policy (content a1 t_versioned) (ops batch) ?o' = None"
        "collect_batch_dbi_flags M (ops batch) [] ?o' = Inr dbis" "mode_allows (content a1)"
        "content a' = applied_content batch (content a1)"
      with v [OF ok] a1(2) Q [of a'] grow_trans [OF g, of a']
      show "Q (?o'\<lparr>ao_result := Applied, ao_conflict_reason := NoConflict, ao_last_applied_seq := seq batch\<rparr>) a'"
        by simp
    qed (rule E)
    have sk: "Q (?o\<lparr>ao_result := Skipped\<rparr>) a1"
      if "compare_node_id (origin_node_id batch) (meta_node_id (?c t_meta)) = 0"
      using that a1 g F1 by (intro early) (auto simp: verdict_def Let_def)
    have old: "Q (?o'\<lparr>ao_result := Skipped\<rparr>) a1"
      if "compare_node_id (origin_node_id batch) (meta_node_id (?c t_meta)) \<noteq> 0" "seq batch \<le> ?l"
      using that a1 g F1 by (intro early) (auto simp: verdict_def Let_def)
    have gap: "Q (?o'\<lparr>ao_result := Conflict, ao_conflict_reason := SequenceGap\<rparr>) a1"
      if "compare_node_id (origin_node_id batch) (meta_node_id (?c t_meta)) \<noteq> 0" "\<not> seq batch \<le> ?l" "seq batch \<noteq> ?l + 1"
      using that a1 g F1 by (intro early) (auto simp: verdict_def Let_def)
    have node: "meta_node_ok (content a1 (m_dbi_name meta))" using i1(1) st(2) by (simp add: receiver_inv_def)
    show ?thesis
      by (rule awp_bindM, rule awp_get_node_id [OF st(1)], unfold st(2) a1(2), rule awp_if, rule awp_ret,
          erule sk, rule awp_bindM, rule awp_last_applied_seq [OF st(3)], unfold st(4) a1(2) Let_def,
          intro awp_if awp_ret old gap go)
        (use E node in \<open>auto simp: st(2) a1(2)\<close>)
  qed
  have open_: "openable (new_meta_store env) a" "openable (new_applied_store env) a1" if "ext a a1" for a1
    using inv that unfolding new_meta_store_def new_applied_store_def
    by (auto intro!: new_openable simp: receiver_inv_def ext_def grow_def)
  have app: "awp (applied_open M (new_applied_store env)) (\<lambda>applied. awp (?K meta applied) Q E) E a1"
    if a1: "ext a a1" "content a1 = content a" "bound meta a1" "same_store (new_meta_store env) meta" for meta a1
  proof -
    have w: "a_writable a1" using a1(1) inv(2) by (simp add: ext_writable)
    have "awp (?K meta applied) Q E a2"
      if "ext a1 a2" "content a2 = content a1" "bound applied a2" "same_store (new_applied_store env) applied" for applied a2
      using that a1 ext_trans [OF a1(1) that(1)] bound_ext [OF a1(3) that(1)]
      by (intro stage) (auto simp: same_store_def new_meta_store_def new_applied_store_def)
    then show ?thesis
      unfolding applied_open_def by (intro awp_open_create open_(2) a1(1) w E)
  qed
  show ?thesis
    unfolding apply_batch_ex_def Let_def [of ?o] meta_open_def
    by (rule awp_thenM, rule awp_checked_txn_env, rule awp_bindM,
        rule awp_open_fallback [OF open_(1) [OF ext_refl]])
      (use app inv(2,3) E in \<open>auto intro!: awp_bindM [of "applied_open _ _"]\<close>)
qed

lemma awp_apply_batch_ex:
  assumes inv: "receiver_inv a" "a_writable a" "a_env a = env"
    and batch: "\<not> seq batch \<le> applied_seq (content a t_applied) (origin_node_id batch) \<Longrightarrow> batch_ok M a batch"
    and Q: "\<And>a'. grow a a' \<Longrightarrow> content a' =
        (if ao_result (verdict M policy batch (content a)) = Applied
         then applied_content batch (content a) else content a) \<Longrightarrow>
      Q (verdict M policy batch (content a)) a'"
    and E: "\<And>c rc. fails rc \<Longrightarrow> E (MdbxException c rc)"
  shows "awp (apply_batch_ex M env policy batch) Q E a"
proof (cases "batch_ok M a batch")
  case True
  from batch_tables_exist [OF this] obtain F where F: "batch_tables M F a batch" by blast
  show ?thesis
    by (rule awp_apply_batch_tables [OF inv batch_tablesD [OF F]]) (use True F Q E in auto)
next
  case False
  have F: "flags_ok M Map.empty" "compatible Map.empty a" by (simp_all add: flags_ok_def compatible_def)
  show ?thesis
    by (rule awp_apply_batch_tables [OF inv F]) (use False batch Q E in auto)
qed

end

end
