(* ===== verification/Mdbx_Reference.thy ===== *)
theory Mdbx_Reference
  imports Mdbx_Api
begin

unbundle bit_operations_syntax

text \<open>
  An executable engine that keeps every table as an association list and never fails: it shows
  that the contract can be met, and runs the concrete instances of the properties.
\<close>

record ref_txn =
  r_env :: nat
  r_writable :: bool
  r_tables :: "(string \<times> u32 \<times> (bytes \<times> bytes) list) list"
  r_handles :: "string list"

type_synonym ref_cursor = "nat \<times> bytes option"

definition ref_name :: "ref_txn \<Rightarrow> nat \<Rightarrow> string option" where
  "ref_name t h = (if 0 < h \<and> h \<le> length (r_handles t) then Some (r_handles t ! (h - 1)) else None)"

definition ref_rows :: "ref_txn \<Rightarrow> nat \<Rightarrow> (bytes \<times> bytes) list" where
  "ref_rows t h = (case ref_name t h of None \<Rightarrow> []
     | Some n \<Rightarrow> (case map_of (r_tables t) n of None \<Rightarrow> [] | Some (fl, rs) \<Rightarrow> rs))"

definition ref_flags :: "ref_txn \<Rightarrow> nat \<Rightarrow> u32" where
  "ref_flags t h = (case ref_name t h of None \<Rightarrow> 0
     | Some n \<Rightarrow> (case map_of (r_tables t) n of None \<Rightarrow> 0 | Some (fl, rs) \<Rightarrow> fl))"

definition ref_set :: "ref_txn \<Rightarrow> nat \<Rightarrow> (bytes \<times> bytes) list \<Rightarrow> ref_txn" where
  "ref_set t h rs = (case ref_name t h of None \<Rightarrow> t
     | Some n \<Rightarrow> t\<lparr>r_tables := (n, ref_flags t h, rs) # filter (\<lambda>p. fst p \<noteq> n) (r_tables t)\<rparr>)"

fun index_of :: "'a \<Rightarrow> 'a list \<Rightarrow> nat option" where
  "index_of x [] = None"
| "index_of x (y # ys) = (if x = y then Some 0 else map_option Suc (index_of x ys))"

definition ref_handle :: "ref_txn \<Rightarrow> string \<Rightarrow> nat \<times> ref_txn" where
  "ref_handle t n = (case index_of n (r_handles t) of
       Some i \<Rightarrow> (Suc i, t)
     | None \<Rightarrow> (Suc (length (r_handles t)), t\<lparr>r_handles := r_handles t @ [n]\<rparr>))"

definition ref_open :: "ref_txn \<Rightarrow> string \<Rightarrow> u32 \<Rightarrow> mdbx_rc \<times> nat \<times> ref_txn" where
  "ref_open t n fl =
    (case map_of (r_tables t) n of
       None \<Rightarrow>
         if fl AND 0x40000 = 0 then (MDBX_NOTFOUND, 0, t)
         else if \<not> r_writable t then (MDBX_EACCESS, 0, t)
         else (MDBX_SUCCESS, ref_handle (t\<lparr>r_tables := (n, fl AND 0x7e, []) # r_tables t\<rparr>) n)
     | Some (tf, rs) \<Rightarrow>
         if tf = fl AND 0x7e \<or> fl = 0 \<or> fl = 0x40000000 then (MDBX_SUCCESS, ref_handle t n)
         else (MDBX_INCOMPATIBLE, 0, t))"

definition ref_cursor_get ::
  "ref_txn \<Rightarrow> ref_cursor \<Rightarrow> cursor_op \<Rightarrow> mdbx_rc \<times> (bytes \<times> bytes) \<times> ref_cursor" where
  "ref_cursor_get t c op =
    (case filter (admitted (snd c) op) (map fst (ref_rows t (fst c))) of
       [] \<Rightarrow> (MDBX_NOTFOUND, ([], []), c)
     | k # ks \<Rightarrow>
         (let m = fold min ks k in
          (MDBX_SUCCESS, (m, the (map_of (ref_rows t (fst c)) m)), (fst c, Some m))))"

definition ref_engine :: "(ref_txn, ref_cursor) mdbx" where
  "ref_engine = \<lparr>
     MDBX_CREATE = 0x40000, MDBX_REVERSEKEY = 0x02, MDBX_DUPSORT = 0x04, MDBX_INTEGERKEY = 0x08,
     MDBX_DUPFIXED = 0x10, MDBX_INTEGERDUP = 0x20, MDBX_REVERSEDUP = 0x40,
     MDBX_DB_ACCEDE = 0x40000000,
     mdbx_txn_env = r_env,
     mdbx_dbi_open = ref_open,
     mdbx_dbi_flags = (\<lambda>t h. (MDBX_SUCCESS, ref_flags t h)),
     mdbx_entries = (\<lambda>t h. card (set (map fst (ref_rows t h)))),
     mdbx_get = (\<lambda>t h k. case map_of (ref_rows t h) k of
         None \<Rightarrow> (MDBX_NOTFOUND, []) | Some v \<Rightarrow> (MDBX_SUCCESS, v)),
     mdbx_put = (\<lambda>t h k v pf.
         if pf = MDBX_NOOVERWRITE \<and> map_of (ref_rows t h) k \<noteq> None then (MDBX_KEYEXIST, t)
         else (MDBX_SUCCESS, ref_set t h ((k, v) # filter (\<lambda>p. fst p \<noteq> k) (ref_rows t h)))),
     mdbx_del = (\<lambda>t h k.
         if map_of (ref_rows t h) k = None then (MDBX_NOTFOUND, t)
         else (MDBX_SUCCESS, ref_set t h (filter (\<lambda>p. fst p \<noteq> k) (ref_rows t h)))),
     mdbx_drop = (\<lambda>t h. (MDBX_SUCCESS, ref_set t h [])),
     mdbx_cmp = (\<lambda>t h a b. if a < b then - 1 else if a = b then 0 else 1),
     mdbx_cursor_open = (\<lambda>t h. (MDBX_SUCCESS, (h, None))),
     mdbx_cursor_get = ref_cursor_get,
     mdbx_cursor_del = (\<lambda>t c. (MDBX_SUCCESS,
         ref_set t (fst c) (filter (\<lambda>p. Some (fst p) \<noteq> snd c) (ref_rows t (fst c))), c))\<rparr>"

definition ref_ok :: "ref_txn \<Rightarrow> bool" where
  "ref_ok t \<longleftrightarrow> list_all (\<lambda>n. map_of (r_tables t) n \<noteq> None) (r_handles t)"

definition ref_table :: "u32 \<times> (bytes \<times> bytes) list \<Rightarrow> dbtable" where
  "ref_table p = \<lparr>tflags = fst p, rows = map_of (snd p)\<rparr>"

definition ref_view :: "ref_txn \<Rightarrow> adb" where
  "ref_view t = \<lparr>a_env = r_env t, a_writable = r_writable t,
     a_tables = (\<lambda>n. map_option ref_table (map_of (r_tables t) n)),
     a_handles = ref_name t\<rparr>"

text \<open>The engine against its view.\<close>

lemma ref_sel:
  "MDBX_CREATE ref_engine = 0x40000" "MDBX_REVERSEKEY ref_engine = 0x02"
  "MDBX_DUPSORT ref_engine = 0x04" "MDBX_INTEGERKEY ref_engine = 0x08"
  "MDBX_DUPFIXED ref_engine = 0x10" "MDBX_INTEGERDUP ref_engine = 0x20"
  "MDBX_REVERSEDUP ref_engine = 0x40" "MDBX_DB_ACCEDE ref_engine = 0x40000000"
  "mdbx_txn_env ref_engine t = r_env t"
  "mdbx_dbi_open ref_engine t n fl = ref_open t n fl"
  "mdbx_dbi_flags ref_engine t h = (MDBX_SUCCESS, ref_flags t h)"
  "mdbx_entries ref_engine t h = card (set (map fst (ref_rows t h)))"
  "mdbx_get ref_engine t h k = (case map_of (ref_rows t h) k of
      None \<Rightarrow> (MDBX_NOTFOUND, []) | Some v \<Rightarrow> (MDBX_SUCCESS, v))"
  "mdbx_put ref_engine t h k v pf =
     (if pf = MDBX_NOOVERWRITE \<and> map_of (ref_rows t h) k \<noteq> None then (MDBX_KEYEXIST, t)
      else (MDBX_SUCCESS, ref_set t h ((k, v) # filter (\<lambda>p. fst p \<noteq> k) (ref_rows t h))))"
  "mdbx_del ref_engine t h k =
     (if map_of (ref_rows t h) k = None then (MDBX_NOTFOUND, t)
      else (MDBX_SUCCESS, ref_set t h (filter (\<lambda>p. fst p \<noteq> k) (ref_rows t h))))"
  "mdbx_drop ref_engine t h = (MDBX_SUCCESS, ref_set t h [])"
  "mdbx_cmp ref_engine t h x y = (if x < y then - 1 else if x = y then 0 else 1)"
  "mdbx_cursor_open ref_engine t h = (MDBX_SUCCESS, (h, None))"
  "mdbx_cursor_get ref_engine t c op = ref_cursor_get t c op"
  "mdbx_cursor_del ref_engine t c = (MDBX_SUCCESS,
     ref_set t (fst c) (filter (\<lambda>p. Some (fst p) \<noteq> snd c) (ref_rows t (fst c))), c)"
  by (simp_all add: ref_engine_def)

lemma ref_persistent: "persistent_mask ref_engine = 0x7e"
  by (simp add: persistent_mask_def ref_sel)

lemma ref_ok_name: "ref_ok t \<Longrightarrow> ref_name t h = Some n \<Longrightarrow> map_of (r_tables t) n \<noteq> None"
  by (auto simp: ref_ok_def ref_name_def list_all_length split: if_splits)

lemma index_of_Some: "index_of x xs = Some i \<Longrightarrow> i < length xs \<and> xs ! i = x"
  by (induction xs arbitrary: i) (auto split: if_splits)

lemma ref_rows_view:
  "ref_name t h = Some n \<Longrightarrow> a_tables (ref_view t) n = Some T \<Longrightarrow>
     rows T = map_of (ref_rows t h) \<and> tflags T = ref_flags t h"
  by (auto simp: ref_view_def ref_rows_def ref_flags_def ref_table_def)

lemma ref_name_set [simp]: "ref_name (ref_set t h rs) = ref_name t"
  by (auto simp: ref_set_def ref_name_def split: option.splits)

lemma ref_set_view:
  assumes "ref_ok t" and "ref_name t h = Some n"
  shows "ref_ok (ref_set t h rs) \<and> ref_view (ref_set t h rs) = set_rows n (map_of rs) (ref_view t)"
proof -
  obtain p where p: "map_of (r_tables t) n = Some p" using ref_ok_name [OF assms] by auto
  have "ref_flags t h = fst p" using assms(2) p by (simp add: ref_flags_def split: prod.splits)
  moreover have "map_of (filter (\<lambda>p. fst p \<noteq> n) xs) m = (if m = n then None else map_of xs m)"
    for xs :: "(string \<times> u32 \<times> (bytes \<times> bytes) list) list" and m
    by (induction xs) auto
  ultimately show ?thesis
    using assms p
    by (auto simp: ref_set_def ref_view_def set_rows_def ref_ok_def list_all_iff ref_table_def
        ref_name_def fun_eq_iff)
qed

lemma map_of_filter_key: "map_of (filter (\<lambda>p. fst p \<noteq> k) xs) = (map_of xs)(k := None)"
  by (induction xs) auto

lemma ref_handle_view:
  assumes "ref_ok t" and "map_of (r_tables t) n \<noteq> None" and "ref_handle t n = (h, t')"
  shows "ref_ok t' \<and> 0 < h \<and> ref_name t h \<in> {None, Some n} \<and>
    ref_view t' = (ref_view t)\<lparr>a_handles := (ref_name t)(h \<mapsto> n)\<rparr>"
  using assms
  by (auto dest!: index_of_Some simp: ref_handle_def ref_ok_def ref_view_def ref_name_def fun_eq_iff nth_append
      split: option.splits)

lemma fold_min_least:
  fixes k :: "'a :: linorder"
  shows "fold min ks k \<in> set (k # ks) \<and> (\<forall>x \<in> set (k # ks). fold min ks k \<le> x)"
  by (induction ks arbitrary: k) (fastforce simp: min_def)+

lemma ref_open_success:
  assumes "ref_ok t" and "ref_open t n fl = (MDBX_SUCCESS, h, t')"
  shows "ref_ok t' \<and> (\<exists>T'. dbi_opened ref_engine fl (a_tables (ref_view t) n) T' \<and>
    a_handles (ref_view t) h \<in> {None, Some n} \<and>
    ref_view t' = (ref_view t)\<lparr>a_tables := (a_tables (ref_view t))(n \<mapsto> T'),
                               a_handles := (a_handles (ref_view t))(h \<mapsto> n)\<rparr>)"
proof (cases "map_of (r_tables t) n")
  case None
  let ?t = "t\<lparr>r_tables := (n, fl AND 0x7e, []) # r_tables t\<rparr>"
  from None assms(2) have "ref_handle ?t n = (h, t')" and create: "fl AND 0x40000 \<noteq> 0"
    by (auto simp: ref_open_def split: if_splits)
  moreover have "ref_ok ?t" using assms(1) by (auto simp: ref_ok_def list_all_iff)
  ultimately have *: "ref_ok t' \<and> ref_name ?t h \<in> {None, Some n} \<and>
      ref_view t' = (ref_view ?t)\<lparr>a_handles := (ref_name ?t)(h \<mapsto> n)\<rparr>"
    using ref_handle_view [of ?t n h t'] by auto
  have "ref_name ?t = ref_name t" by (simp add: ref_name_def fun_eq_iff)
  moreover have "ref_view ?t = (ref_view t)\<lparr>a_tables :=
      (a_tables (ref_view t))(n \<mapsto> \<lparr>tflags = fl AND 0x7e, rows = Map.empty\<rparr>)\<rparr>"
    by (auto simp: ref_view_def ref_table_def ref_name_def fun_eq_iff)
  ultimately show ?thesis
    using * create None
    by (intro conjI exI [of _ "\<lparr>tflags = fl AND 0x7e, rows = Map.empty\<rparr>"])
      (auto simp: dbi_opened_def ref_persistent ref_view_def ref_sel)
next
  case (Some p)
  with assms(2) have "ref_handle t n = (h, t')"
    by (auto simp: ref_open_def split: if_splits prod.splits)
  with Some assms(1) ref_handle_view [of t n h t'] show ?thesis
    by (intro conjI exI [of _ "ref_table p"])
      (auto simp: dbi_opened_def ref_view_def fun_upd_idem)
qed

lemma ref_open_other:
  assumes "ref_open t n fl = (rc, h, t')" and "rc \<noteq> MDBX_SUCCESS"
  shows "t' = t \<and>
    (rc = MDBX_NOTFOUND \<and> a_tables (ref_view t) n = None \<and> fl AND 0x40000 = 0 \<or>
     rc = MDBX_EACCESS \<and> \<not> r_writable t \<and> fl AND 0x40000 \<noteq> 0 \<or>
     rc = MDBX_INCOMPATIBLE \<and> (\<exists>T. a_tables (ref_view t) n = Some T \<and> tflags T \<noteq> fl AND 0x7e))"
  using assms
  by (auto simp: ref_open_def ref_view_def ref_table_def ref_handle_def
      split: option.splits prod.splits if_splits)

lemma ref_cursor_get_law:
  assumes rows: "rs = ref_rows t (fst c)" and g: "ref_cursor_get t c op = (rc, (k, v), c')"
  shows "(rc = MDBX_SUCCESS \<and> map_of rs k = Some v \<and> admitted (snd c) op k \<and>
            (\<forall>k' \<in> dom (map_of rs). admitted (snd c) op k' \<longrightarrow> k \<le> k') \<and>
            fst c' = fst c \<and> snd c' = Some k) \<or>
         (rc = MDBX_NOTFOUND \<and> (\<forall>k' \<in> dom (map_of rs). \<not> admitted (snd c) op k'))"
proof (cases "filter (admitted (snd c) op) (map fst rs)")
  case Nil
  with rows g show ?thesis
    by (auto simp: ref_cursor_get_def filter_empty_conv dom_map_of_conv_image_fst)
next
  case (Cons x xs)
  have k: "k = fold min xs x" and v: "v = the (map_of rs k)" and "rc = MDBX_SUCCESS"
    "c' = (fst c, Some k)"
    using rows g Cons by (auto simp: ref_cursor_get_def Let_def)
  have mem: "k \<in> set (filter (admitted (snd c) op) (map fst rs))"
    and least: "\<forall>x \<in> set (filter (admitted (snd c) op) (map fst rs)). k \<le> x"
    using fold_min_least [of xs x] k Cons by auto
  then have "map_of rs k \<noteq> None" by (auto simp: map_of_eq_None_iff)
  with mem least v \<open>rc = MDBX_SUCCESS\<close> \<open>c' = (fst c, Some k)\<close> show ?thesis
    by (auto simp: dom_map_of_conv_image_fst)
qed

lemma ref_view_sel [simp]:
  "a_env (ref_view t) = r_env t" "a_writable (ref_view t) = r_writable t"
  "a_handles (ref_view t) = ref_name t"
  by (simp_all add: ref_view_def)

lemma ref_view_tables: "a_tables (ref_view t) n = map_option ref_table (map_of (r_tables t) n)"
  by (simp add: ref_view_def)

lemma ref_content:
  "ref_name t h = Some n \<Longrightarrow> a_tables (ref_view t) n = Some T \<Longrightarrow>
     content (ref_view t) n = map_of (ref_rows t h)"
  by (simp only: content_def option.case ref_rows_view)

lemma ref_put_view:
  assumes "ref_ok t" "ref_name t h = Some n" "a_tables (ref_view t) n = Some T"
  shows "ref_ok (ref_set t h ((k, v) # filter (\<lambda>p. fst p \<noteq> k) (ref_rows t h))) \<and>
    ref_view (ref_set t h ((k, v) # filter (\<lambda>p. fst p \<noteq> k) (ref_rows t h))) =
      put_row n k v (ref_view t)"
  using ref_set_view [OF assms(1,2), of "(k, v) # filter (\<lambda>p. fst p \<noteq> k) (ref_rows t h)"]
    ref_content [OF assms(2,3)]
  by (simp only: put_row_def map_of.simps map_of_filter_key fst_conv snd_conv fun_upd_upd simp_thms)

lemma ref_del_view:
  assumes "ref_ok t" "ref_name t h = Some n" "a_tables (ref_view t) n = Some T"
  shows "ref_ok (ref_set t h (filter (\<lambda>p. fst p \<noteq> k) (ref_rows t h))) \<and>
    ref_view (ref_set t h (filter (\<lambda>p. fst p \<noteq> k) (ref_rows t h))) = del_row n k (ref_view t)"
  using ref_set_view [OF assms(1,2), of "filter (\<lambda>p. fst p \<noteq> k) (ref_rows t h)"]
    ref_content [OF assms(2,3)]
  by (simp only: del_row_def map_of_filter_key simp_thms)

interpretation ref: mdbx_engine ref_engine ref_ok ref_view fst snd "\<lambda>_. False"
proof (unfold_locales, goal_cases)
  case 1
  then show ?case by (simp add: ref_persistent ref_sel)
next
  case 2
  then show ?case by (simp add: ref_sel)
next
  case (3 t)
  then show ?case by (simp add: ref_sel)
next
  case (4 t h n)
  then show ?case by (auto simp: ref_name_def split: if_splits)
next
  case (5 t h n)
  then show ?case using ref_ok_name [of t h n] by (auto simp: ref_view_tables)
next
  case (6 t n T)
  then show ?case by (auto simp: ref_view_tables ref_table_def finite_dom_map_of)
next
  case (7 t n fl h t')
  then show ?case using ref_open_success unfolding ref_sel by blast
next
  case (8 t n fl rc h t')
  then have "ref_open t n fl = (rc, h, t')" by (simp add: ref_sel)
  from ref_open_other [OF this 8(3)] 8(1) show ?case
    unfolding ref_persistent ref_sel by (elim conjE disjE) simp_all
next
  case (9 t h n T rc fl)
  then show ?case using ref_rows_view [of t h n T] by (simp add: ref_sel)
next
  case (10 t h n T)
  then show ?case using ref_rows_view [of t h n T]
    by (simp add: ref_sel dom_map_of_conv_image_fst)
next
  case (11 t h n T k rc v)
  then show ?case using ref_rows_view [of t h n T] by (auto simp: ref_sel split: option.splits)
next
  case (12 t h n T k v pf rc t')
  then have "rows T = map_of (ref_rows t h)" using ref_rows_view [of t h n T] by simp
  with 12 ref_put_view [OF 12(1) _ 12(3), of h k v] show ?case
    by (cases pf) (auto simp: ref_sel split: if_splits)
next
  case (13 t h n T k rc t')
  then have "rows T = map_of (ref_rows t h)" using ref_rows_view [of t h n T] by simp
  with 13 ref_del_view [OF 13(1) _ 13(3), of h k] show ?case
    by (auto simp: ref_sel split: if_splits)
next
  case (14 t h n T rc t')
  then show ?case using ref_set_view [of t h n "[]"] by (simp add: ref_sel clear_rows_def)
next
  case (15 t h n T x y)
  then show ?case by (auto simp: ref_sel)
next
  case (16 t h n rc c)
  then show ?case by (auto simp: ref_sel)
next
  case (17 t c n T op rc k v c')
  then have "rows T = map_of (ref_rows t (fst c))" using ref_rows_view [of t "fst c" n T] by simp
  with ref_cursor_get_law [OF refl, of t c op rc k v c'] 17(5) show ?case
    by (simp add: ref_sel)
next
  case (18 t c n T k rc t' c')
  with ref_del_view [OF 18(1) _ 18(3), of "fst c" k] show ?case
    by (auto simp: ref_sel)
qed

end
