(* ===== verification/Apply_Properties.thy ===== *)
theory Apply_Properties
  imports Apply_Spec Mdbx_Reference "HOL-Library.Multiset"
begin

unbundle bit_operations_syntax

text \<open>
  Consequences of the specification of the apply path: batches are applied once and in order,
  the reserved tables stay out of reach, and source-versioned tables converge.
\<close>

section \<open>Source-versioned operations commute\<close>




















section \<open>Runs of the code\<close>

lemma identity_ok_ops:
  assumes "identity_ok (c t_identity)"
    and "\<forall>op \<in> set (ops batch). \<not> is_reserved_dbi_name (dbi_name op) \<and>
      identity_fits (lww_record op (origin_node_id batch) (seq batch))"
  shows "identity_ok (ops_effect batch vs c t_identity)"
proof -
  have "identity_ok (fold (\<lambda>(op, v). if v then lww_effect (origin_node_id batch) (seq batch) op
      else op_effect op) xs c t_identity)" if "\<forall>p \<in> set xs. fst p \<in> set (ops batch)" for xs :: "(change_op \<times> bool) list"
    using that assms
  proof (induction xs arbitrary: c)
    case (Cons x xs)
    obtain op v where x: "x = (op, v)" by (cases x)
    have "dbi_name op \<noteq> t_identity" using Cons.prems x by auto
    then have "identity_ok ((if v then lww_effect (origin_node_id batch) (seq batch) op else op_effect op) c t_identity)"
      using Cons.prems x identity_ok_update by (auto simp: lww_effect_def op_effect_def)
    with Cons x show ?case by (cases v) simp_all
  qed simp
  then show ?thesis
    unfolding ops_effect_def by (metis (no_types, lifting) fst_conv set_zip_leftD surj_pair)
qed

lemma applied_reserved:
  assumes "\<forall>op \<in> set (ops batch). \<not> is_reserved_dbi_name (dbi_name op)"
    and "is_reserved_dbi_name n" "n \<notin> {t_applied, t_mode, t_identity}"
  shows "applied_content batch c n = c n"
proof -
  have "dbi_name op \<noteq> n" if "op \<in> set (ops batch)" for op using assms that by auto
  then show ?thesis
    using assms(3) ops_effect_other [of batch n]
    by (auto simp: applied_content_def claimed_content_def Let_def)
qed

lemma verdict_Applied:
  assumes "ao_result (verdict M policy batch c) = Applied"
  shows "seq batch = applied_seq (c t_applied) (origin_node_id batch) + 1"
    and "\<not> seq batch \<le> applied_seq (c t_applied) (origin_node_id batch)"
    and "compare_node_id (origin_node_id batch) (meta_node_id (c t_meta)) \<noteq> 0"
    and "\<forall>op \<in> set (ops batch). \<not> is_reserved_dbi_name (dbi_name op)"
    and "mode_allows c"
proof -
  let ?l = "applied_seq (c t_applied) (origin_node_id batch)"
  let ?o = "(make_apply_outcome Applied batch 0)\<lparr>ao_last_applied_seq := ?l\<rparr>"
  show *: "\<not> seq batch \<le> ?l" "compare_node_id (origin_node_id batch) (meta_node_id (c t_meta)) \<noteq> 0"
    "seq batch = ?l + 1"
    using assms by (auto simp: verdict_def Let_def split: if_splits)
  from assms * have v: "validate_spec policy (c t_versioned) (ops batch) ?o = None"
    by (auto simp: verdict_def Let_def dest: validate_spec_result split: if_splits option.splits)
  from assms * v obtain dbis where d: "collect_batch_dbi_flags M (ops batch) [] ?o = Inr dbis"
    by (auto simp: verdict_def Let_def dest: collect_result split: if_splits sum.splits)
  then show "\<forall>op \<in> set (ops batch). \<not> is_reserved_dbi_name (dbi_name op)"
    using collect_flags(2) [OF d] by blast
  from assms * v d show "mode_allows c" by (auto simp: verdict_def Let_def split: if_splits)
qed

lemma applied_content_applied:
  assumes "\<forall>op \<in> set (ops batch). \<not> is_reserved_dbi_name (dbi_name op)"
  shows "applied_content batch c t_applied = (c t_applied)(origin_node_id batch \<mapsto> write_u64_le (seq batch))"
proof -
  have "dbi_name op \<noteq> t_applied" if "op \<in> set (ops batch)" for op using assms that by auto
  then show ?thesis
    using ops_effect_other [of batch t_applied]
    by (cases "is_zero_sync_id (meta_db_uuid (c t_meta))")
      (simp_all add: applied_content_def claimed_content_def Let_def)
qed

lemma receiver_inv_applied:
  assumes inv: "receiver_inv a" "batch_ok M a batch" and v: "ao_result (verdict M policy batch (content a)) = Applied"
    and a': "grow a a'" "content a' = applied_content batch (content a)"
  shows "receiver_inv a'"
proof -
  note res = verdict_Applied(4) [OF v]
  have ne: "\<forall>op \<in> set (ops batch). dbi_name op \<noteq> t_mode" using res by auto
  have "modes_ok (content a' t_mode)"
    using inv(1) claimed_full_mode(2) ops_effect_other [OF ne] unfolding a'(2)
    by (cases "is_zero_sync_id (meta_db_uuid (content a t_meta))")
      (auto simp: applied_content_def claimed_content_def Let_def receiver_inv_def)
  moreover have "identity_ok (content a' t_identity)"
  proof -
    have "identity_ok (ops_effect batch (versioned_ops_of (content a) batch) (claimed_content (content a)) t_identity)"
      using inv res by (intro identity_ok_ops)
        (auto simp: receiver_inv_def claimed_content_def Let_def batch_ok_def identity_fits_def lww_record_def
          lww_marker_def)
    then show ?thesis unfolding a'(2) by (simp add: applied_content_def Let_def)
  qed
  moreover have "content a' t_meta = content a t_meta" using applied_reserved [OF res] a'(2) by simp
  ultimately show ?thesis using inv(1) a'(1) by (auto simp: receiver_inv_def grow_def)
qed

context mdbx_engine
begin

lemma run_apply:
  assumes t: "ok t" "receiver_inv (view t)" "a_writable (view t)" "a_env (view t) = env"
    and batch: "\<not> seq batch \<le> applied_seq (content (view t) t_applied) (origin_node_id batch) \<Longrightarrow>
      batch_ok M (view t) batch"
  shows "case apply_batch_ex M env policy batch t of (r, t') \<Rightarrow> (case r of
      Inl e \<Rightarrow> \<exists>ctx rc. e = MdbxException ctx rc \<and> fails rc
    | Inr out \<Rightarrow> ok t' \<and> grow (view t) (view t') \<and> receiver_inv (view t') \<and>
        out = verdict M policy batch (content (view t)) \<and>
        content (view t') = (if ao_result out = Applied then applied_content batch (content (view t))
          else content (view t)))"
proof -
  let ?a = "view t"
  let ?v = "verdict M policy batch (content ?a)"
  have inv: "receiver_inv a'"
    if "grow ?a a'" "content a' = (if ao_result ?v = Applied then applied_content batch (content ?a) else content ?a)" for a'
  proof (cases "ao_result ?v = Applied")
    case True
    then show ?thesis
      using that t(2) batch [OF verdict_Applied(2) [OF True]] by (auto intro: receiver_inv_applied)
  next
    case False
    then show ?thesis using that t(2) by (auto simp: receiver_inv_def grow_def)
  qed
  have "awp (apply_batch_ex M env policy batch) (\<lambda>out a'. grow ?a a' \<and> receiver_inv a' \<and> out = ?v \<and>
      content a' = (if ao_result out = Applied then applied_content batch (content ?a) else content ?a))
      (\<lambda>e. \<exists>ctx rc. e = MdbxException ctx rc \<and> fails rc) ?a"
    using inv by (intro awp_apply_batch_ex [OF t(2-4) batch]) auto
  from awp_run [OF this t(1)] show ?thesis by (auto split: sum.splits)
qed

end

text \<open>A receiver with an empty database, and a batch for it.\<close>

definition empty_receiver :: ref_txn where
  "empty_receiver = \<lparr>r_env = 7, r_writable = True, r_tables = [], r_handles = []\<rparr>"

definition example_put :: change_op where
  "example_put = \<lparr>op_type = Put, op_flags = 0, dbi_flags = 0, dbi_name = ''users'',
     storage_key = [1, 2], op_value = [3], identity_key = [], revision_key = []\<rparr>"

definition example_incoming :: change_batch where
  "example_incoming = \<lparr>version = 1, batch_flags = 0, origin_node_id = replicate 16 5, seq = 1,
     time_unix_ns = 0, ops = [example_put]\<rparr>"

lemma empty_receiver_content: "content (ref_view empty_receiver) = (\<lambda>_. Map.empty)"
  by (simp add: empty_receiver_def ref_view_def content_def ref_table_def fun_eq_iff)

lemma empty_receiver_hyps:
  "ref_ok empty_receiver" "receiver_inv (ref_view empty_receiver)"
  "a_writable (ref_view empty_receiver)" "a_env (ref_view empty_receiver) = 7"
  "batch_ok ref_engine (ref_view empty_receiver) example_incoming"
  by (simp_all add: empty_receiver_content receiver_inv_def meta_node_ok_def modes_ok_def identity_ok_def
      sys_ok_def batch_ok_def example_incoming_def example_put_def is_node_id_def)
    (simp_all add: empty_receiver_def ref_ok_def ref_view_def ref_table_def)



text \<open>
  C5. A batch is applied once: when the engine has applied a batch and meets it again, it skips it
  and changes nothing.
\<close>

theorem apply_once:
  assumes "mdbx_engine M ok view cursor_dbi cursor_at fails"
    and "ok t" "receiver_inv (view t)" "a_writable (view t)" "a_env (view t) = env"
    and "batch_ok M (view t) batch"
    and "apply_batch_ex M env policy batch t = (Inr out, t1)" and "ao_result out = Applied"
  shows "case apply_batch_ex M env policy batch t1 of
      (Inl e, t2) \<Rightarrow> \<exists>ctx rc. e = MdbxException ctx rc \<and> fails rc
    | (Inr out', t2) \<Rightarrow> ao_result out' = Skipped \<and> content (view t2) = content (view t1)"
proof -
  have r: "ok t1 \<and> grow (view t) (view t1) \<and> receiver_inv (view t1) \<and>
      out = verdict M policy batch (content (view t)) \<and>
      content (view t1) = applied_content batch (content (view t))"
    using mdbx_engine.run_apply [OF assms(1-5), of batch policy] assms(6-8) by simp
  then have v: "ao_result (verdict M policy batch (content (view t))) = Applied" using assms(8) by simp
  have seq: "applied_seq (content (view t1) t_applied) (origin_node_id batch) = seq batch"
    using r applied_content_applied [OF verdict_Applied(4) [OF v]] by simp
  have "meta_node_id (content (view t1) t_meta) = meta_node_id (content (view t) t_meta)"
    using r applied_reserved [OF verdict_Applied(4) [OF v], of t_meta] by simp
  with seq verdict_Applied(3) [OF v]
  have v1: "ao_result (verdict M policy batch (content (view t1))) = Skipped"
    by (simp add: verdict_def Let_def)
  have "a_writable (view t1)" "a_env (view t1) = env" using r assms(4,5) by (auto simp: grow_def)
  with mdbx_engine.run_apply [OF assms(1), of t1 env batch policy] r seq v1
  show ?thesis by (auto split: prod.splits sum.splits)
qed

text \<open>The example runs, and is applied.\<close>

lemma example_applied:
  obtains out t1 where "apply_batch_ex ref_engine 7 Reject example_incoming empty_receiver = (Inr out, t1)"
    "ao_result out = Applied"
proof -
  have "case apply_batch_ex ref_engine 7 Reject example_incoming empty_receiver of
      (Inr out, t1) \<Rightarrow> ao_result out = Applied | (Inl e, t1) \<Rightarrow> False"
    by code_simp
  with that show ?thesis by (auto split: prod.splits sum.splits)
qed

theorem apply_once_witness:
  "\<exists>out t1. apply_batch_ex ref_engine 7 Reject example_incoming empty_receiver = (Inr out, t1) \<and>
     ao_result out = Applied \<and>
     (case apply_batch_ex ref_engine 7 Reject example_incoming t1 of
        (Inl e, t2) \<Rightarrow> False
      | (Inr out', t2) \<Rightarrow> ao_result out' = Skipped \<and> content (ref_view t2) = content (ref_view t1))"
proof -
  obtain out t1 where run: "apply_batch_ex ref_engine 7 Reject example_incoming empty_receiver = (Inr out, t1)"
    "ao_result out = Applied" by (rule example_applied)
  from apply_once [OF ref.mdbx_engine_axioms empty_receiver_hyps run] run show ?thesis
    by (intro exI [of _ out] exI [of _ t1]) (auto split: prod.splits sum.splits)
qed



text \<open>
  C6. Batches of an origin are applied without gaps: the last applied sequence number of an origin
  changes only when a batch of that origin is applied, and then from \<open>n\<close> to \<open>n + 1\<close>.
\<close>

theorem apply_in_order:
  assumes "mdbx_engine M ok view cursor_dbi cursor_at fails"
    and "ok t" "receiver_inv (view t)" "a_writable (view t)" "a_env (view t) = env"
    and "batch_ok M (view t) batch"
    and "apply_batch_ex M env policy batch t = (Inr out, t')"
  shows "let before = applied_seq (content (view t) t_applied);
             after = applied_seq (content (view t') t_applied) in
    (if ao_result out = Applied
     then before (origin_node_id batch) < seq batch \<and> seq batch = before (origin_node_id batch) + 1 \<and>
       after = before(origin_node_id batch := seq batch)
     else after = before)"
proof -
  have r: "out = verdict M policy batch (content (view t))"
    "content (view t') = (if ao_result out = Applied then applied_content batch (content (view t))
       else content (view t))"
    using mdbx_engine.run_apply [OF assms(1-5), of batch policy] assms(6,7) by auto
  show ?thesis
  proof (cases "ao_result out = Applied")
    case True
    then have v: "ao_result (verdict M policy batch (content (view t))) = Applied" using r(1) by simp
    have "applied_seq (content (view t') t_applied) =
        (applied_seq (content (view t) t_applied))(origin_node_id batch := seq batch)"
      by (rule ext) (simp add: r(2) True applied_content_applied [OF verdict_Applied(4) [OF v]])
    with True verdict_Applied(1,2) [OF v] show ?thesis by (simp add: Let_def)
  qed (use r in auto)
qed

theorem apply_in_order_witness:
  "\<exists>out t'. apply_batch_ex ref_engine 7 Reject example_incoming empty_receiver = (Inr out, t') \<and>
     ao_result out = Applied \<and> applied_seq (content (ref_view t') t_applied) (replicate 16 5) = 1"
proof -
  obtain out t1 where run: "apply_batch_ex ref_engine 7 Reject example_incoming empty_receiver = (Inr out, t1)"
    "ao_result out = Applied" by (rule example_applied)
  from apply_in_order [OF ref.mdbx_engine_axioms empty_receiver_hyps run(1)] run show ?thesis
    by (intro exI [of _ out] exI [of _ t1]) (simp add: Let_def example_incoming_def)
qed

section \<open>Names with a NUL\<close>




end
