(* ===== verification/Origin_Index.thy ===== *)
theory Origin_Index
  imports Store_Base
begin

text \<open>
  \<^verbatim>\<open>include/mdbx_containers/sync/stores/OriginIndexStore.hpp\<close>: per origin, the highest
  sequence number known to the change log.
\<close>

definition new_origin_store :: "nat \<Rightarrow> store" where
  "new_origin_store env = new_store env ''_mdbxc_origins''"

definition origins_open :: "('t, 'c) mdbx \<Rightarrow> store \<Rightarrow> ('t, store) io" where
  "origins_open M st =
     open_fallback M ''OriginIndexStore::open'' ''Failed to open OriginIndexStore DBI'' st"

definition origins_open_existing :: "('t, 'c) mdbx \<Rightarrow> store \<Rightarrow> ('t, bool \<times> store) io" where
  "origins_open_existing M st =
     open_existing M ''OriginIndexStore::open_existing''
       ''Failed to open existing OriginIndexStore DBI'' st"

definition origins_ensure_open :: "store \<Rightarrow> ('t, unit) io" where
  "origins_ensure_open st = ensure_open ''OriginIndexStore is not open'' st"

definition origins_empty :: "('t, 'c) mdbx \<Rightarrow> store \<Rightarrow> ('t, bool) io" where
  "origins_empty M st =
     thenM (checked_txn_env M (m_env st) ''OriginIndexStore::empty'')
     (thenM (origins_ensure_open st)
     (bindM (api_cursor_open M (m_dbi st)) (\<lambda>(rc, c).
      thenM (check_mdbx rc ''OriginIndexStore empty cursor open failed'')
     (bindM (api_cursor_get M c MDBX_FIRST) (\<lambda>(rc, kv, c).
        if rc = MDBX_NOTFOUND then ret True
        else thenM (check_mdbx rc ''OriginIndexStore empty cursor get failed'') (ret False))))))"

definition origins_clear :: "('t, 'c) mdbx \<Rightarrow> store \<Rightarrow> ('t, nat) io" where
  "origins_clear M st =
     thenM (checked_txn_env M (m_env st) ''OriginIndexStore::clear'')
     (thenM (origins_ensure_open st)
     (bindM (api_entries M (m_dbi st)) (\<lambda>entries.
      bindM (api_cursor_open M (m_dbi st)) (\<lambda>(rc, c).
      thenM (check_mdbx rc ''OriginIndexStore clear cursor open failed'')
     (bindM (bindM (api_cursor_get M c MDBX_FIRST) (\<lambda>r.
        cursor_loop M (Suc entries) (\<lambda>k v c removed.
          bindM (api_cursor_del M c) (\<lambda>(rc, c').
          thenM (check_mdbx rc ''OriginIndexStore clear cursor_del failed'')
                (ret (Continue (removed + 1) c')))) r 0)) (\<lambda>(removed, rc).
      if rc \<noteq> MDBX_NOTFOUND
      then thenM (check_mdbx rc ''OriginIndexStore clear cursor walk failed'') (ret removed)
      else ret removed))))))"

text \<open>\<open>last_seq\<close> returns false with no output, or true with the sequence number.\<close>

definition last_seq :: "('t, 'c) mdbx \<Rightarrow> store \<Rightarrow> node_id \<Rightarrow> ('t, u64 option) io" where
  "last_seq M st origin =
     thenM (checked_txn_env M (m_env st) ''OriginIndexStore::last_seq'')
     (thenM (origins_ensure_open st)
     (bindM (api_get M (m_dbi st) origin) (\<lambda>(rc, v).
        if rc = MDBX_NOTFOUND then ret None
        else thenM (check_mdbx rc ''OriginIndexStore last_seq failed'')
          (if length v \<noteq> 8 then throw (RuntimeError ''OriginIndexStore value has invalid size'')
           else ret (Some (read_u64_le v))))))"

definition note_origin :: "('t, 'c) mdbx \<Rightarrow> store \<Rightarrow> node_id \<Rightarrow> u64 \<Rightarrow> ('t, unit) io" where
  "note_origin M st origin seq =
     thenM (checked_txn_env M (m_env st) ''OriginIndexStore::note_origin'')
     (thenM (origins_ensure_open st)
     (bindM (last_seq M st origin) (\<lambda>r.
        if (case r of Some current \<Rightarrow> current \<ge> seq | None \<Rightarrow> False) then ret ()
        else bindM (api_put M (m_dbi st) origin (write_u64_le seq) MDBX_UPSERT) (\<lambda>rc.
          check_mdbx rc ''OriginIndexStore note_origin failed''))))"

definition origin_tails :: "('t, 'c) mdbx \<Rightarrow> store \<Rightarrow> ('t, (node_id \<times> u64) list) io" where
  "origin_tails M st =
     thenM (checked_txn_env M (m_env st) ''OriginIndexStore::origin_tails'')
     (thenM (origins_ensure_open st)
     (bindM (scan_loop M (m_dbi st) MDBX_FIRST
        ''OriginIndexStore origin_tails cursor open failed'' (\<lambda>k v out.
          if length k \<noteq> 16 then throw (RuntimeError ''OriginIndexStore key has invalid size'')
          else if length v \<noteq> 8 then throw (RuntimeError ''OriginIndexStore value has invalid size'')
          else ret (out @ [(k, read_u64_le v)])) []) (\<lambda>(out, rc).
      if rc \<noteq> MDBX_NOTFOUND
      then thenM (check_mdbx rc ''OriginIndexStore origin_tails cursor walk failed'') (ret out)
      else ret out)))"

definition origins :: "('t, 'c) mdbx \<Rightarrow> store \<Rightarrow> ('t, node_id list) io" where
  "origins M st = bindM (origin_tails M st) (\<lambda>tails. ret (map fst tails))"

section \<open>Specification\<close>

text \<open>A well-formed index: 16-byte keys, 8-byte values.\<close>

definition index_ok :: "(bytes \<rightharpoonup> bytes) \<Rightarrow> bool" where
  "index_ok m \<longleftrightarrow> (\<forall>k v. m k = Some v \<longrightarrow> length k = 16 \<and> length v = 8)"

definition tail_of :: "(bytes \<rightharpoonup> bytes) \<Rightarrow> node_id \<Rightarrow> u64 option" where
  "tail_of m origin = map_option read_u64_le (m origin)"

lemma tail_of_update [simp]:
  "tail_of (m(k \<mapsto> write_u64_le s)) origin = (if origin = k then Some s else tail_of m origin)"
  by (simp add: tail_of_def)

lemma index_ok_update [simp]: "index_ok m \<Longrightarrow> is_node_id k \<Longrightarrow> index_ok (m(k \<mapsto> write_u64_le s))"
  by (auto simp: index_ok_def)

text \<open>The table after \<open>note_origin\<close>: the tail only grows.\<close>

definition noted :: "node_id \<Rightarrow> u64 \<Rightarrow> (bytes \<rightharpoonup> bytes) \<Rightarrow> bytes \<rightharpoonup> bytes" where
  "noted origin s m =
    (if (case tail_of m origin of Some cur \<Rightarrow> cur \<ge> s | None \<Rightarrow> False) then m
     else m(origin \<mapsto> write_u64_le s))"

lemma noted_tail:
  "tail_of (noted origin s m) origin' =
    (if origin' = origin
     then Some (case tail_of m origin of None \<Rightarrow> s | Some cur \<Rightarrow> max cur s)
     else tail_of m origin')"
  by (auto simp: noted_def max_def split: option.splits)

lemma noted_ok [simp]: "index_ok m \<Longrightarrow> is_node_id origin \<Longrightarrow> index_ok (noted origin s m)"
  by (simp add: noted_def)

text \<open>\<open>origin_tails\<close> lists the index in key order.\<close>

definition tails_list :: "(bytes \<rightharpoonup> bytes) \<Rightarrow> (node_id \<times> u64) list" where
  "tails_list m = map (\<lambda>(k, v). (k, read_u64_le v)) (rows_where (\<lambda>_. True) m)"

context mdbx_engine
begin

lemma awp_last_seq:
  assumes "bound st a" "index_ok (content a (m_dbi_name st))"
    and "Q (tail_of (content a (m_dbi_name st)) origin) a"
    and "\<And>c rc. fails rc \<Longrightarrow> E (MdbxException c rc)"
  shows "awp (last_seq M st origin) Q E a"
  using assms bound_open [OF assms(1)]
  unfolding last_seq_def origins_ensure_open_def
  by (auto intro!: awp_thenM awp_checked_bound awp_ensure_open awp_bindM awp_store_get awp_check
      awp_ret simp: tail_of_def index_ok_def)

lemma awp_note_origin:
  assumes "bound st a" "a_writable a" "index_ok (content a (m_dbi_name st))"
    and "\<And>a'. ext a a' \<Longrightarrow> bound st a' \<Longrightarrow> content a' = (content a)(m_dbi_name st :=
      noted origin s (content a (m_dbi_name st))) \<Longrightarrow> Q () a'"
    and "\<And>c rc. fails rc \<Longrightarrow> E (MdbxException c rc)"
  shows "awp (note_origin M st origin s) Q E a"
  using assms(1-3,5) assms(4) [of a] assms(4) bound_open [OF assms(1)]
  unfolding note_origin_def origins_ensure_open_def noted_def
  by (auto intro!: awp_thenM awp_checked_bound awp_ensure_open awp_bindM awp_last_seq awp_if awp_ret
      awp_store_put awp_check)

lemma awp_origins_empty:
  assumes "bound st a" and "Q (content a (m_dbi_name st) = Map.empty) a"
    and "\<And>c rc. fails rc \<Longrightarrow> E (MdbxException c rc)"
  shows "awp (origins_empty M st) Q E a"
proof (rule awp_wf)
  assume "wf_view a"
  from bound_table [OF assms(1) this] obtain T where T:
    "a_handles a (m_dbi st) = Some (m_dbi_name st)" "a_tables a (m_dbi_name st) = Some T"
    "tflags T = 0" "content a (m_dbi_name st) = rows T" by metis
  from T assms bound_open [OF assms(1)] show ?thesis
    unfolding origins_empty_def origins_ensure_open_def
    by (cases "rows T = Map.empty")
      (auto intro!: awp_thenM awp_checked_bound awp_ensure_open awp_bindM awp_cursor_open [OF T(1)]
        awp_check awp_cursor_get [OF _ T(2,3)] awp_ret)
qed

lemma awp_origins_clear:
  assumes "bound st a" "a_writable a"
    and Q: "\<And>a'. ext a a' \<Longrightarrow> bound st a' \<Longrightarrow> content a' = (content a)(m_dbi_name st := Map.empty) \<Longrightarrow>
      Q (card (dom (content a (m_dbi_name st)))) a'"
    and E: "\<And>c rc. fails rc \<Longrightarrow> E (MdbxException c rc)"
  shows "awp (origins_clear M st) Q E a"
proof (rule awp_wf)
  assume "wf_view a"
  from bound_table [OF assms(1) this] obtain T where T:
    "a_handles a (m_dbi st) = Some (m_dbi_name st)" "a_tables a (m_dbi_name st) = Some T"
    "single M T" "content a (m_dbi_name st) = rows T" by metis
  have fin: "finite (dom (rows T))" using \<open>wf_view a\<close> T by (auto simp: wf_view_def)
  have "set (map fst (rows_where (\<lambda>_. True) (rows T))) = dom (rows T)"
    using set_rows_where [OF fin, of "\<lambda>_. True"] by force
  moreover have "length (rows_where (\<lambda>_. True) (rows T)) = card (dom (rows T))"
    by (simp add: rows_where_def)
  moreover have "rows T |` (- dom (rows T)) = Map.empty"
    by (auto simp: restrict_map_def fun_eq_iff)
  moreover have tw: "takeWhile (\<lambda>_. True) xs = xs" for xs :: "(bytes \<times> bytes) list"
    by (simp add: takeWhile_eq_all_conv)
  ultimately show ?thesis
    using T assms bound_open [OF assms(1)]
    unfolding origins_clear_def origins_ensure_open_def
    by (auto intro!: awp_thenM awp_checked_bound awp_ensure_open awp_bindM [of "api_entries _ _"]
        awp_bindM [of "api_cursor_open _ _"] awp_bindM [of "bindM _ _"] awp_entries [OF T(1-3)]
        awp_cursor_open [OF T(1)] awp_check awp_ret
        awp_delete_walk [where stop = "\<lambda>_. False" and n = "card (dom (rows T))"]
        awp_bindM [of "api_cursor_del _ _"] awp_store_cursor_del simp: tw)
qed

lemma awp_origin_tails:
  assumes "bound st a" "index_ok (content a (m_dbi_name st))"
    and "Q (tails_list (content a (m_dbi_name st))) a"
    and "\<And>c rc. fails rc \<Longrightarrow> E (MdbxException c rc)"
  shows "awp (origin_tails M st) Q E a"
  using assms bound_open [OF assms(1)]
  unfolding origin_tails_def origins_ensure_open_def
  by (auto intro!: awp_thenM awp_checked_bound awp_ensure_open awp_bindM awp_check awp_ret awp_throw
      awp_store_scan [where I = "\<lambda>ks out.
        tails_list (content a (m_dbi_name st)) = out @ map (\<lambda>(k, v). (k, read_u64_le v)) ks"]
      simp: tails_list_def index_ok_def)

lemma awp_origins:
  assumes "bound st a" "index_ok (content a (m_dbi_name st))"
    and "Q (map fst (tails_list (content a (m_dbi_name st)))) a"
    and "\<And>c rc. fails rc \<Longrightarrow> E (MdbxException c rc)"
  shows "awp (origins M st) Q E a"
  using assms unfolding origins_def by (intro awp_bindM awp_origin_tails awp_ret)

end

end
