(* ===== verification/Change_Log.thy ===== *)
theory Change_Log
  imports Origin_Index
begin

text \<open>
  \<^verbatim>\<open>include/mdbx_containers/sync/stores/ChangeLogStore.hpp\<close>: the log of encoded batches, keyed
  by origin and sequence number, and the index of origins that it keeps up to date.
\<close>

record change_log =
  m_store :: store
  m_origin_index_ready :: bool
  m_origins :: store

definition new_change_log :: "nat \<Rightarrow> change_log" where
  "new_change_log env = \<lparr>m_store = new_store env ''_mdbxc_changelog'', m_origin_index_ready = False,
     m_origins = new_origin_store env\<rparr>"

definition log_open :: "('t, 'c) mdbx \<Rightarrow> change_log \<Rightarrow> ('t, change_log) io" where
  "log_open M cl =
     bindM (open_fallback M ''ChangeLogStore::open'' ''Failed to open ChangeLogStore DBI'' (m_store cl))
       (\<lambda>st. ret (cl\<lparr>m_store := st\<rparr>))"

definition log_reset_open :: "change_log \<Rightarrow> change_log" where
  "log_reset_open cl = cl\<lparr>m_store := reset_open (m_store cl), m_origin_index_ready := False,
     m_origins := reset_open (m_origins cl)\<rparr>"

definition log_ensure_open :: "change_log \<Rightarrow> ('t, unit) io" where
  "log_ensure_open cl = ensure_open ''ChangeLogStore is not open'' (m_store cl)"

text \<open>The key: 16 bytes of origin, then the sequence number in big-endian order.\<close>

definition encode_key :: "node_id \<Rightarrow> u64 \<Rightarrow> bytes" where
  "encode_key origin seq = take 16 origin @ write_u64_be seq"

definition decode_key_origin :: "bytes \<Rightarrow> ('t, node_id) io" where
  "decode_key_origin key =
    (if length key \<noteq> 24 then throw (RuntimeError ''ChangeLogStore key has invalid size'')
     else ret (take 16 key))"

definition decode_key_seq :: "bytes \<Rightarrow> ('t, u64) io" where
  "decode_key_seq key =
    (if length key \<noteq> 24 then throw (RuntimeError ''ChangeLogStore key has invalid size'')
     else ret (read_u64_be (drop 16 key)))"

text \<open>One step of the scan for the tails: a new origin, or a later entry of the last one.\<close>

definition push_tail :: "(node_id \<times> u64) list \<Rightarrow> node_id \<Rightarrow> u64 \<Rightarrow> (node_id \<times> u64) list" where
  "push_tail out origin seq =
    (if out = [] \<or> compare_node_id (fst (last out)) origin \<noteq> 0 then out @ [(origin, seq)]
     else butlast out @ [(fst (last out), seq)])"

definition collect_changelog_origin_tails ::
  "('t, 'c) mdbx \<Rightarrow> change_log \<Rightarrow> ('t, (node_id \<times> u64) list) io" where
  "collect_changelog_origin_tails M cl =
     bindM (scan_loop M (m_dbi (m_store cl)) MDBX_FIRST
        ''ChangeLogStore origin scan cursor open failed'' (\<lambda>k v out.
          bindM (decode_key_origin k) (\<lambda>origin.
          bindM (decode_key_seq k) (\<lambda>seq. ret (push_tail out origin seq)))) []) (\<lambda>(out, rc).
      if rc \<noteq> MDBX_NOTFOUND
      then thenM (check_mdbx rc ''ChangeLogStore origin scan cursor walk failed'') (ret out)
      else ret out)"

definition write_origin_tails ::
  "('t, 'c) mdbx \<Rightarrow> change_log \<Rightarrow> (node_id \<times> u64) list \<Rightarrow> ('t, unit) io" where
  "write_origin_tails M cl tails = foldM (\<lambda>(o', s) _. note_origin M (m_origins cl) o' s) tails ()"

definition backfill_origin_index :: "('t, 'c) mdbx \<Rightarrow> change_log \<Rightarrow> ('t, unit) io" where
  "backfill_origin_index M cl =
     bindM (collect_changelog_origin_tails M cl) (write_origin_tails M cl)"

definition ensure_origin_index_ready :: "('t, 'c) mdbx \<Rightarrow> change_log \<Rightarrow> ('t, change_log) io" where
  "ensure_origin_index_ready M cl =
    (if m_origin_index_ready cl then ret cl else
     bindM (origins_open M (m_origins cl)) (\<lambda>os.
     let cl' = cl\<lparr>m_origins := os\<rparr> in
     bindM (origins_empty M os) (\<lambda>e.
       if \<not> e then ret (cl'\<lparr>m_origin_index_ready := True\<rparr>)
       else thenM (backfill_origin_index M cl') (ret (cl'\<lparr>m_origin_index_ready := True\<rparr>)))))"

definition log_append ::
  "('t, 'c) mdbx \<Rightarrow> change_log \<Rightarrow> node_id \<Rightarrow> u64 \<Rightarrow> bytes \<Rightarrow> ('t, change_log) io" where
  "log_append M cl origin seq bs =
     thenM (checked_txn_env M (m_env (m_store cl)) ''ChangeLogStore::append'')
     (thenM (log_ensure_open cl)
     (bindM (ensure_origin_index_ready M cl) (\<lambda>cl'.
      bindM (api_put M (m_dbi (m_store cl')) (encode_key origin seq) bs MDBX_NOOVERWRITE) (\<lambda>rc.
      thenM (check_mdbx rc ''ChangeLogStore append failed'')
     (thenM (note_origin M (m_origins cl') origin seq) (ret cl'))))))"

definition log_contains :: "('t, 'c) mdbx \<Rightarrow> change_log \<Rightarrow> node_id \<Rightarrow> u64 \<Rightarrow> ('t, bool) io" where
  "log_contains M cl origin seq =
     thenM (checked_txn_env M (m_env (m_store cl)) ''ChangeLogStore::contains'')
     (thenM (log_ensure_open cl)
     (bindM (api_get M (m_dbi (m_store cl)) (encode_key origin seq)) (\<lambda>(rc, v).
        if rc = MDBX_SUCCESS then ret True
        else if rc = MDBX_NOTFOUND then ret False
        else thenM (check_mdbx rc ''ChangeLogStore contains failed'') (ret False))))"

text \<open>\<open>get\<close> returns false with no output, or true with the stored bytes.\<close>

definition log_get :: "('t, 'c) mdbx \<Rightarrow> change_log \<Rightarrow> node_id \<Rightarrow> u64 \<Rightarrow> ('t, bytes option) io" where
  "log_get M cl origin seq =
     thenM (checked_txn_env M (m_env (m_store cl)) ''ChangeLogStore::get'')
     (thenM (log_ensure_open cl)
     (bindM (api_get M (m_dbi (m_store cl)) (encode_key origin seq)) (\<lambda>(rc, v).
        if rc = MDBX_NOTFOUND then ret None
        else thenM (check_mdbx rc ''ChangeLogStore get failed'') (ret (Some v)))))"

definition log_erase :: "('t, 'c) mdbx \<Rightarrow> change_log \<Rightarrow> node_id \<Rightarrow> u64 \<Rightarrow> ('t, bool) io" where
  "log_erase M cl origin seq =
     thenM (checked_txn_env M (m_env (m_store cl)) ''ChangeLogStore::erase'')
     (thenM (log_ensure_open cl)
     (bindM (api_del M (m_dbi (m_store cl)) (encode_key origin seq)) (\<lambda>rc.
        if rc = MDBX_SUCCESS then ret True
        else if rc = MDBX_NOTFOUND then ret False
        else thenM (check_mdbx rc ''ChangeLogStore erase failed'') (ret False))))"

definition prune_body ::
  "('t, 'c) mdbx \<Rightarrow> nat \<Rightarrow> bytes \<Rightarrow> bytes \<Rightarrow> bytes \<Rightarrow> 'c \<Rightarrow> nat \<Rightarrow> ('t, (nat, 'c) loop) io" where
  "prune_body M h hi k v c removed =
    (if length k < 24 then ret (Break removed MDBX_SUCCESS) else
     bindM (api_cmp M h k hi) (\<lambda>r.
       if r > 0 then ret (Break removed MDBX_SUCCESS) else
       bindM (api_cursor_del M c) (\<lambda>(rc, c').
         if rc = MDBX_SUCCESS then ret (Continue (removed + 1) c')
         else if rc = MDBX_NOTFOUND then ret (Break removed rc)
         else thenM (check_mdbx rc ''ChangeLogStore prune cursor_del failed'')
                (ret (Break removed rc)))))"

definition prune_up_to :: "('t, 'c) mdbx \<Rightarrow> change_log \<Rightarrow> node_id \<Rightarrow> u64 \<Rightarrow> ('t, nat) io" where
  "prune_up_to M cl origin up_to =
     thenM (checked_txn_env M (m_env (m_store cl)) ''ChangeLogStore::prune_up_to'')
     (thenM (log_ensure_open cl)
     (bindM (api_entries M (m_dbi (m_store cl))) (\<lambda>entries.
      bindM (api_cursor_open M (m_dbi (m_store cl))) (\<lambda>(rc, c).
      thenM (check_mdbx rc ''cursor open failed'')
     (bindM (bindM (api_cursor_get M c (MDBX_SET_RANGE (encode_key origin 0))) (\<lambda>r.
        cursor_loop M (Suc entries) (prune_body M (m_dbi (m_store cl)) (encode_key origin up_to)) r 0))
      (\<lambda>(removed, rc).
        if rc \<noteq> MDBX_SUCCESS \<and> rc \<noteq> MDBX_NOTFOUND
        then thenM (check_mdbx rc ''ChangeLogStore prune cursor_get failed'') (ret removed)
        else ret removed))))))"

definition rebuild_origin_index :: "('t, 'c) mdbx \<Rightarrow> change_log \<Rightarrow> ('t, nat \<times> change_log) io" where
  "rebuild_origin_index M cl =
     thenM (checked_txn_env M (m_env (m_store cl)) ''ChangeLogStore::rebuild_origin_index'')
     (thenM (log_ensure_open cl)
     (bindM (collect_changelog_origin_tails M cl) (\<lambda>tails.
      bindM (origins_open M (m_origins cl)) (\<lambda>os.
      let cl' = cl\<lparr>m_origins := os\<rparr> in
      thenM (origins_clear M os)
     (thenM (write_origin_tails M cl' tails)
      (ret (length tails, cl'\<lparr>m_origin_index_ready := True\<rparr>)))))))"

fun tails_match ::
  "('t, 'c) mdbx \<Rightarrow> store \<Rightarrow> (node_id \<times> u64) list \<Rightarrow> node_id list \<Rightarrow> ('t, bool) io" where
  "tails_match M os ((o', s) # expected) (actual # rest) =
    (if actual \<noteq> o' then ret False else
     bindM (last_seq M os actual) (\<lambda>r.
       if r = None \<or> the r \<noteq> s then ret False else tails_match M os expected rest))"
| "tails_match M os _ _ = ret True"

definition origin_index_matches_changelog :: "('t, 'c) mdbx \<Rightarrow> change_log \<Rightarrow> ('t, bool) io" where
  "origin_index_matches_changelog M cl =
     thenM (checked_txn_env M (m_env (m_store cl)) ''ChangeLogStore::origin_index_matches_changelog'')
     (thenM (log_ensure_open cl)
     (bindM (collect_changelog_origin_tails M cl) (\<lambda>expected.
      bindM (origins_open_existing M (new_origin_store (m_env (m_store cl)))) (\<lambda>(found, os).
        if \<not> found then ret (expected = []) else
        bindM (origins M os) (\<lambda>actual_origins.
          if length actual_origins \<noteq> length expected then ret False
          else tails_match M os expected actual_origins)))))"

section \<open>Specification\<close>

subsection \<open>Keys\<close>

lemma length_encode_key [simp]: "is_node_id o' \<Longrightarrow> length (encode_key o' s) = 24"
  by (simp add: encode_key_def)

lemma encode_key_inj:
  "is_node_id o1 \<Longrightarrow> is_node_id o2 \<Longrightarrow> encode_key o1 s1 = encode_key o2 s2 \<longleftrightarrow> o1 = o2 \<and> s1 = s2"
  by (auto simp: encode_key_def is_node_id_def) (metis read_write_u64_be)

text \<open>Key order is the order of origins, then of sequence numbers.\<close>

lemma encode_key_less:
  "is_node_id o1 \<Longrightarrow> is_node_id o2 \<Longrightarrow>
     encode_key o1 s1 < encode_key o2 s2 \<longleftrightarrow> o1 < o2 \<or> o1 = o2 \<and> s1 < s2"
  by (simp add: encode_key_def list_less_append_prefix write_u64_be_less)

lemma encode_key_le:
  "is_node_id o1 \<Longrightarrow> is_node_id o2 \<Longrightarrow>
     encode_key o1 s1 \<le> encode_key o2 s2 \<longleftrightarrow> o1 < o2 \<or> o1 = o2 \<and> s1 \<le> s2"
  by (auto simp: order.order_iff_strict encode_key_less encode_key_inj)

lemma decode_encode_key:
  assumes "length k = 24"
  shows "encode_key (take 16 k) (read_u64_be (drop 16 k)) = k" and "is_node_id (take 16 k)"
  using assms by (simp_all add: encode_key_def is_node_id_def)

lemma key_parts [simp]:
  "is_node_id o' \<Longrightarrow> take 16 (encode_key o' s) = o'"
  "is_node_id o' \<Longrightarrow> read_u64_be (drop 16 (encode_key o' s)) = s"
  by (simp_all add: encode_key_def)

subsection \<open>The log as a map\<close>

definition log_ok :: "(bytes \<rightharpoonup> bytes) \<Rightarrow> bool" where
  "log_ok m \<longleftrightarrow> (\<forall>k \<in> dom m. length k = 24)"

definition log_entry :: "(bytes \<rightharpoonup> bytes) \<Rightarrow> node_id \<Rightarrow> u64 \<rightharpoonup> bytes" where
  "log_entry m o' s = m (encode_key o' s)"

text \<open>The pruned log: the entries of one origin up to a sequence number are gone.\<close>

definition pruned :: "node_id \<Rightarrow> u64 \<Rightarrow> (bytes \<rightharpoonup> bytes) \<Rightarrow> bytes \<rightharpoonup> bytes" where
  "pruned o' up_to m = m |` {k. \<not> (take 16 k = o' \<and> read_u64_be (drop 16 k) \<le> up_to)}"

lemma log_entry_pruned:
  "is_node_id o1 \<Longrightarrow> log_entry (pruned o' up_to m) o1 s =
     (if o1 = o' \<and> s \<le> up_to then None else log_entry m o1 s)"
  by (auto simp: log_entry_def pruned_def restrict_map_def)

lemma log_ok_pruned [simp]: "log_ok m \<Longrightarrow> log_ok (pruned o' u m)"
  by (auto simp: log_ok_def pruned_def)

lemma log_ok_update [simp]: "log_ok m \<Longrightarrow> is_node_id o' \<Longrightarrow> log_ok (m(encode_key o' s \<mapsto> v))"
  by (auto simp: log_ok_def)

lemma key_in_range:
  assumes "length k = 24" and "is_node_id o'"
  shows "encode_key o' 0 \<le> k \<and> k \<le> encode_key o' up_to \<longleftrightarrow>
    take 16 k = o' \<and> read_u64_be (drop 16 k) \<le> up_to"
proof -
  obtain o1 s where k: "k = encode_key o1 s" "is_node_id o1" using decode_encode_key [OF assms(1)] by metis
  then show ?thesis using assms(2) by (auto simp: encode_key_le)
qed

lemma takeWhile_sorted:
  fixes xs :: "('k :: linorder \<times> 'v) list"
  assumes "sorted (map fst xs)" and "\<And>k. P k \<longleftrightarrow> k \<le> hi"
  shows "takeWhile (\<lambda>kv. P (fst kv)) xs = filter (\<lambda>kv. P (fst kv)) xs"
  using assms(1)
proof (induction xs)
  case (Cons x xs)
  then have "\<not> P (fst x) \<Longrightarrow> y \<in> set xs \<Longrightarrow> \<not> P (fst y)" for y
    using assms(2) by (auto intro: order_trans)
  with Cons show ?case by (auto simp: filter_empty_conv)
qed simp

text \<open>What \<open>prune_up_to\<close> walks over.\<close>

lemma prune_range:
  assumes "finite (dom m)" and "log_ok m" and "is_node_id o'"
    and "ks = takeWhile (\<lambda>kv. \<not> (length (fst kv) < 24 \<or> encode_key o' up_to < fst kv))
      (rows_where (\<lambda>k. encode_key o' 0 \<le> k) m)"
  shows "set (map fst ks) = {k \<in> dom m. take 16 k = o' \<and> read_u64_be (drop 16 k) \<le> up_to}"
    and "distinct (map fst ks)"
proof -
  let ?rs = "rows_where (\<lambda>k. encode_key o' 0 \<le> k) m"
  have rs: "set ?rs = {(k, v). m k = Some v \<and> encode_key o' 0 \<le> k}"
    by (rule set_rows_where [OF assms(1)])
  have "ks = takeWhile (\<lambda>kv. fst kv \<le> encode_key o' up_to) ?rs"
    unfolding assms(4)
    by (rule takeWhile_cong) (use rs assms(2) in \<open>auto simp: log_ok_def dom_def\<close>)
  also have "\<dots> = filter (\<lambda>kv. fst kv \<le> encode_key o' up_to) ?rs"
    by (rule takeWhile_sorted [OF sorted_rows_where [OF assms(1)]]) simp
  finally have ks: "ks = filter (\<lambda>kv. fst kv \<le> encode_key o' up_to) ?rs" .
  show "distinct (map fst ks)"
    unfolding ks using distinct_rows_where [OF assms(1)] distinct_map_filter by blast
  show "set (map fst ks) = {k \<in> dom m. take 16 k = o' \<and> read_u64_be (drop 16 k) \<le> up_to}"
  proof -
    have "set (map fst ks) = {k \<in> dom m. encode_key o' 0 \<le> k \<and> k \<le> encode_key o' up_to}"
      unfolding ks using rs by force
    also have "\<dots> = {k \<in> dom m. take 16 k = o' \<and> read_u64_be (drop 16 k) \<le> up_to}"
      using assms(2,3) key_in_range unfolding log_ok_def by blast
    finally show ?thesis .
  qed
qed

subsection \<open>The tails\<close>

text \<open>\<open>tails_spec xs out\<close>: \<open>out\<close> lists, per origin with rows in \<open>xs\<close>, its highest sequence number.\<close>

definition is_tail :: "bytes set \<Rightarrow> node_id \<Rightarrow> u64 \<Rightarrow> bool" where
  "is_tail K o' s \<longleftrightarrow> encode_key o' s \<in> K \<and> (\<forall>s'. encode_key o' s' \<in> K \<longrightarrow> s' \<le> s)"

definition tails_spec :: "bytes set \<Rightarrow> (node_id \<times> u64) list \<Rightarrow> bool" where
  "tails_spec K out \<longleftrightarrow> sorted (map fst out) \<and> distinct (map fst out) \<and>
     (\<forall>k \<in> K. take 16 k \<in> set (map fst out)) \<and>
     (\<forall>o' s. (o', s) \<in> set out \<longleftrightarrow> is_node_id o' \<and> is_tail K o' s)"

lemma is_tail_insert:
  assumes "is_node_id o'" and "is_node_id o1"
    and above: "\<And>k. k \<in> K \<Longrightarrow> k < encode_key o' s"
  shows "is_tail (insert (encode_key o' s) K) o1 s1 \<longleftrightarrow>
    (if o1 = o' then s1 = s else is_tail K o1 s1)"
proof -
  have lt: "encode_key o' s' \<in> K \<Longrightarrow> s' < s" for s'
    using above [of "encode_key o' s'"] assms(1) by (simp add: encode_key_less)
  show ?thesis
  proof (cases "o1 = o'")
    case True
    have "is_tail (insert (encode_key o' s) K) o' s1 \<longleftrightarrow> s1 = s"
      unfolding is_tail_def using assms(1) lt by (fastforce simp: encode_key_inj)
    with True show ?thesis by simp
  next
    case False
    with assms(1,2) show ?thesis by (simp add: is_tail_def encode_key_inj)
  qed
qed

lemma push_tail_eq:
  assumes K: "tails_spec K out" and o': "is_node_id o'"
    and above: "\<And>k. k \<in> K \<Longrightarrow> length k = 24 \<and> k < encode_key o' s"
  shows "push_tail out o' s = filter (\<lambda>p. fst p \<noteq> o') out @ [(o', s)]"
    and "\<forall>p \<in> set out. fst p \<le> o' \<and> is_node_id (fst p)"
proof -
  show le: "\<forall>p \<in> set out. fst p \<le> o' \<and> is_node_id (fst p)"
  proof
    fix p
    assume "p \<in> set out"
    then have p: "is_node_id (fst p)" "encode_key (fst p) (snd p) \<in> K"
      using K unfolding tails_spec_def is_tail_def by (metis prod.collapse)+
    with above o' show "fst p \<le> o' \<and> is_node_id (fst p)" by (metis encode_key_less order_less_imp_le order_refl)
  qed
  have last: "compare_node_id (fst (last out)) o' = 0 \<longleftrightarrow> fst (last out) = o'" if "out \<noteq> []"
    using that le last_in_set [OF that] o' by (simp add: compare_node_id_eq)
  show "push_tail out o' s = filter (\<lambda>p. fst p \<noteq> o') out @ [(o', s)]"
  proof (cases "out = [] \<or> fst (last out) \<noteq> o'")
    case True
    have "fst p \<noteq> o'" if "p \<in> set out" for p
    proof
      assume "fst p = o'"
      have "out \<noteq> []" using that by auto
      then have "fst p \<le> fst (last out)"
        using K that unfolding tails_spec_def
        by (cases out rule: rev_cases) (auto simp: sorted_append)
      moreover have "fst (last out) \<le> o'" using le last_in_set [OF \<open>out \<noteq> []\<close>] by blast
      ultimately show False using True \<open>fst p = o'\<close> \<open>out \<noteq> []\<close> by auto
    qed
    then have "filter (\<lambda>p. fst p \<noteq> o') out = out" by (simp add: filter_id_conv)
    with True last show ?thesis by (auto simp: push_tail_def)
  next
    case False
    then obtain xs s0 where out: "out = xs @ [(o', s0)]" by (cases out rule: rev_cases) auto
    then have "o' \<notin> set (map fst xs)" using K by (auto simp: tails_spec_def)
    then have "filter (\<lambda>p. fst p \<noteq> o') xs = xs" by (auto simp: filter_id_conv)
    with out last False show ?thesis by (auto simp: push_tail_def)
  qed
qed

lemma push_tail_spec:
  assumes K: "tails_spec K out" and o': "is_node_id o'"
    and above: "\<And>k. k \<in> K \<Longrightarrow> length k = 24 \<and> k < encode_key o' s"
  shows "tails_spec (insert (encode_key o' s) K) (push_tail out o' s)"
proof -
  have eq: "push_tail out o' s = filter (\<lambda>p. fst p \<noteq> o') out @ [(o', s)]"
    "\<forall>p \<in> set out. fst p \<le> o' \<and> is_node_id (fst p)"
    using push_tail_eq [OF K o'] above by blast+
  have "sorted (map fst (push_tail out o' s))" "distinct (map fst (push_tail out o' s))"
    using K eq(2) unfolding tails_spec_def
    by (auto simp: eq(1) sorted_append distinct_map_filter sorted_filter)
  moreover have "(o1, s1) \<in> set (push_tail out o' s) \<longleftrightarrow>
      is_node_id o1 \<and> is_tail (insert (encode_key o' s) K) o1 s1" for o1 s1
    using K is_tail_insert [OF o', of o1 K s s1] above o' unfolding eq(1) tails_spec_def
    by (auto split: if_splits)
  moreover have "take 16 k \<in> set (map fst (push_tail out o' s))" if "k \<in> insert (encode_key o' s) K" for k
    using that K o' unfolding eq(1) tails_spec_def by auto
  ultimately show ?thesis by (simp add: tails_spec_def)
qed

subsection \<open>The tails of a log\<close>

definition log_tail :: "(bytes \<rightharpoonup> bytes) \<Rightarrow> node_id \<Rightarrow> u64 option" where
  "log_tail m o' = (let S = {s. log_entry m o' s \<noteq> None} in if S = {} then None else Some (Max S))"

text \<open>The index knows, for every entry of the log, a tail that is not below it.\<close>

definition covers :: "(bytes \<rightharpoonup> bytes) \<Rightarrow> (bytes \<rightharpoonup> bytes) \<Rightarrow> bool" where
  "covers lg ix \<longleftrightarrow> (\<forall>o' s. is_node_id o' \<longrightarrow> log_entry lg o' s \<noteq> None \<longrightarrow>
     (\<exists>t. tail_of ix o' = Some t \<and> s \<le> t))"

definition log_inv :: "(bytes \<rightharpoonup> bytes) \<Rightarrow> (bytes \<rightharpoonup> bytes) \<Rightarrow> bool" where
  "log_inv lg ix \<longleftrightarrow> log_ok lg \<and> index_ok ix \<and> (ix \<noteq> Map.empty \<longrightarrow> covers lg ix)"

lemma is_tail_log_tail: "is_tail (dom m) o' s \<longleftrightarrow> log_tail m o' = Some s"
proof -
  let ?S = "{s. log_entry m o' s \<noteq> None}"
  have fin: "finite ?S" by simp
  have "is_tail (dom m) o' s \<longleftrightarrow> s \<in> ?S \<and> (\<forall>s' \<in> ?S. s' \<le> s)"
    by (auto simp: is_tail_def log_entry_def dom_def)
  also have "\<dots> \<longleftrightarrow> ?S \<noteq> {} \<and> Max ?S = s"
    using Max_in [OF fin] Max_ge [OF fin] Max_eqI [OF fin, of s] by blast
  finally show ?thesis by (simp add: log_tail_def Let_def)
qed

lemma tails_spec_map_of:
  assumes "tails_spec (dom m) out" and "is_node_id o'"
  shows "map_of out o' = log_tail m o'"
proof -
  have "map_of out o' = Some s \<longleftrightarrow> log_tail m o' = Some s" for s
    using assms by (simp add: tails_spec_def map_of_eq_Some_iff is_tail_log_tail)
  then show ?thesis by (metis option.exhaust)
qed

lemma tail_of_fold_noted:
  assumes "distinct (map fst xs)" and "\<And>o'. o' \<in> fst ` set xs \<Longrightarrow> tail_of m o' = None"
  shows "tail_of (fold (\<lambda>(o', s). noted o' s) xs m) o1 =
    (case map_of xs o1 of None \<Rightarrow> tail_of m o1 | Some s \<Rightarrow> Some s)"
  using assms
proof (induction xs arbitrary: m)
  case (Cons x xs)
  obtain o' s where x: "x = (o', s)" by (cases x)
  have "tail_of (noted o' s m) o2 = None" if "o2 \<in> fst ` set xs" for o2
    using Cons.prems that x by (auto simp: noted_tail)
  then have "tail_of (fold (\<lambda>(o', s). noted o' s) xs (noted o' s m)) o1 =
      (case map_of xs o1 of None \<Rightarrow> tail_of (noted o' s m) o1 | Some s \<Rightarrow> Some s)"
    using Cons.prems by (intro Cons.IH) auto
  moreover have "map_of xs o' = None" using Cons.prems(1) x by (auto simp: map_of_eq_None_iff)
  moreover have "tail_of m o' = None" using Cons.prems(2) x by auto
  ultimately show ?case using x by (auto simp: noted_tail split: option.splits)
qed simp

lemma index_ok_fold_noted:
  "index_ok m \<Longrightarrow> \<forall>p \<in> set xs. is_node_id (fst p) \<Longrightarrow> index_ok (fold (\<lambda>(o', s). noted o' s) xs m)"
  by (induction xs arbitrary: m) auto

text \<open>An empty index, filled from the tails of the log.\<close>

lemma backfilled:
  assumes "tails_spec (dom lg) out"
  defines "ix \<equiv> fold (\<lambda>(o', s). noted o' s) out Map.empty"
  shows "index_ok ix" and "is_node_id o' \<Longrightarrow> tail_of ix o' = log_tail lg o'" and "covers lg ix"
proof -
  have node: "\<forall>p \<in> set out. is_node_id (fst p)" using assms(1) by (auto simp: tails_spec_def)
  then show "index_ok ix" unfolding ix_def by (intro index_ok_fold_noted) (auto simp: index_ok_def)
  show tail: "tail_of ix o' = log_tail lg o'" if "is_node_id o'" for o'
    using tails_spec_map_of [OF assms(1) that] assms(1) unfolding ix_def
    by (subst tail_of_fold_noted) (auto simp: tails_spec_def tail_of_def split: option.splits)
  show "covers lg ix"
    unfolding covers_def using tail
    by (auto simp: log_tail_def Let_def)
qed

lemma covers_append:
  assumes "covers lg ix" and "is_node_id o'"
  shows "covers (lg(encode_key o' s \<mapsto> v)) (noted o' s ix)"
  using assms unfolding covers_def log_entry_def
  by (auto simp: noted_tail encode_key_inj max_def split: option.splits if_splits) fastforce+

text \<open>The index agrees with the log.\<close>

definition index_matches :: "(bytes \<rightharpoonup> bytes) \<Rightarrow> (bytes \<rightharpoonup> bytes) \<Rightarrow> bool" where
  "index_matches lg ix \<longleftrightarrow> (\<forall>o'. is_node_id o' \<longrightarrow> tail_of ix o' = log_tail lg o')"

lemma index_matches_lists:
  assumes "finite (dom ix)" and "index_ok ix" and ex: "tails_spec (dom lg) expected"
  shows "index_matches lg ix \<longleftrightarrow>
    map fst (tails_list ix) = map fst expected \<and> (\<forall>(o', s) \<in> set expected. tail_of ix o' = Some s)"
proof -
  have actual: "set (map fst (tails_list ix)) = dom ix" "sorted (map fst (tails_list ix))"
    "distinct (map fst (tails_list ix))"
    using sorted_rows_where [OF assms(1), of "\<lambda>_. True"] distinct_rows_where [OF assms(1), of "\<lambda>_. True"]
      set_rows_where [OF assms(1), of "\<lambda>_. True"]
    by (auto simp: tails_list_def comp_def case_prod_unfold dom_def image_iff)
  have node: "is_node_id o'" if "o' \<in> dom ix" for o'
    using that assms(2) by (auto simp: index_ok_def is_node_id_def)
  have tl: "tail_of ix o' = None \<longleftrightarrow> o' \<notin> dom ix" for o' by (auto simp: tail_of_def dom_def)
  have mem: "(o', s) \<in> set expected \<longleftrightarrow> is_node_id o' \<and> log_tail lg o' = Some s" for o' s
    using ex by (simp add: tails_spec_def is_tail_log_tail)
  show ?thesis
  proof
    assume m: "index_matches lg ix"
    have "set (map fst (tails_list ix)) = set (map fst expected)"
    proof -
      have "o' \<in> dom ix \<longleftrightarrow> o' \<in> set (map fst expected)" for o'
        using m node [of o'] tl [of o'] mem [of o'] unfolding index_matches_def by force
      then show ?thesis using actual(1) by blast
    qed
    then have "map fst (tails_list ix) = map fst expected"
      using actual ex by (intro sorted_distinct_set_unique) (auto simp: tails_spec_def)
    then show "map fst (tails_list ix) = map fst expected \<and> (\<forall>(o', s) \<in> set expected. tail_of ix o' = Some s)"
      using m mem by (auto simp: index_matches_def)
  next
    assume r: "map fst (tails_list ix) = map fst expected \<and> (\<forall>(o', s) \<in> set expected. tail_of ix o' = Some s)"
    then have dom: "dom ix = fst ` set expected" using actual(1) by simp
    show "index_matches lg ix"
      unfolding index_matches_def
    proof (intro allI impI)
      fix o'
      assume "is_node_id o'"
      with mem r dom tl [of o'] show "tail_of ix o' = log_tail lg o'"
        by (cases "log_tail lg o'") force+
    qed
  qed
qed

text \<open>A change log whose table is open, and the two tables it stands for.\<close>

definition log_bound :: "change_log \<Rightarrow> adb \<Rightarrow> bool" where
  "log_bound cl a \<longleftrightarrow> bound (m_store cl) a \<and> openable (m_origins cl) a \<and>
     (m_origin_index_ready cl \<longrightarrow> m_open (m_origins cl)) \<and>
     m_dbi_name (m_store cl) \<noteq> m_dbi_name (m_origins cl)"

abbreviation log_of :: "change_log \<Rightarrow> adb \<Rightarrow> bytes \<rightharpoonup> bytes" where
  "log_of cl a \<equiv> content a (m_dbi_name (m_store cl))"

abbreviation index_of_log :: "change_log \<Rightarrow> adb \<Rightarrow> bytes \<rightharpoonup> bytes" where
  "index_of_log cl a \<equiv> content a (m_dbi_name (m_origins cl))"

lemma log_bound_store: "log_bound cl a \<Longrightarrow> bound (m_store cl) a"
  by (simp add: log_bound_def)

lemma log_bound_ext: "log_bound cl a \<Longrightarrow> ext a a' \<Longrightarrow> log_bound cl a'"
  using bound_ext openable_ext by (auto simp: log_bound_def)

text \<open>A change log in use: its tables are well formed and the index knows every entry.\<close>

definition log_ready :: "change_log \<Rightarrow> adb \<Rightarrow> bool" where
  "log_ready cl a \<longleftrightarrow> log_bound cl a \<and> log_inv (log_of cl a) (index_of_log cl a) \<and>
     (m_origin_index_ready cl \<longrightarrow> covers (log_of cl a) (index_of_log cl a))"

context mdbx_engine
begin

lemma awp_collect_tails:
  assumes st: "bound (m_store cl) a" and lg: "log_ok (log_of cl a)"
    and Q: "\<And>out. tails_spec (dom (log_of cl a)) out \<Longrightarrow> Q out a"
    and E: "\<And>c rc. fails rc \<Longrightarrow> E (MdbxException c rc)"
  shows "awp (collect_changelog_origin_tails M cl) Q E a"
proof (rule awp_wf)
  assume "wf_view a"
  then have fin: "finite (dom (log_of cl a))"
    by (auto simp: wf_view_def content_def split: option.splits)
  let ?rs = "rows_where (\<lambda>_. True) (log_of cl a)"
  let ?I = "\<lambda>ks out. \<exists>dn. ?rs = dn @ ks \<and> tails_spec (set (map fst dn)) out"
  have dom: "set (map fst ?rs) = dom (log_of cl a)"
    using set_rows_where [OF fin, of "\<lambda>_. True"] by force
  have step: "awp (bindM (decode_key_origin k) (\<lambda>origin. bindM (decode_key_seq k)
      (\<lambda>seq. ret (push_tail out origin seq)))) (\<lambda>out' a'. a' = a \<and> ?I rest out') E a"
    if I: "?I ((k, v) # rest) out" and k: "log_of cl a k = Some v" for k v rest out
  proof -
    from I obtain dn where dn: "?rs = dn @ (k, v) # rest" "tails_spec (set (map fst dn)) out" by blast
    have len: "length k = 24" using lg k by (auto simp: log_ok_def)
    note key = decode_encode_key [OF len]
    have "length k' = 24" if "k' \<in> set (map fst dn)" for k'
    proof -
      have "k' \<in> dom (log_of cl a)" using that dn(1) unfolding dom [symmetric] by simp
      then show ?thesis using lg by (simp add: log_ok_def)
    qed
    moreover have "k' < k" if "k' \<in> set (map fst dn)" for k'
      using that dn(1) sorted_rows_where [OF fin, of "\<lambda>_. True"]
        distinct_rows_where [OF fin, of "\<lambda>_. True"]
      by (auto simp: sorted_append order.strict_iff_order)
    ultimately have "tails_spec (insert k (set (map fst dn)))
        (push_tail out (take 16 k) (read_u64_be (drop 16 k)))"
      using push_tail_spec [OF dn(2) key(2), of "read_u64_be (drop 16 k)"] key(1) by simp
    moreover have "?rs = (dn @ [(k, v)]) @ rest" using dn(1) by simp
    ultimately have "?I rest (push_tail out (take 16 k) (read_u64_be (drop 16 k)))"
      by (intro exI [of _ "dn @ [(k, v)]"]) (simp add: insert_commute)
    with len show ?thesis
      by (simp add: decode_key_origin_def decode_key_seq_def) (rule awp_ret, simp)
  qed
  have init: "?I ?rs []" by (intro exI [of _ "[]"]) (simp add: tails_spec_def is_tail_def)
  have fin_Q: "Q out a" if "?I [] out" for out using that dom Q by auto
  show ?thesis
    unfolding collect_changelog_origin_tails_def
    by (rule awp_bindM, rule awp_store_scan [OF st, where I = ?I])
      (use init step fin_Q E in \<open>auto intro!: awp_ret awp_thenM awp_check\<close>)
qed

lemma awp_write_origin_tails:
  assumes os: "bound (m_origins cl) a" "a_writable a" "index_ok (index_of_log cl a)"
    and node: "\<forall>p \<in> set tails. is_node_id (fst p)"
    and Q: "\<And>a'. ext a a' \<Longrightarrow> content a' = (content a)(m_dbi_name (m_origins cl) :=
      fold (\<lambda>(o', s). noted o' s) tails (index_of_log cl a)) \<Longrightarrow> Q () a'"
    and E: "\<And>c rc. fails rc \<Longrightarrow> E (MdbxException c rc)"
  shows "awp (write_origin_tails M cl tails) Q E a"
proof -
  let ?n = "m_dbi_name (m_origins cl)"
  let ?done = "\<lambda>dn. fold (\<lambda>(o', s). noted o' s) dn (content a ?n)"
  let ?I = "\<lambda>ts (u :: unit) a'. ext a a' \<and>
    (\<exists>dn. tails = dn @ ts \<and> content a' = (content a)(?n := ?done dn))"
  have step: "awp ((case x of (o', s) \<Rightarrow> \<lambda>_. note_origin M (m_origins cl) o' s) u) (?I ts) E a'"
    if I: "?I (x # ts) u a'" for x ts u a'
  proof -
    from I obtain dn where dn: "tails = dn @ x # ts" "content a' = (content a)(?n := ?done dn)" by blast
    obtain o' s where x: "x = (o', s)" by (cases x)
    have ok: "index_ok (content a' ?n)" using os(3) node dn by (auto intro!: index_ok_fold_noted)
    have b: "bound (m_origins cl) a'" "a_writable a'"
      using I os bound_ext ext_writable by blast+
    have "?I ts () a''" if "ext a' a''" "content a'' = (content a')(?n := noted o' s (content a' ?n))"
      for a'' using that dn x ext_trans I by (intro conjI exI [of _ "dn @ [x]"]) auto
    with b ok E show ?thesis
      unfolding x by (auto intro!: awp_note_origin)
  qed
  show ?thesis
    unfolding write_origin_tails_def
    by (rule awp_foldM [where I = ?I]) (use step Q in auto)
qed

text \<open>The index is opened, and filled from the log when it is empty.\<close>

lemma awp_ensure_origin_index_ready:
  assumes cl: "log_bound cl a" "a_writable a" and inv: "log_inv (log_of cl a) (index_of_log cl a)"
    and ready: "m_origin_index_ready cl \<Longrightarrow> covers (log_of cl a) (index_of_log cl a)"
    and Q: "\<And>cl' a' ix. ext a a' \<Longrightarrow> log_bound cl' a' \<Longrightarrow> bound (m_origins cl') a' \<Longrightarrow>
      m_origin_index_ready cl' \<Longrightarrow> m_store cl' = m_store cl \<Longrightarrow>
      m_dbi_name (m_origins cl') = m_dbi_name (m_origins cl) \<Longrightarrow> index_ok ix \<Longrightarrow>
      covers (log_of cl a) ix \<Longrightarrow>
      content a' = (content a)(m_dbi_name (m_origins cl) := ix) \<Longrightarrow>
      (index_of_log cl a \<noteq> Map.empty \<longrightarrow> ix = index_of_log cl a) \<Longrightarrow> Q cl' a'"
    and E: "\<And>c rc. fails rc \<Longrightarrow> E (MdbxException c rc)"
  shows "awp (ensure_origin_index_ready M cl) Q E a"
proof (cases "m_origin_index_ready cl")
  case True
  then have "bound (m_origins cl) a" using cl(1) by (simp add: log_bound_def openable_def)
  with True Q [of a cl "index_of_log cl a"] cl inv ready show ?thesis
    unfolding ensure_origin_index_ready_def by (auto intro!: awp_ret simp: log_inv_def)
next
  case False
  let ?n = "m_dbi_name (m_origins cl)"
  have bl: "bound (m_store cl) a" "openable (m_origins cl) a" "m_dbi_name (m_store cl) \<noteq> ?n"
    using cl(1) by (simp_all add: log_bound_def)
  have filled: "awp (backfill_origin_index M (cl\<lparr>m_origins := os\<rparr>))
      (\<lambda>u. Q (cl\<lparr>m_origins := os, m_origin_index_ready := True\<rparr>)) E a'"
    if a': "ext a a'" "content a' = content a" "bound os a'" "same_store (m_origins cl) os"
      "content a ?n = Map.empty" for os a'
  proof -
    let ?cl = "cl\<lparr>m_origins := os\<rparr>"
    have b: "bound (m_store cl) a'" "a_writable a'" "m_dbi_name os = ?n"
      using bl a' cl(2) bound_ext ext_writable by (auto simp: same_store_def)
    have "awp (write_origin_tails M ?cl out) (\<lambda>u. Q (?cl\<lparr>m_origin_index_ready := True\<rparr>)) E a'"
      if out: "tails_spec (dom (log_of cl a)) out" for out
    proof (rule awp_write_origin_tails)
      fix a''
      assume w: "ext a' a''" "content a'' = (content a')(m_dbi_name (m_origins ?cl) :=
        fold (\<lambda>(o', s). noted o' s) out (index_of_log ?cl a'))"
      have "bound os a''" "bound (m_store cl) a''" "ext a a''"
        using w(1) a' b bound_ext ext_trans by blast+
      moreover have "openable os a''" using calculation bl(2) a'(4)
        by (auto simp: openable_def bound_def same_store_def)
      ultimately show "Q (?cl\<lparr>m_origin_index_ready := True\<rparr>) a''"
        using backfilled [OF out] w(2) a' b bl
        by (intro Q) (auto simp: log_bound_def dest: bound_open)
    qed (use a' b inv out E in \<open>auto simp: tails_spec_def log_inv_def\<close>)
    then show ?thesis
      unfolding backfill_origin_index_def using b inv a' E
      by (intro awp_bindM awp_collect_tails) (auto simp: log_inv_def)
  qed
  have "Q (cl\<lparr>m_origins := os, m_origin_index_ready := True\<rparr>) a'"
    if a': "ext a a'" "content a' = content a" "bound os a'" "same_store (m_origins cl) os"
      "content a ?n \<noteq> Map.empty" for os a'
    using a' bl inv bound_ext [OF bl(1) a'(1)]
    by (intro Q [of a' _ "content a ?n"])
      (auto simp: log_bound_def log_inv_def openable_def bound_def same_store_def)
  moreover have "awp (thenM (backfill_origin_index M (cl\<lparr>m_origins := os\<rparr>))
      (ret (cl\<lparr>m_origins := os, m_origin_index_ready := True\<rparr>))) Q E a'"
    if "ext a a'" "content a' = content a" "bound os a'" "same_store (m_origins cl) os"
      "content a ?n = Map.empty" for os a'
    by (rule awp_thenM' [OF filled [OF that] awp_ret])
  ultimately show ?thesis
    using False cl bl E
    unfolding ensure_origin_index_ready_def origins_open_def
    by (auto simp: Let_def same_store_def intro!: awp_bindM awp_open_fallback awp_origins_empty awp_if
        intro: awp_ret)
qed


lemma awp_log_open:
  assumes "openable (m_store cl) a" "openable (m_origins cl) a" "\<not> m_origin_index_ready cl"
    and "a_writable a \<or> a_tables a (m_dbi_name (m_store cl)) \<noteq> None"
    and "m_dbi_name (m_store cl) \<noteq> m_dbi_name (m_origins cl)"
    and "\<And>st a'. ext a a' \<Longrightarrow> content a' = content a \<Longrightarrow> same_store (m_store cl) st \<Longrightarrow>
      log_bound (cl\<lparr>m_store := st\<rparr>) a' \<Longrightarrow> Q (cl\<lparr>m_store := st\<rparr>) a'"
    and "\<And>c rc. fails rc \<Longrightarrow> E (MdbxException c rc)"
  shows "awp (log_open M cl) Q E a"
  using assms openable_ext [OF assms(2)] unfolding log_open_def
  by (auto intro!: awp_bindM awp_open_fallback awp_ret simp: log_bound_def same_store_def)

text \<open>
  \<open>append\<close>: the entry was free and is there afterwards; the index knows of it, and no tail of the
  index has gone down. An entry that is there already is left alone and reported.
\<close>

lemma awp_log_append:
  assumes cl: "log_bound cl a" "a_writable a" and inv: "log_inv (log_of cl a) (index_of_log cl a)"
    and ready: "m_origin_index_ready cl \<Longrightarrow> covers (log_of cl a) (index_of_log cl a)"
    and o': "is_node_id o'"
    and Q: "\<And>cl' a' lg ix. ext a a' \<Longrightarrow> log_bound cl' a' \<Longrightarrow> m_origin_index_ready cl' \<Longrightarrow>
      m_store cl' = m_store cl \<Longrightarrow> m_dbi_name (m_origins cl') = m_dbi_name (m_origins cl) \<Longrightarrow>
      log_entry (log_of cl a) o' s = None \<Longrightarrow> lg = (log_of cl a)(encode_key o' s \<mapsto> bs) \<Longrightarrow>
      log_inv lg ix \<Longrightarrow> covers lg ix \<Longrightarrow> tail_of ix o' \<noteq> None \<Longrightarrow>
      (index_of_log cl a \<noteq> Map.empty \<longrightarrow> ix = noted o' s (index_of_log cl a)) \<Longrightarrow>
      content a' = (content a)(m_dbi_name (m_store cl) := lg, m_dbi_name (m_origins cl) := ix) \<Longrightarrow>
      Q cl' a'"
    and dup: "log_entry (log_of cl a) o' s \<noteq> None \<Longrightarrow>
      E (MdbxException ''ChangeLogStore append failed'' MDBX_KEYEXIST)"
    and E: "\<And>c rc. fails rc \<Longrightarrow> E (MdbxException c rc)"
  shows "awp (log_append M cl o' s bs) Q E a"
proof -
  let ?l = "m_dbi_name (m_store cl)" and ?n = "m_dbi_name (m_origins cl)"
  have ne: "?l \<noteq> ?n" and b: "bound (m_store cl) a" using cl(1) by (simp_all add: log_bound_def)
  have put: "awp (bindM (api_put M (m_dbi (m_store cl')) (encode_key o' s) bs MDBX_NOOVERWRITE) (\<lambda>rc.
      thenM (check_mdbx rc ''ChangeLogStore append failed'')
     (thenM (note_origin M (m_origins cl') o' s) (ret cl')))) Q E a1"
    if a1: "ext a a1" "log_bound cl' a1" "bound (m_origins cl') a1" "m_origin_index_ready cl'"
      "m_store cl' = m_store cl" "m_dbi_name (m_origins cl') = ?n" "index_ok ix"
      "covers (log_of cl a) ix" "content a1 = (content a)(?n := ix)"
      "index_of_log cl a \<noteq> Map.empty \<longrightarrow> ix = index_of_log cl a" for cl' a1 ix
  proof -
    have w: "a_writable a1" "bound (m_store cl) a1" using a1 cl(2) b ext_writable bound_ext by blast+
    let ?lg = "(log_of cl a)(encode_key o' s \<mapsto> bs)"
    have fin: "Q cl' a3" if "ext a1 a2" "ext a2 a3" "log_entry (log_of cl a) o' s = None"
      "content a2 = (content a1)(?l := (content a1 ?l)(encode_key o' s \<mapsto> bs))"
      "content a3 = (content a2)(?n := noted o' s (content a2 ?n))" for a2 a3
      using that a1 ne inv o' covers_append [OF a1(8) o', of s bs]
        ext_trans [OF a1(1) ext_trans [OF that(1,2)]] log_bound_ext [OF a1(2) ext_trans [OF that(1,2)]]
      by (intro Q [of a3 cl' ?lg "noted o' s ix"]) (auto simp: log_inv_def noted_tail fun_upd_twist [OF ne])
    show ?thesis
      using a1 w ne dup E fin bound_ext [OF a1(3)]
      by (auto simp: log_entry_def ext_writable intro!: awp_bindM awp_thenM awp_store_put awp_check awp_note_origin awp_ret)
  qed
  show ?thesis
    unfolding log_append_def log_ensure_open_def
    using put b bound_open [OF b] cl inv ready E
    by (intro awp_thenM awp_checked_bound awp_ensure_open awp_bindM [of "ensure_origin_index_ready _ _"]
        awp_ensure_origin_index_ready) auto
qed

lemma awp_log_contains:
  assumes "bound (m_store cl) a" and "Q (log_entry (log_of cl a) o' s \<noteq> None) a"
    and "\<And>c rc. fails rc \<Longrightarrow> E (MdbxException c rc)"
  shows "awp (log_contains M cl o' s) Q E a"
  using assms bound_open [OF assms(1)]
  unfolding log_contains_def log_ensure_open_def
  by (auto intro!: awp_thenM awp_checked_bound awp_ensure_open awp_bindM awp_store_get awp_check
      awp_ret simp: log_entry_def)

lemma awp_log_get:
  assumes "bound (m_store cl) a" and "Q (log_entry (log_of cl a) o' s) a"
    and "\<And>c rc. fails rc \<Longrightarrow> E (MdbxException c rc)"
  shows "awp (log_get M cl o' s) Q E a"
  using assms bound_open [OF assms(1)]
  unfolding log_get_def log_ensure_open_def
  by (auto intro!: awp_thenM awp_checked_bound awp_ensure_open awp_bindM awp_store_get awp_check
      awp_ret simp: log_entry_def)

lemma awp_log_erase:
  assumes "bound (m_store cl) a" "a_writable a"
    and "\<And>a'. ext a a' \<Longrightarrow> content a' = (content a)(m_dbi_name (m_store cl) :=
        (log_of cl a)(encode_key o' s := None)) \<Longrightarrow> Q (log_entry (log_of cl a) o' s \<noteq> None) a'"
    and "\<And>c rc. fails rc \<Longrightarrow> E (MdbxException c rc)"
  shows "awp (log_erase M cl o' s) Q E a"
proof -
  have "content a = (content a)(m_dbi_name (m_store cl) := (log_of cl a)(encode_key o' s := None))"
    if "log_of cl a (encode_key o' s) = None" using that by (auto simp: fun_eq_iff)
  with assms bound_open [OF assms(1)] show ?thesis
    unfolding log_erase_def log_ensure_open_def
    by (auto intro!: awp_thenM awp_checked_bound awp_ensure_open awp_bindM awp_store_del awp_check
        awp_ret simp: log_entry_def)
qed


lemma awp_store_cmp:
  assumes "bound st a" and "\<And>r. (r > 0 \<longleftrightarrow> y < x) \<Longrightarrow> Q r a"
  shows "awp (api_cmp M (m_dbi st) x y) Q E a"
proof (rule awp_wf)
  assume "wf_view a"
  from bound_table [OF assms(1) this] assms show ?thesis by (metis awp_cmp)
qed

lemma awp_prune_up_to:
  assumes b: "bound (m_store cl) a" "a_writable a" and lg: "log_ok (log_of cl a)" and o': "is_node_id o'"
    and Q: "\<And>a'. ext a a' \<Longrightarrow>
      content a' = (content a)(m_dbi_name (m_store cl) := pruned o' up_to (log_of cl a)) \<Longrightarrow>
      Q (card {s. s \<le> up_to \<and> log_entry (log_of cl a) o' s \<noteq> None}) a'"
    and E: "\<And>c rc. fails rc \<Longrightarrow> E (MdbxException c rc)"
  shows "awp (prune_up_to M cl o' up_to) Q E a"
proof (rule awp_wf)
  let ?st = "m_store cl"
  let ?stop = "\<lambda>k. length k < 24 \<or> encode_key o' up_to < k"
  assume wf: "wf_view a"
  from bound_table [OF b(1) this] obtain T where T:
    "a_handles a (m_dbi ?st) = Some (m_dbi_name ?st)" "a_tables a (m_dbi_name ?st) = Some T"
    "single M T" "content a (m_dbi_name ?st) = rows T" by metis
  have fin: "finite (dom (rows T))" using wf T by (auto simp: wf_view_def)
  let ?ks = "takeWhile (\<lambda>kv. \<not> ?stop (fst kv)) (rows_where (\<lambda>k. encode_key o' 0 \<le> k) (rows T))"
  have rng: "set (map fst ?ks) = {k \<in> dom (rows T). take 16 k = o' \<and> read_u64_be (drop 16 k) \<le> up_to}"
    "distinct (map fst ?ks)"
    using prune_range [OF fin _ o' refl] lg T(4) by auto
  have "set (map fst ?ks) = encode_key o' ` {s. s \<le> up_to \<and> log_entry (rows T) o' s \<noteq> None}"
    unfolding rng(1) using o' lg T(4) decode_encode_key(1)
    by (force simp: log_entry_def log_ok_def image_iff)
  then have "card (set (map fst ?ks)) = card {s. s \<le> up_to \<and> log_entry (rows T) o' s \<noteq> None}"
    using o' by (simp add: card_image inj_on_def encode_key_inj)
  then have len: "length ?ks = card {s. s \<le> up_to \<and> log_entry (rows T) o' s \<noteq> None}"
    using distinct_card [OF rng(2)] by simp
  have res: "rows T |` (- set (map fst ?ks)) = pruned o' up_to (rows T)"
    unfolding rng(1) pruned_def by (auto simp: restrict_map_def fun_eq_iff)
  have body: "awp (prune_body M (m_dbi ?st) (encode_key o' up_to) k v c acc)
      (\<lambda>l a''. \<exists>c'. l = Continue (Suc acc) c' \<and> cursor_dbi c' = m_dbi ?st \<and>
        cursor_at c' = Some k \<and> a'' = del_row (m_dbi_name ?st) k a') E a'"
    if "\<not> ?stop k" "bound ?st a'" "a_writable a'" "cursor_dbi c = m_dbi ?st"
      "cursor_at c = Some k" "content a' (m_dbi_name ?st) k = Some v" for k v c acc a'
    using that E unfolding prune_body_def
    by (auto intro!: awp_bindM awp_thenM awp_check awp_ret awp_store_cmp
        awp_store_cursor_del [where st = ?st and k = k])
  have brk: "awp (prune_body M (m_dbi ?st) (encode_key o' up_to) k v c acc)
      (\<lambda>l a''. l = Break acc MDBX_SUCCESS \<and> a'' = a') E a'"
    if "?stop k" "bound ?st a'" for k v c acc a'
    using that E unfolding prune_body_def
    by (auto intro!: awp_bindM awp_ret awp_store_cmp)
  show ?thesis
    using T b bound_open [OF b(1)] E Q len res
    unfolding prune_up_to_def log_ensure_open_def
    by (auto intro!: awp_thenM awp_checked_bound awp_ensure_open awp_bindM [of "api_entries _ _"]
        awp_bindM [of "api_cursor_open _ _"] awp_bindM [of "bindM _ _"] awp_entries [OF T(1-3)]
        awp_cursor_open [OF T(1)] awp_check awp_ret
        awp_delete_walk [where stop = ?stop and n = "card (dom (rows T))"] body brk)
qed


lemma awp_rebuild_origin_index:
  assumes cl: "log_bound cl a" "a_writable a" and inv: "log_ok (log_of cl a)"
    and Q: "\<And>cl' a' ix n. ext a a' \<Longrightarrow> log_bound cl' a' \<Longrightarrow> m_origin_index_ready cl' \<Longrightarrow>
      m_store cl' = m_store cl \<Longrightarrow> m_dbi_name (m_origins cl') = m_dbi_name (m_origins cl) \<Longrightarrow>
      index_ok ix \<Longrightarrow> index_matches (log_of cl a) ix \<Longrightarrow> covers (log_of cl a) ix \<Longrightarrow>
      content a' = (content a)(m_dbi_name (m_origins cl) := ix) \<Longrightarrow>
      Q (n, cl') a'"
    and E: "\<And>c rc. fails rc \<Longrightarrow> E (MdbxException c rc)"
  shows "awp (rebuild_origin_index M cl) Q E a"
proof -
  let ?n = "m_dbi_name (m_origins cl)"
  have bl: "bound (m_store cl) a" "openable (m_origins cl) a" "m_dbi_name (m_store cl) \<noteq> ?n"
    using cl(1) by (simp_all add: log_bound_def)
  have filled: "awp (write_origin_tails M (cl\<lparr>m_origins := os\<rparr>) out)
      (\<lambda>u. Q (length out, cl\<lparr>m_origins := os, m_origin_index_ready := True\<rparr>)) E a1"
    if "ext a a1" "bound os a1" "same_store (m_origins cl) os" "content a1 = (content a)(?n := Map.empty)"
      "tails_spec (dom (log_of cl a)) out" for os a1 out
  proof (rule awp_write_origin_tails)
    fix a2
    assume w: "ext a1 a2" "content a2 = (content a1)(m_dbi_name (m_origins (cl\<lparr>m_origins := os\<rparr>)) :=
      fold (\<lambda>(o', s). noted o' s) out (index_of_log (cl\<lparr>m_origins := os\<rparr>) a1))"
    have "log_bound (cl\<lparr>m_origins := os, m_origin_index_ready := True\<rparr>) a2"
      using bound_ext [OF that(2) w(1)] bound_ext [OF bl(1) ext_trans [OF that(1) w(1)]] that(3) bl
      by (auto simp: log_bound_def openable_def same_store_def bound_def)
    then show "Q (length out, cl\<lparr>m_origins := os, m_origin_index_ready := True\<rparr>) a2"
      using w that backfilled [OF that(5)] ext_trans [OF that(1) w(1)]
      by (intro Q) (auto simp: same_store_def index_matches_def)
  qed (use that cl(2) E ext_writable [OF that(1)] in \<open>auto simp: tails_spec_def same_store_def index_ok_def\<close>)
  show ?thesis
    unfolding rebuild_origin_index_def log_ensure_open_def origins_open_def Let_def
    by (intro awp_thenM awp_checked_bound awp_ensure_open awp_bindM awp_collect_tails awp_open_fallback
        awp_origins_clear awp_thenM' [OF filled] awp_ret)
      (use bl cl inv E bound_open [OF bl(1)] in
        \<open>auto simp: same_store_def ext_writable dest: ext_trans\<close>)
qed

lemma awp_tails_match:
  assumes "bound os a" "index_ok (content a (m_dbi_name os))" and "length actual = length expected"
    and "Q (actual = map fst expected \<and>
      (\<forall>(o', s) \<in> set expected. tail_of (content a (m_dbi_name os)) o' = Some s)) a"
    and "\<And>c rc. fails rc \<Longrightarrow> E (MdbxException c rc)"
  shows "awp (tails_match M os expected actual) Q E a"
  using assms(3,4)
proof (induction actual expected rule: list_induct2)
  case (Cons x xs y ys)
  obtain o' s where y: "y = (o', s)" by (cases y)
  with Cons assms(1,2,5) show ?case
    by (cases "x = o'"; cases "tail_of (content a (m_dbi_name os)) o' = Some s")
      (auto intro!: awp_bindM awp_last_seq awp_ret)
qed (auto intro!: awp_ret)

lemma awp_origin_index_matches_changelog:
  assumes cl: "bound (m_store cl) a" and lg: "log_ok (log_of cl a)"
    and os: "openable (new_origin_store (m_env (m_store cl))) a"
      "index_ok (content a ''_mdbxc_origins'')"
    and Q: "\<And>a'. ext a a' \<Longrightarrow> content a' = content a \<Longrightarrow>
      Q (index_matches (log_of cl a) (content a ''_mdbxc_origins'')) a'"
    and E: "\<And>c rc. fails rc \<Longrightarrow> E (MdbxException c rc)"
  shows "awp (origin_index_matches_changelog M cl) Q E a"
proof (rule awp_wf)
  let ?ix = "content a ''_mdbxc_origins''"
  assume "wf_view a"
  then have fin: "finite (dom ?ix)"
    by (auto simp: wf_view_def content_def split: option.splits)
  note lists = index_matches_lists [OF fin os(2)]
  have name: "m_dbi_name (new_origin_store e) = ''_mdbxc_origins''" for e
    by (simp add: new_origin_store_def new_store_def)
  have none: "expected = [] \<longleftrightarrow> index_matches (log_of cl a) ?ix"
    if "tails_spec (dom (log_of cl a)) expected" "a_tables a ''_mdbxc_origins'' = None" for expected
  proof -
    have "?ix = Map.empty" using that(2) by (simp add: content_def)
    then show ?thesis using lists [OF that(1)] by (auto simp: tails_list_def rows_where_def)
  qed
  have mism: "\<not> index_matches (log_of cl a) ?ix"
    if "tails_spec (dom (log_of cl a)) expected" "length (tails_list ?ix) \<noteq> length expected" for expected
    using lists [OF that(1)] that(2) by (metis length_map)
  show ?thesis
    unfolding origin_index_matches_changelog_def log_ensure_open_def origins_open_existing_def
    by (intro awp_thenM awp_checked_bound awp_ensure_open awp_bindM awp_collect_tails awp_open_existing
        awp_origins)
      (use cl lg os Q E bound_open [OF cl] none mism name in
        \<open>auto intro!: awp_ret awp_bindM awp_origins awp_tails_match simp: same_store_def lists [symmetric]\<close>)
qed

end
end
