(* ===== verification/Log_Properties.thy ===== *)
theory Log_Properties
  imports Change_Log Mdbx_Reference
begin

text \<open>
  What the change log promises to the engine, for every implementation of the libmdbx contract,
  with instances on the reference engine.
\<close>

context mdbx_engine
begin

lemma run_append:
  assumes "ok t" "log_ready cl (view t)" "a_writable (view t)" "is_node_id o'"
  shows "case log_append M cl o' s bs t of (r, t') \<Rightarrow> (case r of
      Inl e \<Rightarrow> (\<exists>ctx rc. e = MdbxException ctx rc \<and> fails rc) \<or>
        e = MdbxException ''ChangeLogStore append failed'' MDBX_KEYEXIST \<and>
        log_entry (log_of cl (view t)) o' s \<noteq> None
    | Inr cl' \<Rightarrow> ok t' \<and> ext (view t) (view t') \<and> log_ready cl' (view t') \<and> m_store cl' = m_store cl \<and>
        m_dbi_name (m_origins cl') = m_dbi_name (m_origins cl) \<and>
        log_entry (log_of cl (view t)) o' s = None \<and>
        log_of cl' (view t') = (log_of cl (view t))(encode_key o' s \<mapsto> bs) \<and>
        covers (log_of cl' (view t')) (index_of_log cl' (view t')))"
proof -
  let ?a = "view t"
  have c: "log_bound cl ?a" "log_inv (log_of cl ?a) (index_of_log cl ?a)"
    "m_origin_index_ready cl \<Longrightarrow> covers (log_of cl ?a) (index_of_log cl ?a)"
    "m_dbi_name (m_store cl) \<noteq> m_dbi_name (m_origins cl)"
    using assms(2) by (auto simp: log_ready_def log_bound_def)
  have "awp (log_append M cl o' s bs)
    (\<lambda>cl' a'. ext ?a a' \<and> log_ready cl' a' \<and> m_store cl' = m_store cl \<and>
        m_dbi_name (m_origins cl') = m_dbi_name (m_origins cl) \<and> log_entry (log_of cl ?a) o' s = None \<and>
        log_of cl' a' = (log_of cl ?a)(encode_key o' s \<mapsto> bs) \<and> covers (log_of cl' a') (index_of_log cl' a'))
    (\<lambda>e. (\<exists>ctx rc. e = MdbxException ctx rc \<and> fails rc) \<or>
        e = MdbxException ''ChangeLogStore append failed'' MDBX_KEYEXIST \<and>
        log_entry (log_of cl ?a) o' s \<noteq> None) ?a"
    using c(4) by (intro awp_log_append [OF c(1) assms(3) c(2,3) assms(4)]) (auto simp: log_ready_def)
  from awp_run [OF this assms(1)] show ?thesis .
qed

lemma run_get:
  assumes "ok t" "bound (m_store cl) (view t)"
  shows "case log_get M cl o' s t of (r, t') \<Rightarrow> (case r of
      Inl e \<Rightarrow> \<exists>ctx rc. e = MdbxException ctx rc \<and> fails rc
    | Inr x \<Rightarrow> ok t' \<and> x = log_entry (log_of cl (view t)) o' s \<and> view t' = view t)"
proof -
  have "awp (log_get M cl o' s) (\<lambda>x a'. x = log_entry (log_of cl (view t)) o' s \<and> a' = view t)
      (\<lambda>e. \<exists>ctx rc. e = MdbxException ctx rc \<and> fails rc) (view t)"
    by (rule awp_log_get [OF assms(2)]) auto
  from awp_run [OF this assms(1)] show ?thesis .
qed

lemma run_prune:
  assumes "ok t" "bound (m_store cl) (view t)" "a_writable (view t)" "log_ok (log_of cl (view t))" "is_node_id o'"
  shows "case prune_up_to M cl o' up_to t of (r, t') \<Rightarrow> (case r of
      Inl e \<Rightarrow> \<exists>ctx rc. e = MdbxException ctx rc \<and> fails rc
    | Inr n \<Rightarrow> ok t' \<and> ext (view t) (view t') \<and>
        n = card {s. s \<le> up_to \<and> log_entry (log_of cl (view t)) o' s \<noteq> None} \<and>
        content (view t') = (content (view t))(m_dbi_name (m_store cl) := pruned o' up_to (log_of cl (view t))))"
proof -
  have "awp (prune_up_to M cl o' up_to) (\<lambda>n a'. ext (view t) a' \<and>
        n = card {s. s \<le> up_to \<and> log_entry (log_of cl (view t)) o' s \<noteq> None} \<and>
        content a' = (content (view t))(m_dbi_name (m_store cl) := pruned o' up_to (log_of cl (view t))))
      (\<lambda>e. \<exists>ctx rc. e = MdbxException ctx rc \<and> fails rc) (view t)"
    by (rule awp_prune_up_to [OF assms(2-5)]) auto
  from awp_run [OF this assms(1)] show ?thesis .
qed

lemma run_rebuild:
  assumes "ok t" "log_bound cl (view t)" "a_writable (view t)" "log_ok (log_of cl (view t))"
  shows "case rebuild_origin_index M cl t of (r, t') \<Rightarrow> (case r of
      Inl e \<Rightarrow> \<exists>ctx rc. e = MdbxException ctx rc \<and> fails rc
    | Inr (n, cl') \<Rightarrow> ok t' \<and> ext (view t) (view t') \<and> log_bound cl' (view t') \<and> m_store cl' = m_store cl \<and>
        m_dbi_name (m_origins cl') = m_dbi_name (m_origins cl) \<and> log_of cl' (view t') = log_of cl (view t) \<and>
        index_ok (index_of_log cl' (view t')) \<and>
        index_matches (log_of cl (view t)) (index_of_log cl' (view t')))"
proof -
  have ne: "m_dbi_name (m_store cl) \<noteq> m_dbi_name (m_origins cl)" using assms(2) by (simp add: log_bound_def)
  have "awp (rebuild_origin_index M cl) (\<lambda>(n, cl') a'. ext (view t) a' \<and> log_bound cl' a' \<and>
        m_store cl' = m_store cl \<and> m_dbi_name (m_origins cl') = m_dbi_name (m_origins cl) \<and>
        log_of cl' a' = log_of cl (view t) \<and> index_ok (index_of_log cl' a') \<and>
        index_matches (log_of cl (view t)) (index_of_log cl' a'))
      (\<lambda>e. \<exists>ctx rc. e = MdbxException ctx rc \<and> fails rc) (view t)"
    using ne by (intro awp_rebuild_origin_index [OF assms(2-4)]) auto
  from awp_run [OF this assms(1)] show ?thesis by (auto split: sum.splits)
qed

lemma run_matches:
  assumes "ok t" "bound (m_store cl) (view t)" "log_ok (log_of cl (view t))"
    and "openable (new_origin_store (m_env (m_store cl))) (view t)" "index_ok (content (view t) ''_mdbxc_origins'')"
  shows "case origin_index_matches_changelog M cl t of (r, t') \<Rightarrow> (case r of
      Inl e \<Rightarrow> \<exists>ctx rc. e = MdbxException ctx rc \<and> fails rc
    | Inr x \<Rightarrow> ok t' \<and> content (view t') = content (view t) \<and>
        x = index_matches (log_of cl (view t)) (content (view t) ''_mdbxc_origins''))"
proof -
  have "awp (origin_index_matches_changelog M cl) (\<lambda>x a'. content a' = content (view t) \<and>
        x = index_matches (log_of cl (view t)) (content (view t) ''_mdbxc_origins''))
      (\<lambda>e. \<exists>ctx rc. e = MdbxException ctx rc \<and> fails rc) (view t)"
    by (rule awp_origin_index_matches_changelog [OF assms(2-5)]) auto
  from awp_run [OF this assms(1)] show ?thesis .
qed

end

text \<open>A log with its table open in an empty database.\<close>

definition example_log_txn :: ref_txn where
  "example_log_txn = \<lparr>r_env = 7, r_writable = True, r_tables = [(''_mdbxc_changelog'', 0, [])],
     r_handles = [''_mdbxc_changelog'']\<rparr>"

definition example_log :: change_log where
  "example_log = (new_change_log 7)\<lparr>m_store := \<lparr>m_env = 7, m_dbi_name = ''_mdbxc_changelog'', m_dbi = 1,
     m_open = True\<rparr>\<rparr>"

lemma example_log_view:
  "a_env (ref_view example_log_txn) = 7" "a_writable (ref_view example_log_txn)"
  "a_handles (ref_view example_log_txn) 1 = Some ''_mdbxc_changelog''"
  "content (ref_view example_log_txn) = (\<lambda>_. Map.empty)" "sys_ok (ref_view example_log_txn)"
  by (simp_all add: example_log_txn_def ref_view_def ref_name_def content_def ref_table_def sys_ok_def fun_eq_iff)

lemma example_log_hyps:
  "ref_ok example_log_txn" "log_ready example_log (ref_view example_log_txn)"
  "a_writable (ref_view example_log_txn)"
proof -
  show "ref_ok example_log_txn" by (simp add: example_log_txn_def ref_ok_def)
  show "a_writable (ref_view example_log_txn)" by (rule example_log_view)
  have "log_bound example_log (ref_view example_log_txn)"
    using example_log_view
    by (simp add: log_bound_def bound_def openable_def example_log_def new_change_log_def
        new_origin_store_def new_store_def is_reserved_dbi_name_def)
  moreover have "log_inv Map.empty Map.empty" "covers Map.empty Map.empty"
    by (simp_all add: log_inv_def log_ok_def index_ok_def covers_def log_entry_def)
  ultimately show "log_ready example_log (ref_view example_log_txn)"
    by (simp add: log_ready_def example_log_view)
qed

text \<open>
  C9. What has been appended to the change log is what a lookup returns: after an append the entry
  holds the appended bytes, every other entry is as before, and the log is still in use with an
  index that knows all its entries.
\<close>

theorem log_append_then_get:
  assumes "mdbx_engine M ok view cursor_dbi cursor_at fails"
    and "ok t" "log_ready cl (view t)" "a_writable (view t)" "is_node_id o'"
    and "log_append M cl o' s bs t = (Inr cl', t1)"
    and "is_node_id o1" "log_get M cl' o1 s1 t1 = (Inr x, t2)"
  shows "log_ready cl' (view t1) \<and> log_entry (log_of cl (view t)) o' s = None \<and>
    x = (if o1 = o' \<and> s1 = s then Some bs else log_entry (log_of cl (view t)) o1 s1)"
proof -
  have a: "ok t1 \<and> log_ready cl' (view t1) \<and> log_entry (log_of cl (view t)) o' s = None \<and>
      log_of cl' (view t1) = (log_of cl (view t))(encode_key o' s \<mapsto> bs)"
    using mdbx_engine.run_append [OF assms(1-5), of s bs] assms(6) by auto
  then have "bound (m_store cl') (view t1)" by (simp add: log_ready_def log_bound_def)
  with a mdbx_engine.run_get [OF assms(1), of t1 cl' o1 s1] assms(8)
  have "x = log_entry (log_of cl' (view t1)) o1 s1" by simp
  with a assms(5,7) show ?thesis by (auto simp: log_entry_def encode_key_inj)
qed

lemma example_append:
  obtains cl' t1 x t2 where
    "log_append ref_engine example_log (replicate 16 1) 5 [7] example_log_txn = (Inr cl', t1)"
    "log_get ref_engine cl' (replicate 16 1) 5 t1 = (Inr x, t2)"
proof -
  have ev: "case log_append ref_engine example_log (replicate 16 1) 5 [7] example_log_txn of
      (Inr cl', t1) \<Rightarrow> (case log_get ref_engine cl' (replicate 16 1) 5 t1 of (Inr x, t2) \<Rightarrow> True | (Inl e, t2) \<Rightarrow> False)
    | (Inl e, t1) \<Rightarrow> False"
    by code_simp
  obtain r1 t1 where 1: "log_append ref_engine example_log (replicate 16 1) 5 [7] example_log_txn = (r1, t1)"
    by (rule prod.exhaust)
  with ev obtain cl' where 2: "r1 = Inr cl'" by (cases r1) auto
  obtain r2 t2 where 3: "log_get ref_engine cl' (replicate 16 1) 5 t1 = (r2, t2)" by (rule prod.exhaust)
  with ev 1 2 obtain x where "r2 = Inr x" by (cases r2) auto
  with 1 2 3 that show ?thesis by blast
qed

theorem log_append_then_get_witness:
  "\<exists>cl' t1 t2. log_append ref_engine example_log (replicate 16 1) 5 [7] example_log_txn = (Inr cl', t1) \<and>
     log_get ref_engine cl' (replicate 16 1) 5 t1 = (Inr (Some [7]), t2)"
proof -
  obtain cl' t1 x t2 where run:
    "log_append ref_engine example_log (replicate 16 1) 5 [7] example_log_txn = (Inr cl', t1)"
    "log_get ref_engine cl' (replicate 16 1) 5 t1 = (Inr x, t2)" by (rule example_append)
  have "is_node_id (replicate 16 1)" by (simp add: is_node_id_def)
  from log_append_then_get [OF ref.mdbx_engine_axioms example_log_hyps this run(1) this run(2)] run
  show ?thesis by auto
qed



text \<open>
  C10. Pruning removes what it says and nothing else, and it ends: on an engine whose calls do not
  fail, \<open>prune_up_to\<close> returns the number of entries of the origin up to the bound, these entries are
  gone, every other entry and every other table is as before, and the log stays in use.
\<close>

theorem log_prune_correct:
  assumes "mdbx_engine M ok view cursor_dbi cursor_at (\<lambda>_. False)"
    and "ok t" "log_ready cl (view t)" "a_writable (view t)" "is_node_id o'"
  shows "\<exists>n t'. prune_up_to M cl o' up_to t = (Inr n, t') \<and> log_ready cl (view t') \<and>
    n = card {s. s \<le> up_to \<and> log_entry (log_of cl (view t)) o' s \<noteq> None} \<and>
    (\<forall>o1 s1. is_node_id o1 \<longrightarrow> log_entry (log_of cl (view t')) o1 s1 =
       (if o1 = o' \<and> s1 \<le> up_to then None else log_entry (log_of cl (view t)) o1 s1)) \<and>
    (\<forall>table. table \<noteq> m_dbi_name (m_store cl) \<longrightarrow> content (view t') table = content (view t) table)"
proof -
  have c: "bound (m_store cl) (view t)" "log_ok (log_of cl (view t))" "log_bound cl (view t)"
    "m_dbi_name (m_store cl) \<noteq> m_dbi_name (m_origins cl)"
    using assms(3) by (auto simp: log_ready_def log_bound_def log_inv_def)
  obtain n t' where run: "prune_up_to M cl o' up_to t = (Inr n, t')" and r: "ext (view t) (view t')"
    "n = card {s. s \<le> up_to \<and> log_entry (log_of cl (view t)) o' s \<noteq> None}"
    "content (view t') = (content (view t))(m_dbi_name (m_store cl) := pruned o' up_to (log_of cl (view t)))"
    using mdbx_engine.run_prune [OF assms(1,2) c(1) assms(4) c(2) assms(5), of up_to]
    by (auto split: prod.splits sum.splits)
  have cov: "covers (pruned o' up_to lg) ix" if "covers lg ix" for lg ix
    using that by (auto simp: covers_def log_entry_pruned)
  have "log_ready cl (view t')"
    using assms(3) log_bound_ext [OF c(3) r(1)] r(3) c(4) cov by (auto simp: log_ready_def log_inv_def)
  with run r show ?thesis by (auto simp: log_entry_pruned)
qed

theorem log_prune_correct_witness:
  "\<exists>n t'. prune_up_to ref_engine example_log (replicate 16 1) 5 example_log_txn = (Inr n, t') \<and> n = 0"
proof -
  have "is_node_id (replicate 16 1)" by (simp add: is_node_id_def)
  from log_prune_correct [OF ref.mdbx_engine_axioms example_log_hyps this, of 5] show ?thesis
    by (auto simp: log_entry_def example_log_view)
qed



end
