(* ===== verification/Store_Properties.thy ===== *)
theory Store_Properties
  imports Identity_Index Receiver_Mode Meta_Store Mdbx_Reference
begin

text \<open>
  What the smaller stores promise: the identity index finds what was put and nothing else, the
  receiver-mode record has one encoding and excludes the other mode, and the local sequence
  counter counts.
\<close>

lemma meta_key_distinct: "key_local_seq \<noteq> key_node_id" "key_local_seq \<noteq> key_db_uuid"
  by (simp_all add: meta_keys)

context mdbx_engine
begin

lemma run_identity_put:
  assumes "ok t" "bound st (view t)" "a_writable (view t)"
  shows "case identity_put M st name idk v t of (r, t') \<Rightarrow> (case r of
      Inl e \<Rightarrow> \<exists>ctx rc. e = MdbxException ctx rc \<and> fails rc
    | Inr _ \<Rightarrow> ok t' \<and> bound st (view t') \<and> content (view t') = (content (view t))(m_dbi_name st :=
        (content (view t) (m_dbi_name st))(identity_encode_key name idk \<mapsto> encode_value v)))"
proof -
  have "awp (identity_put M st name idk v) (\<lambda>_ a'. bound st a' \<and> content a' = (content (view t))(m_dbi_name st :=
        (content (view t) (m_dbi_name st))(identity_encode_key name idk \<mapsto> encode_value v)))
      (\<lambda>e. \<exists>ctx rc. e = MdbxException ctx rc \<and> fails rc) (view t)"
    by (rule awp_identity_put [OF assms(2,3)]) auto
  from awp_run [OF this assms(1)] show ?thesis .
qed

lemma run_identity_get:
  assumes "ok t" "bound st (view t)" "identity_ok (content (view t) (m_dbi_name st))"
  shows "case identity_get M st name idk t of (r, t') \<Rightarrow> (case r of
      Inl e \<Rightarrow> \<exists>ctx rc. e = MdbxException ctx rc \<and> fails rc
    | Inr x \<Rightarrow> ok t' \<and> x = identity_record (content (view t) (m_dbi_name st)) name idk)"
proof -
  have "awp (identity_get M st name idk) (\<lambda>x a'. x = identity_record (content (view t) (m_dbi_name st)) name idk)
      (\<lambda>e. \<exists>ctx rc. e = MdbxException ctx rc \<and> fails rc) (view t)"
    by (rule awp_identity_get [OF assms(2,3)]) auto
  from awp_run [OF this assms(1)] show ?thesis .
qed

lemma run_claim_full:
  assumes "ok t" "bound st (view t)" "a_writable (view t)" "modes_ok (content (view t) (m_dbi_name st))"
    and "\<not> is_zero_sync_id db"
  shows "case claim_full_global M st db t of (r, t') \<Rightarrow> (case r of
      Inl e \<Rightarrow> \<exists>ctx rc. e = MdbxException ctx rc \<and> fails rc
    | Inr x \<Rightarrow> ok t' \<and> ext (view t) (view t') \<and> bound st (view t') \<and>
        modes_ok (content (view t') (m_dbi_name st)) \<and>
        x = fst (claim_full_spec (receiver_mode_of (content (view t) (m_dbi_name st)) db)) \<and>
        receiver_mode_of (content (view t') (m_dbi_name st)) =
          (receiver_mode_of (content (view t) (m_dbi_name st)))
            (db \<mapsto> snd (claim_full_spec (receiver_mode_of (content (view t) (m_dbi_name st)) db))))"
proof -
  let ?m = "content (view t) (m_dbi_name st)"
  have "awp (claim_full_global M st db) (\<lambda>x a'. ext (view t) a' \<and> bound st a' \<and>
        modes_ok (content a' (m_dbi_name st)) \<and> x = fst (claim_full_spec (receiver_mode_of ?m db)) \<and>
        receiver_mode_of (content a' (m_dbi_name st)) =
          (receiver_mode_of ?m)(db \<mapsto> snd (claim_full_spec (receiver_mode_of ?m db))))
      (\<lambda>e. \<exists>ctx rc. e = MdbxException ctx rc \<and> fails rc) (view t)"
    using claimed_full_mode [OF assms(4), of db] by (intro awp_claim_full_global [OF assms(2-5)]) auto
  from awp_run [OF this assms(1)] show ?thesis .
qed

lemma run_claim_selective:
  assumes "ok t" "bound st (view t)" "a_writable (view t)" "modes_ok (content (view t) (m_dbi_name st))"
    and "\<not> is_zero_sync_id db" "scope_ok scope"
    and "receiver_mode_of (content (view t) (m_dbi_name st)) db = cur"
    and "\<And>s. cur = Some s \<Longrightarrow> scope \<notin> set (scope_ids s) \<Longrightarrow> length (scope_ids s) < 10000"
  shows "case claim_selective M st db scope t of (r, t') \<Rightarrow> (case r of
      Inl e \<Rightarrow> \<exists>ctx rc. e = MdbxException ctx rc \<and> fails rc
    | Inr x \<Rightarrow> ok t' \<and> ext (view t) (view t') \<and> bound st (view t') \<and>
        modes_ok (content (view t') (m_dbi_name st)) \<and> x = fst (claim_selective_spec scope cur) \<and>
        receiver_mode_of (content (view t') (m_dbi_name st)) =
          (receiver_mode_of (content (view t) (m_dbi_name st)))(db \<mapsto> snd (claim_selective_spec scope cur)))"
proof -
  have "awp (claim_selective M st db scope) (\<lambda>x a'. ext (view t) a' \<and> bound st a' \<and>
        modes_ok (content a' (m_dbi_name st)) \<and> x = fst (claim_selective_spec scope cur) \<and>
        receiver_mode_of (content a' (m_dbi_name st)) =
          (receiver_mode_of (content (view t) (m_dbi_name st)))(db \<mapsto> snd (claim_selective_spec scope cur)))
      (\<lambda>e. \<exists>ctx rc. e = MdbxException ctx rc \<and> fails rc) (view t)"
    by (intro awp_claim_selective [OF assms(2-8)]) auto
  from awp_run [OF this assms(1)] show ?thesis .
qed

lemma run_increment:
  assumes "ok t" "bound st (view t)" "a_writable (view t)"
  shows "case increment_local_seq M st t of (r, t') \<Rightarrow> (case r of
      Inl e \<Rightarrow> \<exists>ctx rc. e = MdbxException ctx rc \<and> fails rc
    | Inr x \<Rightarrow> ok t' \<and> x = meta_local_seq (content (view t) (m_dbi_name st)) + 1 \<and>
        meta_local_seq (content (view t') (m_dbi_name st)) = x \<and>
        meta_node_id (content (view t') (m_dbi_name st)) = meta_node_id (content (view t) (m_dbi_name st)) \<and>
        meta_db_uuid (content (view t') (m_dbi_name st)) = meta_db_uuid (content (view t) (m_dbi_name st)))"
proof -
  let ?m = "content (view t) (m_dbi_name st)"
  have "awp (increment_local_seq M st) (\<lambda>x a'. x = meta_local_seq ?m + 1 \<and>
        meta_local_seq (content a' (m_dbi_name st)) = x \<and>
        meta_node_id (content a' (m_dbi_name st)) = meta_node_id ?m \<and>
        meta_db_uuid (content a' (m_dbi_name st)) = meta_db_uuid ?m)
      (\<lambda>e. \<exists>ctx rc. e = MdbxException ctx rc \<and> fails rc) (view t)"
    by (rule awp_increment_local_seq [OF assms(2,3)]) (auto simp: meta_key_distinct)
  from awp_run [OF this assms(1)] show ?thesis .
qed

end

text \<open>A transaction with one open reserved table.\<close>

definition example_store_txn :: "string \<Rightarrow> ref_txn" where
  "example_store_txn n = \<lparr>r_env = 7, r_writable = True, r_tables = [(n, 0, [])], r_handles = [n]\<rparr>"

definition example_store :: "string \<Rightarrow> store" where
  "example_store n = \<lparr>m_env = 7, m_dbi_name = n, m_dbi = 1, m_open = True\<rparr>"

lemma example_store_hyps:
  "ref_ok (example_store_txn n)" "is_reserved_dbi_name n \<Longrightarrow> bound (example_store n) (ref_view (example_store_txn n))"
  "a_writable (ref_view (example_store_txn n))" "content (ref_view (example_store_txn n)) = (\<lambda>_. Map.empty)"
  "m_dbi_name (example_store n) = n"
  by (simp_all add: example_store_txn_def example_store_def ref_ok_def ref_view_def ref_name_def bound_def
      ref_table_def content_def sys_ok_def fun_eq_iff)

text \<open>
  C13. The identity index finds what was put: after a put, a lookup of any pair of DBI name and identity
  key returns the record just put for that pair, and for every other pair what it returned before;
  the length prefix of the key keeps pairs apart that concatenate to the same bytes.
\<close>

theorem identity_put_then_get:
  assumes "mdbx_engine M ok view cursor_dbi cursor_at fails"
    and "ok t" "bound st (view t)" "a_writable (view t)" "identity_ok (content (view t) (m_dbi_name st))"
    and "identity_fits v" "length name < 2 ^ 32" "length name' < 2 ^ 32"
    and "identity_put M st name idk v t = (Inr u, t1)" "identity_get M st name' idk' t1 = (Inr x, t2)"
  shows "x = (if name' = name \<and> idk' = idk then Some v
    else identity_record (content (view t) (m_dbi_name st)) name' idk')"
proof -
  have p: "ok t1" "bound st (view t1)" "content (view t1) (m_dbi_name st) =
      (content (view t) (m_dbi_name st))(identity_encode_key name idk \<mapsto> encode_value v)"
    using mdbx_engine.run_identity_put [OF assms(1-4), of name idk v] assms(9) by auto
  have "identity_ok (content (view t1) (m_dbi_name st))"
    using p(3) identity_ok_update [OF assms(5,6)] by simp
  then have "x = identity_record (content (view t1) (m_dbi_name st)) name' idk'"
    using mdbx_engine.run_identity_get [OF assms(1) p(1,2), of name' idk'] assms(10) by simp
  then show ?thesis
    unfolding p(3) by (simp add: identity_record_update [OF assms(6-8)])
qed

definition example_identity :: identity_value where
  "example_identity = \<lparr>iv_storage_key = [1], iv_origin_node_id = replicate 16 2, iv_seq = 3,
     iv_revision_key = [4], iv_flags = 0\<rparr>"

theorem identity_put_then_get_witness:
  "\<exists>u t1 t2. identity_put ref_engine (example_store ''_mdbxc_identity_index'') ''ab'' [99] example_identity
       (example_store_txn ''_mdbxc_identity_index'') = (Inr u, t1) \<and>
     identity_get ref_engine (example_store ''_mdbxc_identity_index'') ''a'' [98, 99] t1 = (Inr None, t2)"
proof -
  let ?st = "example_store ''_mdbxc_identity_index''" and ?t = "example_store_txn ''_mdbxc_identity_index''"
  have res: "is_reserved_dbi_name ''_mdbxc_identity_index''" by (simp add: is_reserved_dbi_name_def)
  note h = example_store_hyps [where n = "''_mdbxc_identity_index''"]
  obtain r1 t1 where 1: "identity_put ref_engine ?st ''ab'' [99] example_identity ?t = (r1, t1)"
    by (rule prod.exhaust)
  obtain u where u: "r1 = Inr u"
    using ref.run_identity_put [OF h(1) h(2) [OF res] h(3), of "''ab''" "[99]" example_identity] 1 by (cases r1) auto
  have ok1: "ref_ok t1" "bound ?st (ref_view t1)" "identity_ok (content (ref_view t1) ''_mdbxc_identity_index'')"
    using ref.run_identity_put [OF h(1) h(2) [OF res] h(3), of "''ab''" "[99]" example_identity] 1 u h(4,5)
      identity_ok_update [of Map.empty example_identity]
    by (auto simp: identity_ok_def identity_fits_def example_identity_def is_node_id_def)
  obtain r2 t2 where 2: "identity_get ref_engine ?st ''a'' [98, 99] t1 = (r2, t2)" by (rule prod.exhaust)
  obtain x where x: "r2 = Inr x"
    using ref.run_identity_get [OF ok1(1,2), of "''a''" "[98, 99]"] ok1(3) h(5) 2 by (cases r2) auto
  have "x = None"
    using identity_put_then_get [OF ref.mdbx_engine_axioms h(1) h(2) [OF res] h(3) _ _ _ _ 1 [unfolded u] 2 [unfolded x]]
      h(4,5) by (simp add: identity_ok_def identity_fits_def example_identity_def is_node_id_def identity_record_def)
  with 1 2 u x show ?thesis by blast
qed

text \<open>
  C12. The stored receiver mode has exactly one encoding: a value decodes to a state precisely when that state
  is well formed (scopes sorted, distinct and within the limits, none in full-global mode) and encodes
  to that value, byte for byte.
\<close>

theorem receiver_format_canonical:
  "receiver_decode bs = Inr st \<longleftrightarrow> receiver_ok st \<and> receiver_encode st = Inr bs"
proof
  assume "receiver_decode bs = Inr st"
  then show "receiver_ok st \<and> receiver_encode st = Inr bs"
    using receiver_decode_canonical [of bs st] receiver_encode_ok [of st] by auto
next
  assume "receiver_ok st \<and> receiver_encode st = Inr bs"
  then show "receiver_decode bs = Inr st"
    using receiver_decode_bytes [of st] receiver_encode_ok [of st] by auto
qed

text \<open>
  C11. The two receiver modes exclude each other: whichever of a full-global and a selective claim on a
  database succeeds first, the other one is refused from then on, and a refused claim leaves the
  stored modes of every database as they are.
\<close>

theorem receiver_modes_exclusive:
  assumes "mdbx_engine M ok view cursor_dbi cursor_at fails"
    and "ok t" "bound st (view t)" "a_writable (view t)" "modes_ok (content (view t) (m_dbi_name st))"
    and "\<not> is_zero_sync_id db" "scope_ok scope"
    and "receiver_mode_of (content (view t) (m_dbi_name st)) db = None"
    and "claim_full_global M st db t = (Inr b1, t1)" "claim_selective M st db scope t1 = (Inr b2, t2)"
    and "claim_selective M st db scope t = (Inr b3, t3)" "claim_full_global M st db t3 = (Inr b4, t4)"
  shows "b1 \<and> \<not> b2 \<and> b3 \<and> \<not> b4 \<and>
    receiver_mode_of (content (view t2) (m_dbi_name st)) = receiver_mode_of (content (view t1) (m_dbi_name st)) \<and>
    receiver_mode_of (content (view t4) (m_dbi_name st)) = receiver_mode_of (content (view t3) (m_dbi_name st))"
proof -
  note F = mdbx_engine.run_claim_full [OF assms(1)] and S = mdbx_engine.run_claim_selective [OF assms(1)]
  have 1: "ok t1" "bound st (view t1)" "a_writable (view t1)" "modes_ok (content (view t1) (m_dbi_name st))"
    "b1" "receiver_mode_of (content (view t1) (m_dbi_name st)) db = Some \<lparr>rs_mode = FullGlobal, scope_ids = []\<rparr>"
    using F [OF assms(2-6)] assms(4,8,9) by (auto simp: claim_full_spec_def ext_writable)
  have 3: "ok t3" "bound st (view t3)" "a_writable (view t3)" "modes_ok (content (view t3) (m_dbi_name st))"
    "b3" "receiver_mode_of (content (view t3) (m_dbi_name st)) db = Some \<lparr>rs_mode = Selective, scope_ids = [scope]\<rparr>"
    using S [OF assms(2-8)] assms(4,11) by (auto simp: claim_selective_spec_def ext_writable)
  have "\<not> b2 \<and> receiver_mode_of (content (view t2) (m_dbi_name st)) = receiver_mode_of (content (view t1) (m_dbi_name st))"
    using S [OF 1(1-4) assms(6,7) 1(6)] assms(10) 1(6)
    by (auto simp: claim_selective_spec_def fun_eq_iff)
  moreover have "\<not> b4 \<and> receiver_mode_of (content (view t4) (m_dbi_name st)) = receiver_mode_of (content (view t3) (m_dbi_name st))"
    using F [OF 3(1-4) assms(6)] assms(12) 3(6)
    by (auto simp: claim_full_spec_def fun_eq_iff)
  ultimately show ?thesis using 1(5) 3(5) by simp
qed

theorem receiver_modes_exclusive_witness:
  "\<exists>t1 t2 t3 t4.
     claim_full_global ref_engine (example_store ''_mdbxc_mode'') (replicate 16 5) (example_store_txn ''_mdbxc_mode'') = (Inr True, t1) \<and>
     claim_selective ref_engine (example_store ''_mdbxc_mode'') (replicate 16 5) ''scope'' t1 = (Inr False, t2) \<and>
     claim_selective ref_engine (example_store ''_mdbxc_mode'') (replicate 16 5) ''scope'' (example_store_txn ''_mdbxc_mode'') = (Inr True, t3) \<and>
     claim_full_global ref_engine (example_store ''_mdbxc_mode'') (replicate 16 5) t3 = (Inr False, t4)"
proof -
  let ?st = "example_store ''_mdbxc_mode''" and ?t = "example_store_txn ''_mdbxc_mode''" and ?db = "replicate 16 5 :: bytes"
  have res: "is_reserved_dbi_name ''_mdbxc_mode''" by (simp add: is_reserved_dbi_name_def)
  have db: "\<not> is_zero_sync_id ?db" by code_simp
  have scope: "scope_ok ''scope''" by (simp add: scope_ok_def)
  note h = example_store_hyps [where n = "''_mdbxc_mode''"]
  note t = h(1) h(2) [OF res] h(3)
  have modes: "modes_ok (content (ref_view ?t) (m_dbi_name ?st))"
    and none: "receiver_mode_of (content (ref_view ?t) (m_dbi_name ?st)) ?db = None"
    using h(4) by (simp_all add: modes_ok_def receiver_mode_of_def)
  obtain r1 t1 where 1: "claim_full_global ref_engine ?st ?db ?t = (r1, t1)" by (rule prod.exhaust)
  obtain b1 where b1: "r1 = Inr b1" using ref.run_claim_full [OF t modes db] 1 by (cases r1) auto
  have e1: "ext (ref_view ?t) (ref_view t1)" using ref.run_claim_full [OF t modes db] 1 b1 by simp
  have t1: "ref_ok t1" "bound ?st (ref_view t1)" "a_writable (ref_view t1)" "modes_ok (content (ref_view t1) (m_dbi_name ?st))"
    "receiver_mode_of (content (ref_view t1) (m_dbi_name ?st)) ?db = Some \<lparr>rs_mode = FullGlobal, scope_ids = []\<rparr>"
    using ref.run_claim_full [OF t modes db] 1 b1 none ext_writable [OF e1] t(3)
    by (auto simp: claim_full_spec_def)
  obtain r2 t2 where 2: "claim_selective ref_engine ?st ?db ''scope'' t1 = (r2, t2)" by (rule prod.exhaust)
  obtain b2 where b2: "r2 = Inr b2"
    using ref.run_claim_selective [OF t1(1-4) db scope t1(5)] 2 by (cases r2) auto
  obtain r3 t3 where 3: "claim_selective ref_engine ?st ?db ''scope'' ?t = (r3, t3)" by (rule prod.exhaust)
  obtain b3 where b3: "r3 = Inr b3"
    using ref.run_claim_selective [OF t modes db scope none] 3 by (cases r3) auto
  have e3: "ext (ref_view ?t) (ref_view t3)"
    using ref.run_claim_selective [OF t modes db scope none] 3 b3 by simp
  have t3: "ref_ok t3" "bound ?st (ref_view t3)" "a_writable (ref_view t3)" "modes_ok (content (ref_view t3) (m_dbi_name ?st))"
    using ref.run_claim_selective [OF t modes db scope none] 3 b3 ext_writable [OF e3] t(3) by auto
  obtain r4 t4 where 4: "claim_full_global ref_engine ?st ?db t3 = (r4, t4)" by (rule prod.exhaust)
  obtain b4 where b4: "r4 = Inr b4" using ref.run_claim_full [OF t3 db] 4 by (cases r4) auto
  show ?thesis
    using receiver_modes_exclusive [OF ref.mdbx_engine_axioms t modes db scope none
        1 [unfolded b1] 2 [unfolded b2] 3 [unfolded b3] 4 [unfolded b4]] 1 2 3 4 b1 b2 b3 b4 by simp
qed

end
