(* ===== verification/Sync_Protocol.thy ===== *)
theory Sync_Protocol
  imports Full_Snapshot
begin

text \<open>
  \<^verbatim>\<open>include/mdbx_containers/sync/protocol.hpp\<close>: the requests and responses that peers exchange. The
  \<open>CancellationToken\<close> members are call control of the local process and are not part of the model.
\<close>

datatype sync_response_error_code =
    NoSyncError | DbIdMismatch | UnsupportedFullSnapshot | ApplyConflict | SnapshotRequired
  | BatchTooLarge | SnapshotNotConfigured | SnapshotSessionInvalid | SnapshotSessionBusy
  | SnapshotLogicalStateUnsupported

definition error_code_value :: "sync_response_error_code \<Rightarrow> u16" where
  "error_code_value c = (case c of NoSyncError \<Rightarrow> 0 | DbIdMismatch \<Rightarrow> 1 | UnsupportedFullSnapshot \<Rightarrow> 2
     | ApplyConflict \<Rightarrow> 3 | SnapshotRequired \<Rightarrow> 4 | BatchTooLarge \<Rightarrow> 5 | SnapshotNotConfigured \<Rightarrow> 6
     | SnapshotSessionInvalid \<Rightarrow> 7 | SnapshotSessionBusy \<Rightarrow> 8 | SnapshotLogicalStateUnsupported \<Rightarrow> 9)"

definition sync_response_error_code_name :: "sync_response_error_code \<Rightarrow> string" where
  "sync_response_error_code_name c = (case c of
       NoSyncError \<Rightarrow> ''none''
     | DbIdMismatch \<Rightarrow> ''db_id_mismatch''
     | UnsupportedFullSnapshot \<Rightarrow> ''unsupported_full_snapshot''
     | ApplyConflict \<Rightarrow> ''apply_conflict''
     | SnapshotRequired \<Rightarrow> ''snapshot_required''
     | BatchTooLarge \<Rightarrow> ''batch_too_large''
     | SnapshotNotConfigured \<Rightarrow> ''snapshot_not_configured''
     | SnapshotSessionInvalid \<Rightarrow> ''snapshot_session_invalid''
     | SnapshotSessionBusy \<Rightarrow> ''snapshot_session_busy''
     | SnapshotLogicalStateUnsupported \<Rightarrow> ''snapshot_logical_state_unsupported'')"

record pull_request =
  requester :: node_id
  pull_db_id :: db_id
  have_cursor :: sync_cursor
  max_batches :: u64
  max_bytes :: u64
  request_full_snapshot :: bool
  full_snapshot_id :: string
  full_snapshot_continuation :: string
  max_single_batch_bytes :: u64

record pull_response =
  remote_have :: sync_cursor
  remote_tail :: sync_cursor
  remote_tail_known :: bool
  pull_batches :: "change_batch list"
  has_more :: bool
  is_full_snapshot :: bool
  snapshot_chunk :: full_snapshot_chunk
  pull_ok :: bool
  pull_error :: string
  pull_error_code :: sync_response_error_code
  pull_error_retryable :: bool

definition new_pull_response :: pull_response where
  "new_pull_response = \<lparr>remote_have = [], remote_tail = [], remote_tail_known = False, pull_batches = [],
     has_more = False, is_full_snapshot = False, snapshot_chunk = default_chunk, pull_ok = True,
     pull_error = [], pull_error_code = NoSyncError, pull_error_retryable = False\<rparr>"

record push_request =
  sender :: node_id
  push_db_id :: db_id
  push_batches :: "change_batch list"

record push_response =
  receiver_have :: sync_cursor
  push_ok :: bool
  push_error :: string
  push_error_code :: sync_response_error_code
  push_error_retryable :: bool

definition new_push_response :: push_response where
  "new_push_response = \<lparr>receiver_have = [], push_ok = True, push_error = [], push_error_code = NoSyncError,
     push_error_retryable = False\<rparr>"

end
