(* ===== verification/Transport_Codec.thy ===== *)
theory Transport_Codec
  imports Sync_Protocol
begin

text \<open>
  \<^verbatim>\<open>include/mdbx_containers/sync/transport/TransportMessageCodec.hpp\<close>: the envelope and the payload of
  the four sync messages.
\<close>

datatype transport_message_type = PullRequestMsg | PullResponseMsg | PushRequestMsg | PushResponseMsg

definition message_type_code :: "transport_message_type \<Rightarrow> u8" where
  "message_type_code t = (case t of PullRequestMsg \<Rightarrow> 1 | PullResponseMsg \<Rightarrow> 2 | PushRequestMsg \<Rightarrow> 3
     | PushResponseMsg \<Rightarrow> 4)"

definition tm_magic :: bytes where
  "tm_magic = bytes_of_string ''MDBXCPRT''"

definition tm_codec_version :: u16 where "tm_codec_version = 5"

section \<open>Encoding\<close>

definition make_header :: "transport_message_type \<Rightarrow> bytes" where
  "make_header t = tm_magic @ write_u16_le tm_codec_version @ [message_type_code t] @ write_u32_le 0"

definition append_bool :: "bool \<Rightarrow> exn + bytes" where
  "append_bool v = Inr [if v then 1 else 0]"

definition append_response_error_code :: "sync_response_error_code \<Rightarrow> exn + bytes" where
  "append_response_error_code c = Inr (write_u16_le (error_code_value c))"

definition append_u32_size :: "nat \<Rightarrow> string \<Rightarrow> exn + bytes" where
  "append_u32_size n label =
    (if int n > 0xFFFFFFFF then Inl (LengthError label) else Inr (write_u32_le (u32_of_size n)))"

definition append_cursor :: "sync_cursor \<Rightarrow> codec_bounds \<Rightarrow> exn + bytes" where
  "append_cursor cur b = joinE [
     guardE (exceeds (length cur) (max_cursor_origins b)) (LengthError ''cursor origins exceed max_cursor_origins''),
     append_u32_size (length cur) ''cursor origins exceed u32'',
     Inr (cursor_bytes cur)]"

definition append_string :: "string \<Rightarrow> codec_bounds \<Rightarrow> exn + bytes" where
  "append_string s b = joinE [
     guardE (exceeds (length s) (max_error_len b)) (LengthError ''error string exceeds max_error_len''),
     append_u32_size (length s) ''string length exceeds u32'',
     Inr (bytes_of_string s)]"

definition append_snapshot_token :: "string \<Rightarrow> codec_bounds \<Rightarrow> exn + bytes" where
  "append_snapshot_token s b = joinE [
     guardE (exceeds (length s) (max_snapshot_id_len b)) (LengthError ''snapshot token exceeds max_snapshot_id_len''),
     append_u32_size (length s) ''snapshot token length exceeds u32'',
     Inr (bytes_of_string s)]"

definition append_snapshot_chunk :: "full_snapshot_chunk \<Rightarrow> codec_bounds \<Rightarrow> exn + bytes" where
  "append_snapshot_chunk chunk b =
    (case snapshot_encode chunk (Some b) of Inl e \<Rightarrow> Inl e | Inr encoded \<Rightarrow>
     joinE [append_u32_size (length encoded) ''full snapshot chunk length exceeds u32'', Inr encoded])"

definition append_batch :: "codec_bounds \<Rightarrow> change_batch \<Rightarrow> exn + bytes" where
  "append_batch b batch =
    (case encode_batch batch (Some b) of Inl e \<Rightarrow> Inl e | Inr encoded \<Rightarrow> joinE [
       guardE (exceeds (length encoded) (max_batch_total_bytes b))
         (LengthError ''batch bytes exceed max_batch_total_bytes''),
       append_u32_size (length encoded) ''batch bytes length exceeds u32'',
       Inr encoded])"

definition append_batches :: "change_batch list \<Rightarrow> codec_bounds \<Rightarrow> exn + bytes" where
  "append_batches batches b = joinE [
     guardE (exceeds (length batches) (max_batches_per_message b))
       (LengthError ''batches exceed max_batches_per_message''),
     append_u32_size (length batches) ''batches count exceeds u32'',
     joinE (map (append_batch b) batches)]"

definition validate_message_size :: "codec_bounds \<Rightarrow> bytes \<Rightarrow> exn + unit" where
  "validate_message_size b out = refuse (exceeds (length out) (max_transport_message_bytes b))
     (LengthError ''transport message exceeds max_transport_message_bytes'')"

definition validate_pull_request_snapshot :: "codec_bounds \<Rightarrow> pull_request \<Rightarrow> exn + unit" where
  "validate_pull_request_snapshot b request = seqE [
     refuse (exceeds (length (full_snapshot_id request)) (max_snapshot_id_len b) \<or>
             exceeds (length (full_snapshot_continuation request)) (max_snapshot_id_len b))
       (LengthError ''snapshot token exceeds max_snapshot_id_len''),
     refuse (\<not> request_full_snapshot request \<and>
             (full_snapshot_id request \<noteq> [] \<or> full_snapshot_continuation request \<noteq> []))
       (InvalidArgument ''incremental pull contains full snapshot session state''),
     refuse (request_full_snapshot request \<and>
             (full_snapshot_id request = []) \<noteq> (full_snapshot_continuation request = []))
       (InvalidArgument ''full snapshot session id and continuation must both be empty or set'')]"

definition validate_pull_response_snapshot :: "codec_bounds \<Rightarrow> pull_response \<Rightarrow> exn + unit" where
  "validate_pull_response_snapshot b response =
    (if \<not> is_full_snapshot response then Inr () else seqE [
       refuse (pull_batches response \<noteq> [])
         (InvalidArgument ''full snapshot response also contains incremental batches''),
       refuse (\<not> pull_ok response) (InvalidArgument ''failed pull response contains a full snapshot chunk''),
       validate_chunk (snapshot_chunk response) (Some b),
       refuse (has_more response \<noteq> chunk_has_more (snapshot_chunk response))
         (InvalidArgument ''pull and full snapshot continuation flags differ'')])"

definition encode_pull_request :: "pull_request \<Rightarrow> codec_bounds option \<Rightarrow> exn + bytes" where
  "encode_pull_request request bounds = (let b = effective_bounds bounds in
     finishE (joinE [
       Inr (make_header PullRequestMsg),
       Inr (requester request),
       Inr (pull_db_id request),
       append_cursor (have_cursor request) b,
       Inr (write_u64_le (max_batches request)),
       Inr (write_u64_le (max_bytes request)),
       append_bool (request_full_snapshot request),
       callE (validate_pull_request_snapshot b request),
       append_snapshot_token (full_snapshot_id request) b,
       append_snapshot_token (full_snapshot_continuation request) b,
       Inr (write_u64_le (max_single_batch_bytes request))])
     (validate_message_size b))"

definition encode_pull_response :: "pull_response \<Rightarrow> codec_bounds option \<Rightarrow> exn + bytes" where
  "encode_pull_response response bounds = (let b = effective_bounds bounds in
     finishE (joinE [
       Inr (make_header PullResponseMsg),
       append_cursor (remote_have response) b,
       append_cursor (remote_tail response) b,
       append_bool (remote_tail_known response),
       append_batches (pull_batches response) b,
       append_bool (has_more response),
       callE (validate_pull_response_snapshot b response),
       append_bool (is_full_snapshot response),
       (if is_full_snapshot response then append_snapshot_chunk (snapshot_chunk response) b else Inr []),
       append_bool (pull_ok response),
       append_string (pull_error response) b,
       append_response_error_code (pull_error_code response),
       append_bool (pull_error_retryable response)])
     (validate_message_size b))"

definition encode_push_request :: "push_request \<Rightarrow> codec_bounds option \<Rightarrow> exn + bytes" where
  "encode_push_request request bounds = (let b = effective_bounds bounds in
     finishE (joinE [
       Inr (make_header PushRequestMsg),
       Inr (sender request),
       Inr (push_db_id request),
       append_batches (push_batches request) b])
     (validate_message_size b))"

definition encode_push_response :: "push_response \<Rightarrow> codec_bounds option \<Rightarrow> exn + bytes" where
  "encode_push_response response bounds = (let b = effective_bounds bounds in
     finishE (joinE [
       Inr (make_header PushResponseMsg),
       append_cursor (receiver_have response) b,
       append_bool (push_ok response),
       append_string (push_error response) b,
       append_response_error_code (push_error_code response),
       append_bool (push_error_retryable response)])
     (validate_message_size b))"

section \<open>Decoding\<close>

definition tm_short :: exn where
  "tm_short = RuntimeError ''Transport codec buffer underrun''"

definition read_bytes :: "nat \<Rightarrow> (cursor, bytes) io" where
  "read_bytes n = fetch tm_short n"

definition tm_read_u8 :: "(cursor, u8) io" where
  "tm_read_u8 = fetch_u8 tm_short"

definition tm_read_u16_le :: "(cursor, u16) io" where
  "tm_read_u16_le = fetch_u16 tm_short"

definition tm_read_u32_le :: "(cursor, u32) io" where
  "tm_read_u32_le = fetch_u32 tm_short"

definition tm_read_u64_le :: "(cursor, u64) io" where
  "tm_read_u64_le = fetch_u64 tm_short"

definition read_header_type :: "(cursor, transport_message_type) io" where
  "read_header_type =
     bindM (read_bytes 8) (\<lambda>m.
     if m \<noteq> tm_magic then throw (RuntimeError ''Transport codec magic mismatch'') else
     bindM tm_read_u16_le (\<lambda>v.
     if v \<noteq> tm_codec_version then throw (RuntimeError ''Unsupported transport codec_version'') else
     bindM tm_read_u8 (\<lambda>ty.
     bindM tm_read_u32_le (\<lambda>flags.
     if flags \<noteq> 0 then throw (RuntimeError ''Unknown mandatory transport message flags'')
     else if ty = message_type_code PullRequestMsg then ret PullRequestMsg
     else if ty = message_type_code PullResponseMsg then ret PullResponseMsg
     else if ty = message_type_code PushRequestMsg then ret PushRequestMsg
     else if ty = message_type_code PushResponseMsg then ret PushResponseMsg
     else throw (RuntimeError ''Unexpected transport message type'')))))"

definition check_header :: "transport_message_type \<Rightarrow> (cursor, unit) io" where
  "check_header expected = bindM read_header_type (\<lambda>t.
     if t \<noteq> expected then throw (RuntimeError ''Unexpected transport message type'') else ret ())"

definition read_bool :: "(cursor, bool) io" where
  "read_bool = bindM tm_read_u8 (\<lambda>v.
     if v > 1 then throw (RuntimeError ''Invalid transport bool value'') else ret (v \<noteq> 0))"

definition read_response_error_code :: "(cursor, sync_response_error_code) io" where
  "read_response_error_code = bindM tm_read_u16_le (\<lambda>v.
     if v = 0 then ret NoSyncError
     else if v = 1 then ret DbIdMismatch
     else if v = 2 then ret UnsupportedFullSnapshot
     else if v = 3 then ret ApplyConflict
     else if v = 4 then ret SnapshotRequired
     else if v = 5 then ret BatchTooLarge
     else if v = 6 then ret SnapshotNotConfigured
     else if v = 7 then ret SnapshotSessionInvalid
     else if v = 8 then ret SnapshotSessionBusy
     else if v = 9 then ret SnapshotLogicalStateUnsupported
     else throw (RuntimeError ''Invalid SyncResponseErrorCode''))"

definition read_cursor :: "codec_bounds \<Rightarrow> (cursor, sync_cursor) io" where
  "read_cursor b = bindM tm_read_u32_le (\<lambda>count.
     if count > max_cursor_origins b
     then throw (LengthError ''cursor origins exceed max_cursor_origins'')
     else read_cursor_entries tm_short (RuntimeError ''Duplicate origin in transport cursor'')
            (unat count) [])"

definition read_string :: "codec_bounds \<Rightarrow> (cursor, string) io" where
  "read_string b = bindM tm_read_u32_le (\<lambda>n.
     if n > max_error_len b then throw (LengthError ''error string exceeds max_error_len'')
     else if n = 0 then ret []
     else bindM (read_bytes (unat n)) (\<lambda>bs. ret (string_of_bytes bs)))"

definition read_snapshot_token :: "codec_bounds \<Rightarrow> (cursor, string) io" where
  "read_snapshot_token b = bindM tm_read_u32_le (\<lambda>n.
     if n > max_snapshot_id_len b then throw (LengthError ''snapshot token exceeds max_snapshot_id_len'')
     else if n = 0 then ret []
     else bindM (read_bytes (unat n)) (\<lambda>bs. ret (string_of_bytes bs)))"

definition read_snapshot_chunk :: "codec_bounds \<Rightarrow> (cursor, full_snapshot_chunk) io" where
  "read_snapshot_chunk b = bindM tm_read_u32_le (\<lambda>n.
     if n > max_snapshot_chunk_bytes b
     then throw (LengthError ''full snapshot chunk exceeds max_snapshot_chunk_bytes'')
     else bindM (read_bytes (unat n)) (\<lambda>encoded. liftE (snapshot_decode encoded (Some b))))"

definition read_batch :: "codec_bounds \<Rightarrow> (cursor, change_batch) io" where
  "read_batch b = bindM tm_read_u32_le (\<lambda>n.
     if n > max_batch_total_bytes b then throw (LengthError ''batch bytes exceed max_batch_total_bytes'')
     else bindM (read_bytes (unat n)) (\<lambda>encoded. liftE (decode_exact encoded (Some b))))"

definition read_batches :: "codec_bounds \<Rightarrow> (cursor, change_batch list) io" where
  "read_batches b = bindM tm_read_u32_le (\<lambda>count.
     if count > max_batches_per_message b
     then throw (LengthError ''batches exceed max_batches_per_message'')
     else repeatM (unat count) (read_batch b))"

text \<open>\<open>make_cursor\<close> with its size check, around the reader of a message.\<close>

definition read_message :: "codec_bounds \<Rightarrow> bytes \<Rightarrow> (cursor, 'a) io \<Rightarrow> exn + 'a" where
  "read_message b data p =
    (if exceeds (length data) (max_transport_message_bytes b)
     then Inl (LengthError ''transport message exceeds max_transport_message_bytes'')
     else decode_with p data)"

definition check_consumed :: "(cursor, unit) io" where
  "check_consumed = bindM at_end (\<lambda>fin.
     if \<not> fin then throw (RuntimeError ''Trailing bytes after transport message'') else ret ())"

definition peek_message_type :: "bytes \<Rightarrow> codec_bounds option \<Rightarrow> exn + transport_message_type" where
  "peek_message_type data bounds = read_message (effective_bounds bounds) data read_header_type"

definition decode_pull_request :: "bytes \<Rightarrow> codec_bounds option \<Rightarrow> exn + pull_request" where
  "decode_pull_request data bounds = (let b = effective_bounds bounds in read_message b data (
     bindM (check_header PullRequestMsg) (\<lambda>_.
     bindM (read_bytes 16) (\<lambda>node.
     bindM (read_bytes 16) (\<lambda>db.
     bindM (read_cursor b) (\<lambda>hv.
     bindM tm_read_u64_le (\<lambda>mb.
     bindM tm_read_u64_le (\<lambda>my.
     bindM read_bool (\<lambda>fs.
     bindM (read_snapshot_token b) (\<lambda>sid.
     bindM (read_snapshot_token b) (\<lambda>cont.
     bindM tm_read_u64_le (\<lambda>ms.
     let request = \<lparr>requester = node, pull_db_id = db, have_cursor = hv, max_batches = mb, max_bytes = my,
           request_full_snapshot = fs, full_snapshot_id = sid, full_snapshot_continuation = cont,
           max_single_batch_bytes = ms\<rparr> in
     bindM (liftE (validate_pull_request_snapshot b request)) (\<lambda>_.
     bindM check_consumed (\<lambda>_. ret request))))))))))))))"

definition decode_pull_response :: "bytes \<Rightarrow> codec_bounds option \<Rightarrow> exn + pull_response" where
  "decode_pull_response data bounds = (let b = effective_bounds bounds in read_message b data (
     bindM (check_header PullResponseMsg) (\<lambda>_.
     bindM (read_cursor b) (\<lambda>hv.
     bindM (read_cursor b) (\<lambda>tl.
     bindM read_bool (\<lambda>known.
     bindM (read_batches b) (\<lambda>batches.
     bindM read_bool (\<lambda>more.
     bindM read_bool (\<lambda>full.
     bindM (if full then read_snapshot_chunk b else ret default_chunk) (\<lambda>chunk.
     bindM read_bool (\<lambda>okay.
     bindM (read_string b) (\<lambda>err.
     bindM read_response_error_code (\<lambda>code.
     bindM read_bool (\<lambda>retry.
     bindM check_consumed (\<lambda>_.
     let response = \<lparr>remote_have = hv, remote_tail = tl, remote_tail_known = known, pull_batches = batches,
           has_more = more, is_full_snapshot = full, snapshot_chunk = chunk, pull_ok = okay, pull_error = err,
           pull_error_code = code, pull_error_retryable = retry\<rparr> in
     bindM (liftE (validate_pull_response_snapshot b response)) (\<lambda>_. ret response))))))))))))))))"

definition decode_push_request :: "bytes \<Rightarrow> codec_bounds option \<Rightarrow> exn + push_request" where
  "decode_push_request data bounds = (let b = effective_bounds bounds in read_message b data (
     bindM (check_header PushRequestMsg) (\<lambda>_.
     bindM (read_bytes 16) (\<lambda>node.
     bindM (read_bytes 16) (\<lambda>db.
     bindM (read_batches b) (\<lambda>batches.
     bindM check_consumed (\<lambda>_.
     ret \<lparr>sender = node, push_db_id = db, push_batches = batches\<rparr>)))))))"

definition decode_push_response :: "bytes \<Rightarrow> codec_bounds option \<Rightarrow> exn + push_response" where
  "decode_push_response data bounds = (let b = effective_bounds bounds in read_message b data (
     bindM (check_header PushResponseMsg) (\<lambda>_.
     bindM (read_cursor b) (\<lambda>hv.
     bindM read_bool (\<lambda>okay.
     bindM (read_string b) (\<lambda>err.
     bindM read_response_error_code (\<lambda>code.
     bindM read_bool (\<lambda>retry.
     bindM check_consumed (\<lambda>_.
     ret \<lparr>receiver_have = hv, push_ok = okay, push_error = err, push_error_code = code,
          push_error_retryable = retry\<rparr>)))))))))"

section \<open>Round trips\<close>

lemmas tm_reads = read_bytes_def tm_read_u8_def tm_read_u16_le_def tm_read_u32_le_def tm_read_u64_le_def














lemma reads_header_type: "reads read_header_type (make_header t) t"
proof -
  have code: "reads (if message_type_code t = message_type_code PullRequestMsg then ret PullRequestMsg
     else if message_type_code t = message_type_code PullResponseMsg then ret PullResponseMsg
     else if message_type_code t = message_type_code PushRequestMsg then ret PushRequestMsg
     else if message_type_code t = message_type_code PushResponseMsg then ret PushResponseMsg
     else throw (RuntimeError ''Unexpected transport message type'')) [] t"
    by (cases t) (simp_all add: message_type_code_def reads_ret)
  show ?thesis
    unfolding read_header_type_def make_header_def tm_reads
    by (rule reads_bindM [OF reads_fetch] reads_bindM [OF reads_fetch_u16] reads_bindM [OF reads_fetch_u8]
        reads_bindM_last [OF reads_fetch_u32] code | simp add: tm_magic_def; fail | rule reads_if_False)+
qed














lemma peek_header:
  assumes "reads read_header_type header t" and "finishE (joinE (Inr header # ws)) (validate_message_size b) = Inr bs"
  shows "read_message b bs read_header_type = Inr t"
    and "t \<noteq> t' \<Longrightarrow> read_message b bs (bindM (check_header t') k) =
      Inl (RuntimeError ''Unexpected transport message type'')"
proof -
  obtain cs where bs: "bs = header @ cs" "\<not> exceeds (length bs) (max_transport_message_bytes b)"
    using assms(2) by (auto simp: finishE_Inr joinE_Cons_Inr validate_message_size_def)
  have r: "read_header_type \<lparr>cur_data = bs, cur_pos = 0\<rparr> =
      (Inr t, \<lparr>cur_data = bs, cur_pos = length header\<rparr>)"
    using reads_start [OF assms(1), of cs] bs(1) by simp
  show "read_message b bs read_header_type = Inr t"
    using bs(2) r by (simp add: read_message_def decode_with_def)
  show "t \<noteq> t' \<Longrightarrow> read_message b bs (bindM (check_header t') k) =
      Inl (RuntimeError ''Unexpected transport message type'')"
    using bs(2) r by (simp add: read_message_def decode_with_def check_header_def bindM_def run_simps)
qed

section \<open>The messages are transported faithfully\<close>



text \<open>
  C23. The four messages cannot be taken for each other: the type read from the envelope of an encoded
  message is the type it was encoded with, and each decoder refuses the messages of another type.
\<close>

theorem message_types_kept_apart:
  assumes "encode_pull_request q bounds = Inr a" and "encode_pull_response r bounds = Inr b"
    and "encode_push_request q' bounds = Inr c" and "encode_push_response r' bounds = Inr d"
  defines "mismatch \<equiv> RuntimeError ''Unexpected transport message type''"
  shows "peek_message_type a bounds = Inr PullRequestMsg \<and> peek_message_type b bounds = Inr PullResponseMsg \<and>
    peek_message_type c bounds = Inr PushRequestMsg \<and> peek_message_type d bounds = Inr PushResponseMsg \<and>
    (\<forall>bs \<in> {b, c, d}. decode_pull_request bs bounds = Inl mismatch) \<and>
    (\<forall>bs \<in> {a, c, d}. decode_pull_response bs bounds = Inl mismatch) \<and>
    (\<forall>bs \<in> {a, b, d}. decode_push_request bs bounds = Inl mismatch) \<and>
    (\<forall>bs \<in> {a, b, c}. decode_push_response bs bounds = Inl mismatch)"
  by (simp add: mismatch_def peek_message_type_def decode_push_request_def decode_pull_request_def
      decode_pull_response_def decode_push_response_def Let_def
      peek_header [OF reads_header_type assms(1) [unfolded encode_pull_request_def Let_def]]
      peek_header [OF reads_header_type assms(2) [unfolded encode_pull_response_def Let_def]]
      peek_header [OF reads_header_type assms(3) [unfolded encode_push_request_def Let_def]]
      peek_header [OF reads_header_type assms(4) [unfolded encode_push_response_def Let_def]])

definition example_message_bounds :: codec_bounds where
  "example_message_bounds = example_chunk_bounds\<lparr>max_transport_message_bytes := 400\<rparr>"

definition example_pull_request :: pull_request where
  "example_pull_request = \<lparr>requester = replicate 16 1, pull_db_id = replicate 16 2,
     have_cursor = [(replicate 16 1, 4), (replicate 16 3, 9)], max_batches = 10, max_bytes = 1000,
     request_full_snapshot = True, full_snapshot_id = ''s1'', full_snapshot_continuation = ''c'',
     max_single_batch_bytes = 500\<rparr>"

definition example_pull_response :: pull_response where
  "example_pull_response = new_pull_response\<lparr>remote_have := [(replicate 16 1, 4)], has_more := True,
     is_full_snapshot := True, snapshot_chunk := example_chunk\<rparr>"

definition example_push_request :: push_request where
  "example_push_request = \<lparr>sender = replicate 16 1, push_db_id = replicate 16 2, push_batches = [example_batch]\<rparr>"

definition example_push_response :: push_response where
  "example_push_response = new_push_response\<lparr>push_ok := False, push_error := ''gap'',
     push_error_code := ApplyConflict, push_error_retryable := True\<rparr>"

lemma example_messages_encode:
  obtains a b c d where
    "encode_pull_request example_pull_request (Some example_message_bounds) = Inr a"
    "encode_pull_response example_pull_response (Some example_message_bounds) = Inr b"
    "encode_push_request example_push_request (Some example_message_bounds) = Inr c"
    "encode_push_response example_push_response (Some example_message_bounds) = Inr d"
proof -
  have "\<not> isl (encode_pull_request example_pull_request (Some example_message_bounds))"
    "\<not> isl (encode_pull_response example_pull_response (Some example_message_bounds))"
    "\<not> isl (encode_push_request example_push_request (Some example_message_bounds))"
    "\<not> isl (encode_push_response example_push_response (Some example_message_bounds))"
    by code_simp+
  then show ?thesis using that by (metis sum.collapse(2))
qed





theorem message_types_kept_apart_witness:
  "\<exists>a d. encode_pull_request example_pull_request (Some example_message_bounds) = Inr a \<and>
     encode_push_response example_push_response (Some example_message_bounds) = Inr d \<and>
     peek_message_type a (Some example_message_bounds) = Inr PullRequestMsg \<and>
     decode_pull_request d (Some example_message_bounds) =
       Inl (RuntimeError ''Unexpected transport message type'')"
proof -
  obtain a b c d where e: "encode_pull_request example_pull_request (Some example_message_bounds) = Inr a"
    "encode_pull_response example_pull_response (Some example_message_bounds) = Inr b"
    "encode_push_request example_push_request (Some example_message_bounds) = Inr c"
    "encode_push_response example_push_response (Some example_message_bounds) = Inr d"
    by (rule example_messages_encode)
  from message_types_kept_apart [OF e] e show ?thesis by blast
qed

end
