(* ===== verification/Sync_Pull.thy ===== *)
theory Sync_Pull
  imports Sync_Protocol Change_Log Applied_Store
begin

text \<open>
  The pull half of \<^verbatim>\<open>include/mdbx_containers/sync/engine/SyncEngine.hpp\<close>: how a responder finds the
  batches of its change log that a requester does not have, and fills one page with them.
\<close>

section \<open>Keys of the log\<close>

definition make_changelog_key :: "node_id \<Rightarrow> u64 \<Rightarrow> bytes" where
  "make_changelog_key origin s = take 16 origin @ write_u64_be s"

definition changelog_key_origin :: "bytes \<Rightarrow> ('t, node_id) io" where
  "changelog_key_origin key =
    (if length key \<noteq> 24 then throw (RuntimeError ''SyncEngine: invalid changelog key size'')
     else ret (take 16 key))"

definition changelog_key_seq :: "bytes \<Rightarrow> ('t, u64) io" where
  "changelog_key_seq key =
    (if length key \<noteq> 24 then throw (RuntimeError ''SyncEngine: invalid changelog key size'')
     else ret (read_u64_be (drop 16 key)))"

definition changelog_key_matches_origin :: "bytes \<Rightarrow> node_id \<Rightarrow> ('t, bool) io" where
  "changelog_key_matches_origin key origin =
     bindM (changelog_key_origin key) (\<lambda>o'. ret (compare_node_id o' origin = 0))"

section \<open>Origins\<close>

record pull_origin =
  po_origin :: node_id
  po_last_seq :: u64
  po_has_last_seq :: bool

definition make_pull_origin :: "node_id \<Rightarrow> u64 option \<Rightarrow> pull_origin" where
  "make_pull_origin origin tail_seq = (case tail_seq of
       None \<Rightarrow> \<lparr>po_origin = origin, po_last_seq = 0, po_has_last_seq = False\<rparr>
     | Some s \<Rightarrow> \<lparr>po_origin = origin, po_last_seq = s, po_has_last_seq = True\<rparr>)"

definition origin_is_at_tail :: "pull_origin \<Rightarrow> pull_request \<Rightarrow> bool" where
  "origin_is_at_tail origin request \<longleftrightarrow> po_has_last_seq origin \<and>
     last_seq_for (have_cursor request) (po_origin origin) \<ge> po_last_seq origin"

text \<open>\<open>std::to_string\<close> of an unsigned number.\<close>

fun decimal :: "nat \<Rightarrow> string" where
  "decimal n = (if n < 10 then [char_of (48 + n)] else decimal (n div 10) @ [char_of (48 + n mod 10)])"

definition to_string :: "u64 \<Rightarrow> string" where
  "to_string n = decimal (unat n)"

definition set_snapshot_required ::
  "pull_response \<Rightarrow> pull_origin \<Rightarrow> u64 \<Rightarrow> bool \<Rightarrow> u64 \<Rightarrow> pull_response" where
  "set_snapshot_required out origin have_seq earliest_known earliest_seq = out\<lparr>
     pull_ok := False, pull_batches := [], has_more := False, pull_error_code := SnapshotRequired,
     pull_error_retryable := False,
     pull_error := ''requested changelog history was pruned for origin'' @
       '' (have_seq='' @ to_string have_seq @
       (if po_has_last_seq origin then '', tail_seq='' @ to_string (po_last_seq origin) else []) @
       (if earliest_known then '', earliest_retained_seq='' @ to_string earliest_seq
        else '', earliest_retained_seq=none'') @ '')''\<rparr>"

definition set_batch_too_large :: "pull_response \<Rightarrow> u64 \<Rightarrow> u64 \<Rightarrow> u64 \<Rightarrow> pull_response" where
  "set_batch_too_large out sq batch_bytes limit = out\<lparr>
     pull_ok := False, pull_batches := [], has_more := False, pull_error_code := BatchTooLarge,
     pull_error_retryable := False,
     pull_error := ''retained changelog batch exceeds max_single_batch_bytes'' @
       '' (seq='' @ to_string sq @ '', batch_bytes='' @ to_string batch_bytes @
       '', max_single_batch_bytes='' @ to_string limit @ '')''\<rparr>"

section \<open>Reading the stores\<close>

definition open_store_ro :: "('t, 'c) mdbx \<Rightarrow> string \<Rightarrow> ('t, nat) io" where
  "open_store_ro M name =
     bindM (api_dbi_open M (c_str name) 0) (\<lambda>(rc, dbi).
     if rc = MDBX_NOTFOUND then ret 0
     else thenM (check_mdbx rc (''SyncEngine: failed to open store '' @ CHR 0x27 # name @ [CHR 0x27]))
            (ret dbi))"

definition open_changelog_ro :: "('t, 'c) mdbx \<Rightarrow> ('t, nat) io" where
  "open_changelog_ro M = open_store_ro M ''_mdbxc_changelog''"

definition open_applied_ro :: "('t, 'c) mdbx \<Rightarrow> ('t, nat) io" where
  "open_applied_ro M = open_store_ro M ''_mdbxc_applied''"

text \<open>One row of the applied store: rows of an unexpected size are passed over.\<close>

definition applied_row :: "bytes \<Rightarrow> bytes \<Rightarrow> sync_cursor \<Rightarrow> sync_cursor" where
  "applied_row k v cur =
    (if length k = 16 \<and> length v = 8 then map_set k (read_u64_le v) cur else cur)"

definition read_applied_cursor :: "('t, 'c) mdbx \<Rightarrow> sync_cursor \<Rightarrow> ('t, sync_cursor) io" where
  "read_applied_cursor M cur =
     bindM (open_applied_ro M) (\<lambda>dbi.
     if dbi = 0 then ret cur else
     bindM (scan_loop M dbi MDBX_FIRST ''applied_cursor: cursor open failed''
              (\<lambda>k v cur. ret (applied_row k v cur)) cur) (\<lambda>(cur, rc).
     if rc \<noteq> MDBX_SUCCESS \<and> rc \<noteq> MDBX_NOTFOUND
     then thenM (check_mdbx rc ''applied_cursor: cursor walk failed'') (ret cur)
     else ret cur))"

definition changelog_earliest_seq :: "('t, 'c) mdbx \<Rightarrow> nat \<Rightarrow> node_id \<Rightarrow> ('t, u64 option) io" where
  "changelog_earliest_seq M dbi origin =
     bindM (api_cursor_open M dbi) (\<lambda>(rc, c).
     thenM (check_mdbx rc ''pull_full: earliest retained cursor open failed'')
     (bindM (api_cursor_get M c (MDBX_SET_RANGE (make_changelog_key origin 0))) (\<lambda>(rc, (k, v), c).
     if rc = MDBX_NOTFOUND then ret None
     else thenM (check_mdbx rc ''pull_full: earliest retained cursor get failed'')
     (bindM (changelog_key_matches_origin k origin) (\<lambda>m.
      if \<not> m then ret None
      else bindM (changelog_key_seq k) (\<lambda>s. ret (Some s)))))))"

text \<open>
  The skip scan over the origins of the log: after the first entry of an origin it seeks the last
  possible key of the origin, and so reaches the next one. \<open>n\<close> bounds the iterations.
\<close>

fun origins_walk ::
  "('t, 'c) mdbx \<Rightarrow> nat \<Rightarrow> mdbx_rc \<times> (bytes \<times> bytes) \<times> 'c \<Rightarrow> pull_origin list \<Rightarrow>
     ('t, pull_origin list \<times> mdbx_rc) io" where
  "origins_walk M 0 r found_origins = throw LoopBound"
| "origins_walk M (Suc n) (rc, (k, v), c) found_origins =
    (if rc \<noteq> MDBX_SUCCESS then ret (found_origins, rc) else
     bindM (changelog_key_origin k) (\<lambda>origin.
     bindM (api_cursor_get M c (MDBX_SET_RANGE (make_changelog_key origin (- 1)))) (\<lambda>(rc', (nk, v'), c').
     if rc' \<noteq> MDBX_SUCCESS then origins_walk M n (rc', (k, v'), c') (found_origins @ [make_pull_origin origin None])
     else bindM (changelog_key_origin nk) (\<lambda>o'.
       if compare_node_id o' origin = 0
       then bindM (api_cursor_get M c' MDBX_NEXT) (\<lambda>r.
              origins_walk M n r (found_origins @ [make_pull_origin origin None]))
       else origins_walk M n (rc', (nk, v'), c') (found_origins @ [make_pull_origin origin None])))))"

definition collect_changelog_origins :: "('t, 'c) mdbx \<Rightarrow> nat \<Rightarrow> ('t, pull_origin list) io" where
  "collect_changelog_origins M dbi =
     bindM (api_entries M dbi) (\<lambda>entries.
     bindM (api_cursor_open M dbi) (\<lambda>(rc, c).
     thenM (check_mdbx rc ''pull_full: origin cursor open failed'')
     (bindM (bindM (api_cursor_get M c MDBX_FIRST) (\<lambda>r. origins_walk M (Suc entries) r [])) (\<lambda>(found_origins, rc).
     if rc \<noteq> MDBX_SUCCESS \<and> rc \<noteq> MDBX_NOTFOUND
     then thenM (check_mdbx rc ''pull_full: origin cursor walk failed'') (ret found_origins)
     else ret found_origins))))"

definition collect_indexed_origins :: "('t, 'c) mdbx \<Rightarrow> nat \<Rightarrow> ('t, pull_origin list) io" where
  "collect_indexed_origins M env =
     bindM (origins_open_existing M (new_origin_store env)) (\<lambda>(found, os).
     if \<not> found then ret []
     else bindM (origin_tails M os) (\<lambda>tails.
       ret (map (\<lambda>(origin, s). make_pull_origin origin (Some s)) tails)))"

definition collect_known_origins :: "('t, 'c) mdbx \<Rightarrow> nat \<Rightarrow> nat \<Rightarrow> ('t, pull_origin list) io" where
  "collect_known_origins M env dbi =
     bindM (collect_indexed_origins M env) (\<lambda>indexed.
     if indexed \<noteq> [] then ret indexed else collect_changelog_origins M dbi)"

text \<open>\<open>copy_known_tail\<close> with its output cursor.\<close>

fun copy_known_tail :: "pull_origin list \<Rightarrow> sync_cursor \<Rightarrow> bool \<times> sync_cursor" where
  "copy_known_tail [] out = (True, out)"
| "copy_known_tail (o' # rest) out =
    (if \<not> po_has_last_seq o' then (False, [])
     else copy_known_tail rest (map_set (po_origin o') (po_last_seq o') out))"

definition merge_sync_cursor_max :: "sync_cursor \<Rightarrow> sync_cursor \<Rightarrow> sync_cursor" where
  "merge_sync_cursor_max target source =
     fold (\<lambda>(o', s) target. if s > last_seq_for target o' then map_set o' s target else target) source target"

section \<open>One page\<close>

definition request_has_retained_start ::
  "('t, 'c) mdbx \<Rightarrow> nat \<Rightarrow> pull_origin \<Rightarrow> pull_request \<Rightarrow> pull_response \<Rightarrow> ('t, bool \<times> pull_response) io" where
  "request_has_retained_start M dbi origin request out =
    (if origin_is_at_tail origin request then ret (True, out) else
     let have_seq = last_seq_for (have_cursor request) (po_origin origin) in
     if have_seq = - 1 then ret (True, out) else
     bindM (changelog_earliest_seq M dbi (po_origin origin)) (\<lambda>earliest.
     case earliest of
       None \<Rightarrow>
         if po_has_last_seq origin \<and> have_seq < po_last_seq origin
         then ret (False, set_snapshot_required out origin have_seq False 0)
         else ret (True, out)
     | Some earliest_seq \<Rightarrow>
         if have_seq + 1 < earliest_seq
         then ret (False, set_snapshot_required out origin have_seq True earliest_seq)
         else ret (True, out)))"

text \<open>
  The loop variables of \<open>pull_origin_batches\<close>: the response, the bytes so far, and whether the
  function has returned true from inside the loop.
\<close>

definition pull_body ::
  "node_id \<Rightarrow> pull_request \<Rightarrow> bytes \<Rightarrow> bytes \<Rightarrow> 'c \<Rightarrow> pull_response \<times> nat \<times> bool \<Rightarrow>
     ('t, (pull_response \<times> nat \<times> bool, 'c) loop) io" where
  "pull_body origin request k v c acc = (case acc of (out, total_bytes, _) \<Rightarrow>
     bindM (changelog_key_matches_origin k origin) (\<lambda>m.
     if \<not> m then ret (Break (out, total_bytes, False) MDBX_SUCCESS)
     else if length (pull_batches out) \<ge> unat (max_batches request) \<or> total_bytes \<ge> unat (max_bytes request)
     then ret (Break (out, total_bytes, True) MDBX_SUCCESS) else
     bindM (changelog_key_seq k) (\<lambda>key_seq.
     if length v > unat (max_single_batch_bytes request)
     then ret (Break (set_batch_too_large out key_seq (word_of_nat (length v))
            (max_single_batch_bytes request), total_bytes, True) MDBX_SUCCESS) else
     bindM (liftE (decode_exact v None)) (\<lambda>batch.
     if compare_node_id (origin_node_id batch) origin \<noteq> 0 \<or> seq batch \<noteq> key_seq
     then throw (RuntimeError ''SyncEngine: changelog key/value mismatch'')
     else ret (Continue (out\<lparr>pull_batches := pull_batches out @ [batch]\<rparr>,
            total_bytes + length v, False) c)))))"

definition pull_origin_batches ::
  "('t, 'c) mdbx \<Rightarrow> nat \<Rightarrow> node_id \<Rightarrow> pull_request \<Rightarrow> pull_response \<Rightarrow> nat \<Rightarrow>
     ('t, bool \<times> pull_response \<times> nat) io" where
  "pull_origin_batches M dbi origin request out total_bytes =
    (let have_seq = last_seq_for (have_cursor request) origin in
     if have_seq = - 1 then ret (False, out, total_bytes) else
     bindM (api_entries M dbi) (\<lambda>entries.
     bindM (api_cursor_open M dbi) (\<lambda>(rc, c).
     thenM (check_mdbx rc ''pull_full: origin batch cursor open failed'')
     (bindM (bindM (api_cursor_get M c (MDBX_SET_RANGE (make_changelog_key origin (have_seq + 1)))) (\<lambda>r.
        cursor_loop M (Suc entries) (pull_body origin request) r (out, total_bytes, False)))
      (\<lambda>((out, total_bytes, stopped), rc).
      if stopped then ret (True, out, total_bytes)
      else if rc \<noteq> MDBX_SUCCESS \<and> rc \<noteq> MDBX_NOTFOUND
      then thenM (check_mdbx rc ''pull_full: origin batch cursor walk failed'') (ret (False, out, total_bytes))
      else ret (False, out, total_bytes))))))"

text \<open>The two loops of \<open>pull_changelog_page\<close>.\<close>

fun check_starts ::
  "('t, 'c) mdbx \<Rightarrow> nat \<Rightarrow> pull_request \<Rightarrow> pull_origin list \<Rightarrow> pull_response \<Rightarrow> ('t, bool \<times> pull_response) io" where
  "check_starts M dbi request [] out = ret (True, out)"
| "check_starts M dbi request (origin # rest) out =
     bindM (request_has_retained_start M dbi origin request out) (\<lambda>(good, out).
     if \<not> good then ret (False, out) else check_starts M dbi request rest out)"

fun pull_origins ::
  "('t, 'c) mdbx \<Rightarrow> nat \<Rightarrow> pull_request \<Rightarrow> pull_origin list \<Rightarrow> pull_response \<Rightarrow> nat \<Rightarrow> ('t, pull_response) io" where
  "pull_origins M dbi request [] out total_bytes = ret (out\<lparr>has_more := False\<rparr>)"
| "pull_origins M dbi request (origin # rest) out total_bytes =
    (if origin_is_at_tail origin request then pull_origins M dbi request rest out total_bytes else
     bindM (pull_origin_batches M dbi (po_origin origin) request out total_bytes)
       (\<lambda>(stopped, out, total_bytes).
       if stopped then (if \<not> pull_ok out then ret out else ret (out\<lparr>has_more := True\<rparr>))
       else pull_origins M dbi request rest out total_bytes))"

definition pull_changelog_page ::
  "('t, 'c) mdbx \<Rightarrow> nat \<Rightarrow> nat \<Rightarrow> pull_request \<Rightarrow> ('t, pull_response) io" where
  "pull_changelog_page M env dbi request =
    (let out = new_pull_response in
     if request_full_snapshot request
     then ret (out\<lparr>pull_ok := False,
            pull_error := ''request_full_snapshot is not handled by pull_changelog_page'',
            pull_error_code := UnsupportedFullSnapshot\<rparr>) else
     thenM (checked_txn_env M env ''SyncEngine::pull_changelog_page'')
     (bindM (read_applied_cursor M (remote_have out)) (\<lambda>rh.
      bindM (collect_known_origins M env dbi) (\<lambda>found_origins.
      case copy_known_tail found_origins (remote_tail out) of (known, rt) \<Rightarrow>
      bindM (check_starts M dbi request found_origins
        (out\<lparr>remote_have := rh, remote_tail := rt, remote_tail_known := known\<rparr>)) (\<lambda>(good, out).
      if \<not> good then ret out else pull_origins M dbi request found_origins out 0)))))"

end
