(* ===== verification/Sync_Node.thy ===== *)
theory Sync_Node
  imports Sync_Apply Sync_Pull
begin

text \<open>
  A node: the handlers of \<^verbatim>\<open>include/mdbx_containers/sync/engine/SyncEngine.hpp\<close> that open their own
  transactions (\<open>handle_pull\<close>, \<open>handle_push\<close>, \<open>applied_cursor\<close>), with the notification of the
  connection's apply observers. The functions of libmdbx that begin and end a transaction are the
  fields of the record \<open>mdbx_txns\<close>, an argument of the handlers like the record of the functions
  that work inside a transaction.
\<close>

text \<open>
  \<open>'e\<close> is the state of the environment. The flag of \<open>mdbx_txn_begin\<close> is whether \<open>MDBX_TXN_RDONLY\<close> is set;
  \<open>env_handle\<close> is the environment of the connection, and \<open>rc_value\<close> the number of an error code.
\<close>

record ('e, 't) mdbx_txns =
  mdbx_txn_begin :: "bool \<Rightarrow> 'e \<Rightarrow> mdbx_rc \<times> 't \<times> 'e"
  mdbx_txn_commit :: "'t \<Rightarrow> 'e \<Rightarrow> mdbx_rc \<times> 'e"
  mdbx_txn_abort :: "'t \<Rightarrow> 'e \<Rightarrow> mdbx_rc \<times> 'e"
  env_handle :: nat
  rc_value :: "mdbx_rc \<Rightarrow> int"

section \<open>Apply observers\<close>

record sync_apply_event =
  generation :: u64
  applied_batches :: nat
  applied_ops :: nat
  affected_dbi_names :: "string list"

record sync_apply_observer_state =
  obs_token :: u64
  in_flight :: nat
  obs_removed :: bool
  has_dbi_name_filter :: bool
  obs_dbi_names :: "string list"

text \<open>
  The members of \<open>Connection\<close> that the handlers change. \<open>delivered\<close> records the calls of
  \<open>on_sync_apply_committed\<close>, in order, by the token of the observer.
\<close>

record 'e node =
  node_env :: 'e
  m_sync_apply_generation :: u64
  m_next_sync_apply_observer_token :: u64
  m_sync_apply_observers :: "sync_apply_observer_state list"
  delivered :: "(u64 \<times> sync_apply_event) list"

definition add_sync_apply_observer_impl :: "bool \<Rightarrow> string list option \<Rightarrow> ('e node, u64) io" where
  "add_sync_apply_observer_impl observer_is_null dbi_names n =
    (if observer_is_null
     then (Inl (InvalidArgument ''Connection::add_sync_apply_observer observer cannot be null''), n)
     else let t = m_next_sync_apply_observer_token n + 1;
            entry = \<lparr>obs_token = t, in_flight = 0, obs_removed = False,
              has_dbi_name_filter = (dbi_names \<noteq> None),
              obs_dbi_names = (case dbi_names of None \<Rightarrow> [] | Some names \<Rightarrow> names)\<rparr> in
       (Inr t, n\<lparr>m_next_sync_apply_observer_token := t,
          m_sync_apply_observers := m_sync_apply_observers n @ [entry]\<rparr>))"

definition add_sync_apply_observer :: "bool \<Rightarrow> ('e node, u64) io" where
  "add_sync_apply_observer observer_is_null = add_sync_apply_observer_impl observer_is_null None"

definition add_sync_apply_observer_for_dbis :: "bool \<Rightarrow> string list \<Rightarrow> ('e node, u64) io" where
  "add_sync_apply_observer_for_dbis observer_is_null dbi_names =
    (if dbi_names = []
     then throw (InvalidArgument ''Connection::add_sync_apply_observer_for_dbis DBI names cannot be empty'')
     else add_sync_apply_observer_impl observer_is_null (Some dbi_names))"

text \<open>
  The removal of an observer, by a thread that runs \<open>own_in_flight\<close> of the observer's callbacks. \<open>None\<close>: the
  caller waits for the callbacks of other threads.
\<close>

definition remove_sync_apply_observer :: "nat \<Rightarrow> u64 \<Rightarrow> 'e node \<Rightarrow> bool option \<times> 'e node" where
  "remove_sync_apply_observer own_in_flight t n =
    (case dropWhile (\<lambda>st. obs_token st \<noteq> t) (m_sync_apply_observers n) of
       [] \<Rightarrow> (Some False, n)
     | removed # rest \<Rightarrow>
         (if in_flight removed > own_in_flight then None else Some True,
          n\<lparr>m_sync_apply_observers := takeWhile (\<lambda>st. obs_token st \<noteq> t) (m_sync_apply_observers n) @ rest\<rparr>))"

definition sync_apply_observer_matches_dbi_names :: "sync_apply_observer_state \<Rightarrow> string list \<Rightarrow> bool" where
  "sync_apply_observer_matches_dbi_names st names \<longleftrightarrow> \<not> has_dbi_name_filter st \<or>
     list_ex (\<lambda>x. list_ex (\<lambda>y. x = y) names) (obs_dbi_names st)"

text \<open>The notification: the event and the observers to call. Allocation failures are not modelled.\<close>

definition wants :: "string list \<Rightarrow> sync_apply_observer_state \<Rightarrow> bool" where
  "wants names st \<longleftrightarrow> \<not> obs_removed st \<and> sync_apply_observer_matches_dbi_names st names"

definition mark_sync_apply_committed ::
  "nat \<Rightarrow> nat \<Rightarrow> string list \<Rightarrow> ('e node, sync_apply_event \<times> u64 list) io" where
  "mark_sync_apply_committed batches opcount names n =
    (let g = m_sync_apply_generation n + 1 in
     (Inr (\<lparr>generation = g, applied_batches = batches, applied_ops = opcount, affected_dbi_names = names\<rparr>,
        map obs_token (filter (wants names) (m_sync_apply_observers n))),
      n\<lparr>m_sync_apply_generation := g,
        m_sync_apply_observers := map (\<lambda>st. if wants names st then st\<lparr>in_flight := in_flight st + 1\<rparr> else st)
          (m_sync_apply_observers n)\<rparr>))"

definition finish_sync_apply_observer_callback :: "u64 \<Rightarrow> 'e node \<Rightarrow> 'e node" where
  "finish_sync_apply_observer_callback t n = n\<lparr>m_sync_apply_observers :=
     map (\<lambda>st. if obs_token st = t \<and> in_flight st \<noteq> 0 then st\<lparr>in_flight := in_flight st - 1\<rparr> else st)
       (m_sync_apply_observers n)\<rparr>"

definition notify_sync_apply_observers :: "sync_apply_event \<times> u64 list \<Rightarrow> ('e node, unit) io" where
  "notify_sync_apply_observers notification n = (case notification of (event, callbacks) \<Rightarrow>
     (Inr (), fold (\<lambda>t n. finish_sync_apply_observer_callback t (n\<lparr>delivered := delivered n @ [(t, event)]\<rparr>))
        callbacks n))"

section \<open>Transactions of a handler\<close>

text \<open>
  A guard begins its transaction when it is constructed and, when it goes out of scope with the
  transaction still open, aborts it and ignores the answer.
\<close>

definition begin_txn :: "('e, 't) mdbx_txns \<Rightarrow> bool \<Rightarrow> string \<Rightarrow> ('e node, 't) io" where
  "begin_txn T rdonly msg n = (case mdbx_txn_begin T rdonly (node_env n) of (rc, t, e) \<Rightarrow>
     (if rc = MDBX_SUCCESS then Inr t else Inl (MdbxException msg rc), n\<lparr>node_env := e\<rparr>))"

definition abort_txn :: "('e, 't) mdbx_txns \<Rightarrow> 't \<Rightarrow> 'e node \<Rightarrow> 'e node" where
  "abort_txn T t n = n\<lparr>node_env := snd (mdbx_txn_abort T t (node_env n))\<rparr>"

definition in_txn :: "('e, 't) mdbx_txns \<Rightarrow> 't \<Rightarrow> ('t, 'a) io \<Rightarrow> ('e node, 'a \<times> 't) io" where
  "in_txn T t m n = (case m t of (r, t') \<Rightarrow> (case r of
       Inl e \<Rightarrow> (Inl e, abort_txn T t' n)
     | Inr x \<Rightarrow> (Inr (x, t'), n)))"

definition read_txn :: "('e, 't) mdbx_txns \<Rightarrow> string \<Rightarrow> ('t, 'a) io \<Rightarrow> ('e node, 'a) io" where
  "read_txn T msg m =
     bindM (begin_txn T True msg) (\<lambda>t. bindM (in_txn T t m) (\<lambda>(x, t') n. (Inr x, abort_txn T t' n)))"

text \<open>
  The handlers write through libmdbx and not through the tables, so that the capture hooks of a commit and a
  rollback, which are in \<open>Txn_Model\<close>, have nothing to do for them.
  After \<open>MDBX_THREAD_MISMATCH\<close> the guard still has the transaction; after another error it is gone.
\<close>

definition commit_txn :: "('e, 't) mdbx_txns \<Rightarrow> 't \<Rightarrow> ('e node, unit) io" where
  "commit_txn T t n = (case mdbx_txn_commit T t (node_env n) of (rc, e) \<Rightarrow>
     (let n' = n\<lparr>node_env := e\<rparr> in
      if rc = MDBX_SUCCESS then (Inr (), n')
      else (Inl (MdbxException ''Failed to commit writable transaction'' rc),
            if rc = MDBX_THREAD_MISMATCH then abort_txn T t n' else n')))"

definition rollback_txn :: "('e, 't) mdbx_txns \<Rightarrow> 't \<Rightarrow> ('e node, unit) io" where
  "rollback_txn T t n = (case mdbx_txn_abort T t (node_env n) of (rc, e) \<Rightarrow>
     (let n' = n\<lparr>node_env := e\<rparr> in
      if rc = MDBX_SUCCESS then (Inr (), n')
      else (Inl (MdbxException ''Failed to abort writable transaction'' rc), abort_txn T t n')))"

section \<open>Identity and cursor\<close>

abbreviation begin_failed :: string where "begin_failed \<equiv> ''Failed to begin transaction''"

definition local_node_id :: "('t, 'c) mdbx \<Rightarrow> ('e, 't) mdbx_txns \<Rightarrow> ('e node, node_id) io" where
  "local_node_id M T = read_txn T begin_failed
     (bindM (meta_open M (new_meta_store (env_handle T))) (get_node_id M))"

definition db_uuid :: "('t, 'c) mdbx \<Rightarrow> ('e, 't) mdbx_txns \<Rightarrow> ('e node, db_id) io" where
  "db_uuid M T = read_txn T begin_failed
     (bindM (meta_open M (new_meta_store (env_handle T))) (get_db_uuid M))"

definition db_id_matches :: "('t, 'c) mdbx \<Rightarrow> ('e, 't) mdbx_txns \<Rightarrow> db_id \<Rightarrow> ('e node, bool) io" where
  "db_id_matches M T request_db_id =
    (if compare_node_id request_db_id make_zero_node = 0 then ret False
     else bindM (db_uuid M T) (\<lambda>u. ret (compare_node_id request_db_id u = 0)))"

definition applied_cursor :: "('t, 'c) mdbx \<Rightarrow> ('e, 't) mdbx_txns \<Rightarrow> ('e node, sync_cursor) io" where
  "applied_cursor M T = read_txn T begin_failed (read_applied_cursor M [])"

section \<open>Serving a pull\<close>

text \<open>The handler of requests for a full snapshot, which is not part of the model, is an argument.\<close>

definition handle_pull ::
  "('t, 'c) mdbx \<Rightarrow> ('e, 't) mdbx_txns \<Rightarrow> (pull_request \<Rightarrow> ('e node, pull_response) io) \<Rightarrow>
     pull_request \<Rightarrow> ('e node, pull_response) io" where
  "handle_pull M T handle_full_snapshot_pull request =
     bindM (db_id_matches M T (pull_db_id request)) (\<lambda>same.
     let out = new_pull_response in
     if \<not> same
     then ret (out\<lparr>pull_ok := False, pull_error := ''db_id mismatch'', pull_error_code := DbIdMismatch\<rparr>)
     else if request_full_snapshot request then handle_full_snapshot_pull request
     else read_txn T ''SyncEngine: failed to begin read txn for pull''
       (bindM (open_changelog_ro M) (\<lambda>changelog_dbi.
        if changelog_dbi = 0
        then bindM (read_applied_cursor M (remote_have out)) (\<lambda>rh.
          ret (out\<lparr>remote_have := rh, remote_tail_known := True\<rparr>))
        else pull_changelog_page M (env_handle T) changelog_dbi request)))"

section \<open>Applying a push\<close>

definition to_string_int :: "int \<Rightarrow> string" where
  "to_string_int i = (if i < 0 then CHR ''-'' # decimal (nat (- i)) else decimal (nat i))"

definition to_string_u32 :: "u32 \<Rightarrow> string" where
  "to_string_u32 n = decimal (unat n)"

definition apply_conflict_message :: "(mdbx_rc \<Rightarrow> int) \<Rightarrow> apply_outcome \<Rightarrow> string" where
  "apply_conflict_message code outcome =
     apply_conflict_reason_name (ao_conflict_reason outcome) @ '' while applying pushed batch'' @
    (case ao_conflict_reason outcome of
       SequenceGap \<Rightarrow> '' (last_applied_seq='' @ to_string (ao_last_applied_seq outcome) @
         '', batch_seq='' @ to_string (ao_batch_seq outcome) @ '')''
     | InconsistentBatchDbiFlags \<Rightarrow> '' (dbi='' @ quoted (ao_dbi_name outcome) @
         '', expected_flags='' @ to_string_u32 (ao_expected_dbi_flags outcome) @
         '', incoming_flags='' @ to_string_u32 (ao_incoming_dbi_flags outcome) @ '')''
     | ExistingDbiFlagsMismatch \<Rightarrow> '' (dbi='' @ quoted (ao_dbi_name outcome) @
         '', incoming_flags='' @ to_string_u32 (ao_incoming_dbi_flags outcome) @
         (if ao_actual_dbi_flags_available outcome
          then '', actual_flags='' @ to_string_u32 (ao_actual_dbi_flags outcome)
          else '', actual_flags=unknown'') @
         '', mdbx_error_code='' @ to_string_int (code (ao_mdbx_error_code outcome)) @ '')''
     | ReservedDbiName \<Rightarrow> '' (dbi='' @ quoted (ao_dbi_name outcome) @ '')''
     | _ \<Rightarrow> [])"

definition add_unique_dbi_name :: "string list \<Rightarrow> string \<Rightarrow> string list" where
  "add_unique_dbi_name names name = (if list_ex (\<lambda>x. x = name) names then names else names @ [name])"

text \<open>The loop over the batches, with the three counters of the handler.\<close>

type_synonym push_counts = "nat \<times> nat \<times> string list"

definition count_batch :: "change_batch \<Rightarrow> push_counts \<Rightarrow> push_counts" where
  "count_batch batch = (\<lambda>(batches, opcount, names). (batches + 1, opcount + length (ops batch),
     foldl (\<lambda>names op. add_unique_dbi_name names (dbi_name op)) names (ops batch)))"

fun push_loop ::
  "('t, 'c) mdbx \<Rightarrow> nat \<Rightarrow> conflict_policy \<Rightarrow> change_batch list \<Rightarrow> push_counts \<Rightarrow>
     ('t, apply_outcome + push_counts) io" where
  "push_loop M env policy [] counts = ret (Inr counts)"
| "push_loop M env policy (batch # rest) counts =
     bindM (apply_batch_ex M env policy batch) (\<lambda>outcome.
     if ao_result outcome = Conflict then ret (Inl outcome)
     else push_loop M env policy rest
       (if ao_result outcome = Applied \<and> ops batch \<noteq> [] then count_batch batch counts else counts))"

definition handle_push ::
  "('t, 'c) mdbx \<Rightarrow> ('e, 't) mdbx_txns \<Rightarrow> conflict_policy \<Rightarrow> push_request \<Rightarrow> ('e node, push_response) io" where
  "handle_push M T policy request =
     bindM (db_id_matches M T (push_db_id request)) (\<lambda>same.
     let out = new_push_response in
     if \<not> same
     then bindM (applied_cursor M T) (\<lambda>cur.
       ret (out\<lparr>push_ok := False, push_error := ''db_id mismatch'', push_error_code := DbIdMismatch,
              receiver_have := cur\<rparr>))
     else
     bindM (begin_txn T False begin_failed) (\<lambda>t.
     bindM (in_txn T t (push_loop M (env_handle T) policy (push_batches request) (0, 0, []))) (\<lambda>(r, t').
     case r of
       Inl outcome \<Rightarrow>
         thenM (rollback_txn T t') (bindM (applied_cursor M T) (\<lambda>cur.
         ret (out\<lparr>push_ok := False, push_error := apply_conflict_message (rc_value T) outcome,
                push_error_code := ApplyConflict,
                push_error_retryable := (ao_conflict_reason outcome = SequenceGap),
                receiver_have := cur\<rparr>)))
     | Inr (batches, opcount, names) \<Rightarrow>
         thenM (commit_txn T t')
         (thenM (if batches \<noteq> 0
                 then bindM (mark_sync_apply_committed batches opcount names) notify_sync_apply_observers
                 else ret ())
         (bindM (applied_cursor M T) (\<lambda>cur. ret (out\<lparr>push_ok := True, receiver_have := cur\<rparr>)))))))"

end
