(* ===== verification/Sync_Worker.thy ===== *)
theory Sync_Worker
  imports Sync_Node
begin

text \<open>
  One round of \<^verbatim>\<open>include/mdbx_containers/sync/engine/SyncWorker.hpp\<close>: the worker asks its peer for page
  after page and applies each of them to the local node. The peer is an argument, with the peer of
  \<^verbatim>\<open>engine/DirectSyncPeer.hpp\<close> as an instance.

  The fallbacks to snapshots and the logical deliveries, which the options switch off by default, and
  the reports to the worker's observer are not part of the model. What other threads decide, whether
  the worker has been asked to stop, is read from \<open>gate\<close> at the places where the code looks.
\<close>

record sync_worker_options =
  wo_max_batches :: u64
  wo_max_bytes :: u64
  wo_max_single_batch_bytes :: u64
  idle_interval :: int
  initial_backoff :: int
  max_backoff :: int
  drain_pages :: bool

definition validate_options :: "sync_worker_options \<Rightarrow> exn + unit" where
  "validate_options options =
    (if wo_max_batches options = 0
     then Inl (InvalidArgument ''SyncWorkerOptions::max_batches must be greater than zero'')
     else if wo_max_bytes options = 0
     then Inl (InvalidArgument ''SyncWorkerOptions::max_bytes must be greater than zero'')
     else if wo_max_single_batch_bytes options = 0
     then Inl (InvalidArgument ''SyncWorkerOptions::max_single_batch_bytes must be greater than zero'')
     else if idle_interval options < 0
     then Inl (InvalidArgument ''SyncWorkerOptions::idle_interval must not be negative'')
     else if initial_backoff options < 0
     then Inl (InvalidArgument ''SyncWorkerOptions::initial_backoff must not be negative'')
     else if max_backoff options < 0
     then Inl (InvalidArgument ''SyncWorkerOptions::max_backoff must not be negative'')
     else if max_backoff options < initial_backoff options
     then Inl (InvalidArgument ''SyncWorkerOptions::max_backoff must be at least initial_backoff'')
     else Inr ())"

text \<open>The members of \<open>SyncWorkerRoundResult\<close> that a round without the optional parts sets.\<close>

record round_result =
  round_ok :: bool
  pages_pulled :: nat
  batches_applied :: nat
  round_has_more :: bool
  round_error :: string
  round_error_code :: sync_response_error_code
  round_error_retryable :: bool

definition new_round_result :: round_result where
  "new_round_result = \<lparr>round_ok = True, pages_pulled = 0, batches_applied = 0, round_has_more = False,
     round_error = [], round_error_code = NoSyncError, round_error_retryable = False\<rparr>"

text \<open>
  The surroundings of a worker: the peer's \<open>pull\<close>, the answers at the gates of a page (before the pull,
  when the peer call is registered, after the pull, and the two gates before the apply), and the
  text of an exception.
\<close>

record 'p surroundings =
  peer_pull :: "pull_request \<Rightarrow> ('p, pull_response) io"
  gate :: "nat \<Rightarrow> nat \<Rightarrow> bool"
  what :: "exn \<Rightarrow> string"

text \<open>The local node and the peer.\<close>

definition on_node :: "('e node, 'a) io \<Rightarrow> ('e node \<times> 'p, 'a) io" where
  "on_node m = (\<lambda>(n, p). case m n of (r, n') \<Rightarrow> (r, n', p))"

definition on_peer :: "('p, 'a) io \<Rightarrow> ('e node \<times> 'p, 'a) io" where
  "on_peer m = (\<lambda>(n, p). case m p of (r, p') \<Rightarrow> (r, n, p'))"

text \<open>
  Inside the \<open>try\<close> block: \<open>attempt m h k\<close> goes on with \<open>k\<close>, or leaves with \<open>h\<close> of the exception.
\<close>

definition attempt :: "('s, 'a) io \<Rightarrow> (exn \<Rightarrow> 'b) \<Rightarrow> ('a \<Rightarrow> 's \<Rightarrow> 'b \<times> 's) \<Rightarrow> 's \<Rightarrow> 'b \<times> 's" where
  "attempt m h k s = (case m s of (r, s') \<Rightarrow> (case r of Inl e \<Rightarrow> (h e, s') | Inr x \<Rightarrow> k x s'))"

definition caught :: "'p surroundings \<Rightarrow> round_result \<Rightarrow> exn \<Rightarrow> round_result" where
  "caught W result e = result\<lparr>round_ok := False, round_error := what W e\<rparr>"

text \<open>
  One turn of the loop ends the round, or goes on with the request, the result and \<open>has_more\<close>.
\<close>

datatype page_step = Return round_result | Next pull_request round_result bool

definition leave :: "'b \<Rightarrow> 's \<Rightarrow> 'b \<times> 's" where
  "leave x s = (x, s)"

text \<open>The end of a turn.\<close>

definition finish_page :: "sync_cursor \<Rightarrow> pull_request \<Rightarrow> round_result \<Rightarrow> bool \<Rightarrow> page_step" where
  "finish_page before request result again =
    (if again \<and> have_cursor request = before
     then Return (result\<lparr>round_ok := False, round_error := ''pull pagination made no cursor progress''\<rparr>)
     else Next request (result\<lparr>round_has_more := again\<rparr>) again)"

definition apply_page ::
  "('t, 'c) mdbx \<Rightarrow> ('e, 't) mdbx_txns \<Rightarrow> conflict_policy \<Rightarrow> 'p surroundings \<Rightarrow> nat \<Rightarrow> pull_request \<Rightarrow>
     round_result \<Rightarrow> pull_response \<Rightarrow> 'e node \<times> 'p \<Rightarrow> page_step \<times> 'e node \<times> 'p" where
  "apply_page M T policy W i request result response =
    (if \<not> gate W i 3 \<or> \<not> gate W i 4 then leave (Return (result\<lparr>round_has_more := has_more response\<rparr>)) else
     attempt (on_node (handle_push M T policy
        \<lparr>sender = make_zero_node, push_db_id = pull_db_id request, push_batches = pull_batches response\<rparr>))
       (\<lambda>e. Return (caught W result e)) (\<lambda>applied.
     if \<not> push_ok applied
     then leave (Return (result\<lparr>round_ok := False,
            round_error := (if push_error applied = [] then ''apply failed'' else push_error applied),
            round_error_code := push_error_code applied,
            round_error_retryable := push_error_retryable applied\<rparr>))
     else attempt (on_node (applied_cursor M T)) (\<lambda>e. Return (caught W result e)) (\<lambda>after_apply.
       leave (finish_page (have_cursor request) (request\<lparr>have_cursor := after_apply\<rparr>)
         (result\<lparr>batches_applied := batches_applied result + length (pull_batches response)\<rparr>)
         (has_more response)))))"

definition worker_page ::
  "('t, 'c) mdbx \<Rightarrow> ('e, 't) mdbx_txns \<Rightarrow> conflict_policy \<Rightarrow> 'p surroundings \<Rightarrow> nat \<Rightarrow> pull_request \<Rightarrow>
     round_result \<Rightarrow> bool \<Rightarrow> 'e node \<times> 'p \<Rightarrow> page_step \<times> 'e node \<times> 'p" where
  "worker_page M T policy W i request result again =
    (if \<not> gate W i 0 \<or> \<not> gate W i 1 then leave (Return (result\<lparr>round_has_more := again\<rparr>)) else
     attempt (on_peer (peer_pull W request)) (\<lambda>e. Return (caught W result e)) (\<lambda>response.
     if \<not> pull_ok response
     then leave (Return (result\<lparr>round_ok := False,
            round_error := (if pull_error response = [] then ''pull failed'' else pull_error response),
            round_error_code := pull_error_code response,
            round_error_retryable := pull_error_retryable response\<rparr>))
     else let result = result\<lparr>pages_pulled := pages_pulled result + 1\<rparr> in
     if \<not> gate W i 2 then leave (Return (result\<lparr>round_has_more := has_more response\<rparr>))
     else if pull_batches response \<noteq> [] then apply_page M T policy W i request result response
     else if has_more response
     then leave (Return (result\<lparr>round_ok := False, round_error := ''pull reported has_more without batches''\<rparr>))
     else leave (finish_page (have_cursor request) request result (has_more response))))"

text \<open>The loop, for at most as many turns as the first argument says; \<open>None\<close> when they are used up.\<close>

fun worker_pages ::
  "nat \<Rightarrow> ('t, 'c) mdbx \<Rightarrow> ('e, 't) mdbx_txns \<Rightarrow> conflict_policy \<Rightarrow> 'p surroundings \<Rightarrow> bool \<Rightarrow> nat \<Rightarrow> pull_request \<Rightarrow>
     round_result \<Rightarrow> bool \<Rightarrow> 'e node \<times> 'p \<Rightarrow> round_result option \<times> 'e node \<times> 'p" where
  "worker_pages 0 M T policy W drain i request result again s = (None, s)"
| "worker_pages (Suc k) M T policy W drain i request result again s =
    (case worker_page M T policy W i request result again s of (step, s') \<Rightarrow> (case step of
       Return result \<Rightarrow> (Some result, s')
     | Next request result again \<Rightarrow>
         if again \<and> drain then worker_pages k M T policy W drain (i + 1) request result again s'
         else (Some result, s')))"

definition first_request :: "sync_worker_options \<Rightarrow> node_id \<Rightarrow> db_id \<Rightarrow> sync_cursor \<Rightarrow> pull_request" where
  "first_request options node db cur = \<lparr>requester = node, pull_db_id = db, have_cursor = cur,
     max_batches = wo_max_batches options, max_bytes = wo_max_bytes options, request_full_snapshot = False,
     full_snapshot_id = [], full_snapshot_continuation = [],
     max_single_batch_bytes = wo_max_single_batch_bytes options\<rparr>"

definition run_once_impl ::
  "nat \<Rightarrow> ('t, 'c) mdbx \<Rightarrow> ('e, 't) mdbx_txns \<Rightarrow> conflict_policy \<Rightarrow> 'p surroundings \<Rightarrow> sync_worker_options \<Rightarrow>
     'e node \<times> 'p \<Rightarrow> round_result option \<times> 'e node \<times> 'p" where
  "run_once_impl k M T policy W options =
    (let result = new_round_result; failed = (\<lambda>e. Some (caught W result e)) in
     attempt (on_node (local_node_id M T)) failed (\<lambda>node.
     attempt (on_node (db_uuid M T)) failed (\<lambda>db.
     attempt (on_node (applied_cursor M T)) failed (\<lambda>cur.
     worker_pages k M T policy W (drain_pages options) 0 (first_request options node db cur) result False))))"

text \<open>A peer in the same process: the other engine's handler.\<close>

definition direct_pull ::
  "('t, 'c) mdbx \<Rightarrow> ('e, 't) mdbx_txns \<Rightarrow> (pull_request \<Rightarrow> ('e node, pull_response) io) \<Rightarrow>
     pull_request \<Rightarrow> ('e node, pull_response) io" where
  "direct_pull M T handle_full_snapshot_pull = handle_pull M T handle_full_snapshot_pull"

end
