(* ===== verification/Pull_Spec.thy ===== *)
theory Pull_Spec
  imports Sync_Pull
begin

text \<open>
  What one page of a pull contains, as a function of the contents of the change log, of the origin
  index and of the applied store, and the proof that the engine computes it.
\<close>

abbreviation "t_changelog \<equiv> ''_mdbxc_changelog''"
abbreviation "t_origins \<equiv> ''_mdbxc_origins''"

section \<open>Specification\<close>

abbreviation key_origin :: "bytes \<Rightarrow> node_id" where "key_origin k \<equiv> take 16 k"
abbreviation key_seq :: "bytes \<Rightarrow> u64" where "key_seq k \<equiv> read_u64_be (drop 16 k)"

text \<open>Every value of the log is the encoding of the batch that its key announces.\<close>

definition log_faithful :: "(bytes \<rightharpoonup> bytes) \<Rightarrow> bool" where
  "log_faithful lg \<longleftrightarrow> (\<forall>k v. lg k = Some v \<longrightarrow>
     (\<exists>batch. decode_exact v None = Inr batch \<and> origin_node_id batch = key_origin k \<and> seq batch = key_seq k))"

definition batch_of :: "bytes \<Rightarrow> change_batch" where
  "batch_of v = (case decode_exact v None of Inr batch \<Rightarrow> batch | Inl e \<Rightarrow> undefined)"

lemma log_faithfulD:
  "log_faithful lg \<Longrightarrow> lg k = Some v \<Longrightarrow> decode_exact v None = Inr (batch_of v) \<and>
     origin_node_id (batch_of v) = key_origin k \<and> seq (batch_of v) = key_seq k"
  unfolding log_faithful_def batch_of_def by (metis sum.case(2))

text \<open>The entries of an origin above a sequence number, in order, with their sizes.\<close>

definition pending_rows :: "(bytes \<rightharpoonup> bytes) \<Rightarrow> node_id \<Rightarrow> u64 \<Rightarrow> (bytes \<times> bytes) list" where
  "pending_rows lg origin s = filter (\<lambda>kv. key_origin (fst kv) = origin \<and> s < key_seq (fst kv)) (rows_where (\<lambda>_. True) lg)"

definition pending :: "(bytes \<rightharpoonup> bytes) \<Rightarrow> node_id \<Rightarrow> u64 \<Rightarrow> (change_batch \<times> nat) list" where
  "pending lg origin s = map (\<lambda>kv. (batch_of (snd kv), length (snd kv))) (pending_rows lg origin s)"

text \<open>The lowest retained sequence number of an origin.\<close>

definition log_first :: "(bytes \<rightharpoonup> bytes) \<Rightarrow> node_id \<Rightarrow> u64 option" where
  "log_first lg origin = (let S = {s. log_entry lg origin s \<noteq> None} in if S = {} then None else Some (Min S))"

definition known_origins :: "(bytes \<rightharpoonup> bytes) \<Rightarrow> (bytes \<rightharpoonup> bytes) \<Rightarrow> pull_origin list" where
  "known_origins lg ix =
    (if ix \<noteq> Map.empty then map (\<lambda>(o', s). make_pull_origin o' (Some s)) (tails_list ix)
     else map (\<lambda>o'. make_pull_origin o' None) (sorted_list_of_set (key_origin ` dom lg)))"

definition retained :: "(bytes \<rightharpoonup> bytes) \<Rightarrow> pull_request \<Rightarrow> pull_origin \<Rightarrow> bool" where
  "retained lg request po \<longleftrightarrow> origin_is_at_tail po request \<or>
    (let s = last_seq_for (have_cursor request) (po_origin po) in
     s = - 1 \<or> (case log_first lg (po_origin po) of
       None \<Rightarrow> \<not> (po_has_last_seq po \<and> s < po_last_seq po) | Some e \<Rightarrow> \<not> s + 1 < e))"

text \<open>How a page is filled: until a limit is reached, or a batch is too large to send at all.\<close>

datatype page_end = Complete | PageFull | TooLarge u64 nat

fun fill_page ::
  "pull_request \<Rightarrow> (change_batch \<times> nat) list \<Rightarrow> change_batch list \<Rightarrow> nat \<Rightarrow> change_batch list \<times> nat \<times> page_end" where
  "fill_page request [] bs tot = (bs, tot, Complete)"
| "fill_page request ((batch, n) # rest) bs tot =
    (if length bs \<ge> unat (max_batches request) \<or> tot \<ge> unat (max_bytes request) then (bs, tot, PageFull)
     else if n > unat (max_single_batch_bytes request) then (bs, tot, TooLarge (seq batch) n)
     else fill_page request rest (bs @ [batch]) (tot + n))"

definition due :: "(bytes \<rightharpoonup> bytes) \<Rightarrow> pull_request \<Rightarrow> pull_origin list \<Rightarrow> (change_batch \<times> nat) list" where
  "due lg request os = concat (map (\<lambda>po. if origin_is_at_tail po request then []
     else pending lg (po_origin po) (last_seq_for (have_cursor request) (po_origin po))) os)"

definition page_result :: "pull_request \<Rightarrow> pull_response \<Rightarrow> change_batch list \<times> nat \<times> page_end \<Rightarrow> pull_response" where
  "page_result request out r = (case r of (bs, tot, e) \<Rightarrow> (case e of
       Complete \<Rightarrow> out\<lparr>pull_batches := bs, has_more := False\<rparr>
     | PageFull \<Rightarrow> out\<lparr>pull_batches := bs, has_more := True\<rparr>
     | TooLarge sq n \<Rightarrow> set_batch_too_large out sq (word_of_nat n) (max_single_batch_bytes request)))"

definition applied_cursor_of :: "(bytes \<rightharpoonup> bytes) \<Rightarrow> sync_cursor" where
  "applied_cursor_of ap = fold (\<lambda>(k, v). applied_row k v) (rows_where (\<lambda>_. True) ap) []"

definition page_spec ::
  "(bytes \<rightharpoonup> bytes) \<Rightarrow> (bytes \<rightharpoonup> bytes) \<Rightarrow> (bytes \<rightharpoonup> bytes) \<Rightarrow> pull_request \<Rightarrow> pull_response" where
  "page_spec lg ix ap request =
    (let os = known_origins lg ix; (known, rt) = copy_known_tail os [];
         out = new_pull_response\<lparr>remote_have := applied_cursor_of ap, remote_tail := rt, remote_tail_known := known\<rparr> in
     case find (\<lambda>po. \<not> retained lg request po) os of
       Some po \<Rightarrow> set_snapshot_required out po (last_seq_for (have_cursor request) (po_origin po))
         (log_first lg (po_origin po) \<noteq> None)
         (case log_first lg (po_origin po) of None \<Rightarrow> 0 | Some e \<Rightarrow> e)
     | None \<Rightarrow> page_result request out (fill_page request (due lg request os) [] 0))"

section \<open>Rows of one origin\<close>

lemma make_changelog_key_eq: "make_changelog_key = encode_key"
  by (simp add: fun_eq_iff make_changelog_key_def encode_key_def)

lemma filter_rows_where:
  assumes "finite (dom m)"
  shows "filter (\<lambda>kv. P (fst kv)) (rows_where Q m) = rows_where (\<lambda>k. Q k \<and> P k) m"
proof -
  have "filter P (sorted_list_of_set {k \<in> dom m. Q k}) = sorted_list_of_set {k \<in> dom m. Q k \<and> P k}"
    using assms by (intro sorted_distinct_set_unique) (auto simp: sorted_filter [where f = "\<lambda>x. x", simplified])
  then show ?thesis by (simp add: rows_where_def filter_map comp_def)
qed

lemma pending_rows_eq:
  assumes "finite (dom lg)"
  shows "pending_rows lg origin s = rows_where (\<lambda>k. key_origin k = origin \<and> s < key_seq k) lg"
  unfolding pending_rows_def using filter_rows_where [OF assms, of "\<lambda>k. key_origin k = origin \<and> s < key_seq k"] by simp

lemma takeWhile_filter_sorted:
  assumes "sorted_wrt (<) (map f xs)"
    and "\<And>x y. x \<in> set xs \<Longrightarrow> y \<in> set xs \<Longrightarrow> f x < f y \<Longrightarrow> P y \<Longrightarrow> P x"
  shows "takeWhile P xs = filter P xs"
  using assms
proof (induction xs)
  case (Cons x xs)
  then have "\<not> P x \<Longrightarrow> y \<in> set xs \<Longrightarrow> \<not> P y" for y by auto
  with Cons show ?case by (auto simp: filter_empty_conv)
qed simp

text \<open>Starting at the first possible key, the entries of the origin come first.\<close>

lemma pending_takeWhile:
  assumes "finite (dom lg)" "log_ok lg" "is_node_id origin" "s \<noteq> - 1"
  shows "takeWhile (\<lambda>kv. key_origin (fst kv) = origin) (rows_where (\<lambda>k. encode_key origin (s + 1) \<le> k) lg) =
    pending_rows lg origin s"
proof -
  let ?rs = "rows_where (\<lambda>k. encode_key origin (s + 1) \<le> k) lg"
  have key: "encode_key origin (s + 1) \<le> k \<longleftrightarrow> origin < key_origin k \<or> key_origin k = origin \<and> s < key_seq k"
    if "k \<in> dom lg" for k
  proof -
    have "length k = 24" using that assms(2) by (auto simp: log_ok_def)
    then obtain o' s' where k: "k = encode_key o' s'" "is_node_id o'" using decode_encode_key by metis
    have "s + 1 \<le> s' \<longleftrightarrow> s < s'" using assms(4) by (simp add: inc_less_eq_iff)
    with k assms(3) show ?thesis by (auto simp: encode_key_le)
  qed
  have keys: "fst kv \<in> dom lg" if "kv \<in> set ?rs" for kv
    using that set_rows_where [OF assms(1)] by auto
  have lt: "sorted_wrt (<) (map fst ?rs)"
    using sorted_rows_where [OF assms(1)] distinct_rows_where [OF assms(1)] by (simp add: strict_sorted_iff)
  have "takeWhile (\<lambda>kv. key_origin (fst kv) = origin) ?rs = filter (\<lambda>kv. key_origin (fst kv) = origin) ?rs"
  proof (rule takeWhile_filter_sorted [OF lt])
    fix x y
    assume xy: "x \<in> set ?rs" "y \<in> set ?rs" "fst x < fst y" "key_origin (fst y) = origin"
    have "length (fst x) = 24" "length (fst y) = 24" using keys xy(1,2) assms(2) by (auto simp: log_ok_def)
    then have "key_origin (fst x) \<le> key_origin (fst y)"
      using xy(3) decode_encode_key by (metis encode_key_less order_less_imp_le order_refl)
    moreover have "encode_key origin (s + 1) \<le> fst x"
      using xy(1) set_rows_where [OF assms(1)] by auto
    ultimately show "key_origin (fst x) = origin"
      using key [OF keys [OF xy(1)]] xy(4) by auto
  qed
  also have "\<dots> = rows_where (\<lambda>k. encode_key origin (s + 1) \<le> k \<and> key_origin k = origin) lg"
    by (rule filter_rows_where [OF assms(1)])
  also have "\<dots> = pending_rows lg origin s"
    unfolding pending_rows_eq [OF assms(1)] rows_where_def using key by (metis (mono_tags, lifting) Collect_cong order_less_irrefl)
  finally show ?thesis .
qed

section \<open>The first entry of an origin\<close>

lemma log_first_none:
  assumes "log_ok lg" "is_node_id origin" "\<And>k. k \<in> dom lg \<Longrightarrow> encode_key origin 0 \<le> k \<Longrightarrow> key_origin k \<noteq> origin"
  shows "log_first lg origin = None"
proof -
  have "log_entry lg origin s = None" for s
    using assms(3) [of "encode_key origin s"] assms(2) by (auto simp: log_entry_def encode_key_le)
  then show ?thesis by (simp add: log_first_def)
qed

lemma log_first_least:
  assumes "lg (encode_key origin s) = Some v" "is_node_id origin"
    and least: "\<And>k. k \<in> dom lg \<Longrightarrow> encode_key origin 0 \<le> k \<Longrightarrow> encode_key origin s \<le> k"
  shows "log_first lg origin = Some s"
proof -
  let ?S = "{s. log_entry lg origin s \<noteq> None}"
  have "s \<in> ?S" using assms(1) by (simp add: log_entry_def)
  moreover have "s \<le> s'" if "s' \<in> ?S" for s'
    using that least [of "encode_key origin s'"] assms(2) by (auto simp: log_entry_def encode_key_le)
  ultimately have "Min ?S = s" by (intro Min_eqI) auto
  moreover have "?S \<noteq> {}" using \<open>s \<in> ?S\<close> by blast
  ultimately show ?thesis unfolding log_first_def Let_def by (simp only: if_False)
qed

section \<open>The origins of the log\<close>

lemma next_origin:
  assumes "log_ok lg" "o' \<in> key_origin ` dom lg" "nk \<in> dom lg" "o' < key_origin nk"
    and least: "\<And>k. k \<in> dom lg \<Longrightarrow> o' < key_origin k \<Longrightarrow> nk \<le> k"
  shows "{x \<in> key_origin ` dom lg. x < key_origin nk} = insert o' {x \<in> key_origin ` dom lg. x < o'}"
proof -
  have "x \<le> o'" if "x \<in> key_origin ` dom lg" "x < key_origin nk" for x
  proof (rule ccontr)
    assume "\<not> x \<le> o'"
    with that obtain k where k: "k \<in> dom lg" "x = key_origin k" "o' < key_origin k" by (auto simp: not_le)
    then have "nk \<le> k" by (intro least)
    moreover have "length k = 24" "length nk = 24" using k(1) assms(1,3) by (auto simp: log_ok_def)
    ultimately have "key_origin nk \<le> key_origin k"
      using decode_encode_key by (metis encode_key_le order_less_imp_le order_refl)
    with k that show False by simp
  qed
  then have "x \<in> key_origin ` dom lg \<Longrightarrow> x < key_origin nk \<longleftrightarrow> x = o' \<or> x < o'" for x
    using assms(4) less_trans [OF _ assms(4)] by (metis order.not_eq_order_implies_strict)
  with assms(2) show ?thesis by blast
qed

lemma sorted_list_of_set_above:
  fixes S :: "'a :: linorder set"
  assumes "finite S" "\<And>x. x \<in> S \<Longrightarrow> x < y"
  shows "sorted_list_of_set (insert y S) = sorted_list_of_set S @ [y]"
proof -
  have "y \<notin> S" using assms(2) by blast
  with assms show ?thesis by (simp add: sorted_insort_is_snoc order_less_imp_le)
qed

definition origins_below :: "(bytes \<rightharpoonup> bytes) \<Rightarrow> node_id \<Rightarrow> pull_origin list" where
  "origins_below lg x = map (\<lambda>o'. make_pull_origin o' None) (sorted_list_of_set {o' \<in> key_origin ` dom lg. o' < x})"

lemma origins_below_next:
  assumes "finite (dom lg)" "log_ok lg" "o' \<in> key_origin ` dom lg" "nk \<in> dom lg" "o' < key_origin nk"
    and "\<And>k. k \<in> dom lg \<Longrightarrow> o' < key_origin k \<Longrightarrow> nk \<le> k"
  shows "origins_below lg (key_origin nk) = origins_below lg o' @ [make_pull_origin o' None]"
    and "card {x \<in> key_origin ` dom lg. key_origin nk \<le> x} < card {x \<in> key_origin ` dom lg. o' \<le> x}"
proof -
  have S: "{x \<in> key_origin ` dom lg. x < key_origin nk} = insert o' {x \<in> key_origin ` dom lg. x < o'}"
    using assms(2-6) by (rule next_origin)
  have L: "sorted_list_of_set (insert o' {x \<in> key_origin ` dom lg. x < o'}) =
      sorted_list_of_set {x \<in> key_origin ` dom lg. x < o'} @ [o']"
    using assms(1) by (intro sorted_list_of_set_above) auto
  show "origins_below lg (key_origin nk) = origins_below lg o' @ [make_pull_origin o' None]"
    unfolding origins_below_def S L by simp
  show "card {x \<in> key_origin ` dom lg. key_origin nk \<le> x} < card {x \<in> key_origin ` dom lg. o' \<le> x}"
  proof (rule psubset_card_mono)
    have "o' \<notin> {x \<in> key_origin ` dom lg. key_origin nk \<le> x}" using assms(5) by (simp add: not_le)
    moreover have "x \<in> {x \<in> key_origin ` dom lg. o' \<le> x}" if "x \<in> {x \<in> key_origin ` dom lg. key_origin nk \<le> x}" for x
      using that assms(5) order_trans [OF order_less_imp_le [OF assms(5)]] by simp
    ultimately show "{x \<in> key_origin ` dom lg. key_origin nk \<le> x} \<subset> {x \<in> key_origin ` dom lg. o' \<le> x}"
      using assms(3) by blast
  qed (use assms(1) in simp)
qed

lemma origins_below_last:
  assumes "finite (dom lg)" "o' \<in> key_origin ` dom lg" "\<And>k. k \<in> dom lg \<Longrightarrow> \<not> o' < key_origin k"
  shows "map (\<lambda>o'. make_pull_origin o' None) (sorted_list_of_set (key_origin ` dom lg)) =
    origins_below lg o' @ [make_pull_origin o' None]"
proof -
  have "key_origin ` dom lg = insert o' {x \<in> key_origin ` dom lg. x < o'}"
    using assms(2,3) by force
  moreover have "sorted_list_of_set (insert o' {x \<in> key_origin ` dom lg. x < o'}) =
      sorted_list_of_set {x \<in> key_origin ` dom lg. x < o'} @ [o']"
    using assms(1) by (intro sorted_list_of_set_above) auto
  ultimately show ?thesis unfolding origins_below_def by simp
qed

text \<open>Keys against the last possible key of an origin.\<close>

lemma last_key_le:
  assumes "length k = 24" "is_node_id o'"
  shows "encode_key o' (- 1) \<le> k \<longleftrightarrow> o' < key_origin k \<or> k = encode_key o' (- 1)"
    and "encode_key o' (- 1) < k \<longleftrightarrow> o' < key_origin k"
proof -
  obtain o1 s where k: "k = encode_key o1 s" "is_node_id o1" using decode_encode_key [OF assms(1)] by metis
  have top: "s = - 1" if "(- 1 :: u64) \<le> s" using that by (rule word_order.extremum_uniqueI)
  show "encode_key o' (- 1) \<le> k \<longleftrightarrow> o' < key_origin k \<or> k = encode_key o' (- 1)"
    unfolding k(1) encode_key_le [OF assms(2) k(2)] encode_key_inj [OF k(2) assms(2)] key_parts(1) [OF k(2)]
    using top by blast
  show "encode_key o' (- 1) < k \<longleftrightarrow> o' < key_origin k"
    unfolding k(1) encode_key_less [OF assms(2) k(2)] key_parts(1) [OF k(2)]
    by (simp only: word_order.extremum_strict simp_thms)
qed

end
