(* ===== verification/Pull_Refinement.thy ===== *)
theory Pull_Refinement
  imports Pull_Spec
begin

text \<open>
  The engine's pull path computes the page of \<open>Pull_Spec\<close>: each function of the path is specified by
  the contents of the tables it reads.
\<close>

section \<open>Logs and cursors\<close>

abbreviation t_applied :: string where "t_applied \<equiv> ''_mdbxc_applied''"

text \<open>The handle of the change log, as a store.\<close>

definition log_at :: "nat \<Rightarrow> nat \<Rightarrow> store" where
  "log_at env dbi = \<lparr>m_env = env, m_dbi_name = t_changelog, m_dbi = dbi, m_open = True\<rparr>"

lemma log_at_simps [simp]: "m_dbi (log_at env dbi) = dbi" "m_dbi_name (log_at env dbi) = t_changelog"
  by (simp_all add: log_at_def)

lemma applied_cursor_of_empty: "applied_cursor_of Map.empty = []"
  by (simp add: applied_cursor_of_def rows_where_def)

lemma changelog_key_known:
  assumes "length k = 24"
  shows "changelog_key_origin k = ret (key_origin k)" "changelog_key_seq k = ret (key_seq k)"
    "is_node_id origin \<Longrightarrow> changelog_key_matches_origin k origin = ret (key_origin k = origin)"
  using assms by (simp_all add: changelog_key_origin_def changelog_key_seq_def changelog_key_matches_origin_def
      compare_node_id_eq is_node_id_def)

text \<open>What the skip scan over the origins knows before each iteration.\<close>

definition log_origins :: "(bytes \<rightharpoonup> bytes) \<Rightarrow> pull_origin list" where
  "log_origins lg = map (\<lambda>o'. make_pull_origin o' None) (sorted_list_of_set (key_origin ` dom lg))"

definition walk_inv ::
  "(bytes \<rightharpoonup> bytes) \<Rightarrow> nat \<Rightarrow> bool \<Rightarrow> bool \<Rightarrow> pull_origin list \<Rightarrow> mdbx_rc \<Rightarrow> bytes \<Rightarrow> bool" where
  "walk_inv lg n on_log failed found rc k \<longleftrightarrow>
    (if rc = MDBX_SUCCESS
     then k \<in> dom lg \<and> on_log \<and> found = origins_below lg (key_origin k) \<and>
       card {x \<in> key_origin ` dom lg. key_origin k \<le> x} < n
     else 0 < n \<and> (if rc = MDBX_NOTFOUND then found = log_origins lg else failed))"

lemma walk_inv_pos:
  assumes "finite (dom lg)" "walk_inv lg (Suc n) b failed found MDBX_SUCCESS k"
  shows "0 < n"
proof -
  define S where "S = {x \<in> key_origin ` dom lg. key_origin k \<le> x}"
  have "key_origin k \<in> S" "finite S" using assms by (simp_all add: walk_inv_def S_def)
  then have "0 < card S" by (auto simp: card_gt_0_iff)
  moreover have "card S < Suc n" using assms(2) by (simp add: walk_inv_def S_def)
  ultimately show ?thesis by simp
qed

lemma walk_inv_next:
  assumes "finite (dom lg)" "log_ok lg" "walk_inv lg (Suc n) b failed found MDBX_SUCCESS k"
    and "nk \<in> dom lg" "key_origin k < key_origin nk" "on_log"
    and "\<And>k'. k' \<in> dom lg \<Longrightarrow> key_origin k < key_origin k' \<Longrightarrow> nk \<le> k'"
  shows "walk_inv lg n on_log failed (found @ [make_pull_origin (key_origin k) None]) MDBX_SUCCESS nk"
proof -
  have k: "key_origin k \<in> key_origin ` dom lg" and f: "found = origins_below lg (key_origin k)"
    and c: "card {x \<in> key_origin ` dom lg. key_origin k \<le> x} < Suc n"
    using assms(3) by (simp_all add: walk_inv_def)
  show ?thesis
    using origins_below_next [OF assms(1,2) k assms(4,5,7)] f c assms(4,6) unfolding walk_inv_def by simp
qed

lemma walk_inv_end:
  assumes "finite (dom lg)" "walk_inv lg (Suc n) b failed found MDBX_SUCCESS k"
    and "\<And>k'. k' \<in> dom lg \<Longrightarrow> \<not> key_origin k < key_origin k'"
  shows "walk_inv lg n on_log failed' (found @ [make_pull_origin (key_origin k) None]) MDBX_NOTFOUND k'"
proof -
  have k: "key_origin k \<in> key_origin ` dom lg" and f: "found = origins_below lg (key_origin k)"
    using assms(2) by (simp_all add: walk_inv_def)
  show ?thesis
    using origins_below_last [OF assms(1) k assms(3)] walk_inv_pos [OF assms(1,2)] f
    by (simp add: walk_inv_def log_origins_def)
qed

lemma walk_inv_start:
  assumes "finite (dom lg)" "log_ok lg" "k \<in> dom lg" "\<And>k'. k' \<in> dom lg \<Longrightarrow> k \<le> k'" "on_log"
  shows "walk_inv lg (Suc (card (dom lg))) on_log failed [] MDBX_SUCCESS k"
proof -
  have "\<not> x < key_origin k" if x: "x \<in> key_origin ` dom lg" for x
  proof -
    obtain k' where k': "k' \<in> dom lg" "x = key_origin k'" using x by blast
    have "length k = 24" "length k' = 24" using assms(2,3) k'(1) by (simp_all add: log_ok_def)
    from decode_encode_key [OF this(1)] decode_encode_key [OF this(2)] assms(4) [OF k'(1)] k'(2)
      encode_key_le [of "key_origin k" "key_origin k'" "key_seq k" "key_seq k'"]
    show ?thesis by auto
  qed
  then have none: "{x \<in> key_origin ` dom lg. x < key_origin k} = {}" by blast
  have "card {x \<in> key_origin ` dom lg. key_origin k \<le> x} \<le> card (key_origin ` dom lg)"
    using assms(1) by (intro card_mono) auto
  also have "\<dots> \<le> card (dom lg)" using assms(1) by (rule card_image_le)
  finally show ?thesis using assms(3,5) by (simp add: walk_inv_def origins_below_def none)
qed

lemma known_origins_eq:
  assumes "finite (dom ix)"
  shows "known_origins lg ix = (if tails_list ix \<noteq> [] then map (\<lambda>(o', s). make_pull_origin o' (Some s)) (tails_list ix)
    else log_origins lg)"
proof -
  have "tails_list ix = [] \<longleftrightarrow> ix = Map.empty"
    using rows_where_empty [OF assms, of "\<lambda>_. True"] by (auto simp: tails_list_def)
  then show ?thesis by (simp add: known_origins_def log_origins_def)
qed

context mdbx_engine
begin

lemma awp_store_seek:
  assumes "bound st a" "cursor_dbi c = m_dbi st"
    and "\<And>k v c'. content a (m_dbi_name st) k = Some v \<Longrightarrow> admitted (cursor_at c) op k \<Longrightarrow>
      (\<And>k'. k' \<in> dom (content a (m_dbi_name st)) \<Longrightarrow> admitted (cursor_at c) op k' \<Longrightarrow> k \<le> k') \<Longrightarrow>
      cursor_dbi c' = m_dbi st \<Longrightarrow> cursor_at c' = Some k \<Longrightarrow> Q (MDBX_SUCCESS, (k, v), c') a"
    and "\<And>k v c'. (\<And>k'. k' \<in> dom (content a (m_dbi_name st)) \<Longrightarrow> \<not> admitted (cursor_at c) op k') \<Longrightarrow>
      Q (MDBX_NOTFOUND, (k, v), c') a"
    and "\<And>rc k v c'. rc \<noteq> MDBX_SUCCESS \<Longrightarrow> rc \<noteq> MDBX_NOTFOUND \<Longrightarrow> fails rc \<Longrightarrow> Q (rc, (k, v), c') a"
  shows "awp (api_cursor_get M c op) Q E a"
proof (rule awp_wf)
  assume "wf_view a"
  from bound_table [OF assms(1) this] obtain T where T:
    "a_handles a (m_dbi st) = Some (m_dbi_name st)" "a_tables a (m_dbi_name st) = Some T"
    "tflags T = 0" "content a (m_dbi_name st) = rows T" by metis
  show ?thesis
    by (rule awp_cursor_get [OF _ T(2,3)]) (use T assms in auto)
qed

lemma awp_store_cursor:
  assumes "bound st a"
    and "\<And>c. cursor_dbi c = m_dbi st \<Longrightarrow> Q (MDBX_SUCCESS, c) a"
    and "\<And>rc c. rc \<noteq> MDBX_SUCCESS \<Longrightarrow> fails rc \<Longrightarrow> Q (rc, c) a"
  shows "awp (api_cursor_open M (m_dbi st)) Q E a"
  using assms by (intro awp_cursor_open [where n = "m_dbi_name st"]) (auto simp: bound_def)

lemma awp_store_entries:
  assumes "bound st a"
    and "finite (dom (content a (m_dbi_name st))) \<Longrightarrow> Q (card (dom (content a (m_dbi_name st)))) a"
  shows "awp (api_entries M (m_dbi st)) Q E a"
proof (rule awp_wf)
  assume wf: "wf_view a"
  from bound_table [OF assms(1) wf] obtain T where T:
    "a_handles a (m_dbi st) = Some (m_dbi_name st)" "a_tables a (m_dbi_name st) = Some T"
    "single M T" "content a (m_dbi_name st) = rows T" by metis
  moreover from wf T have "finite (dom (rows T))" unfolding wf_view_def by blast
  ultimately show ?thesis using assms(2) by (intro awp_entries [OF T(1-3)]) simp
qed

lemma awp_open_store_ro:
  assumes "openable st a"
    and Q: "\<And>h a'. ext a a' \<Longrightarrow> content a' = content a \<Longrightarrow> bound (st\<lparr>m_dbi := h, m_open := True\<rparr>) a' \<Longrightarrow>
      h \<noteq> 0 \<Longrightarrow> Q h a'"
    and none: "a_tables a (m_dbi_name st) = None \<Longrightarrow> Q 0 a"
    and E: "\<And>c rc. fails rc \<Longrightarrow> E (MdbxException c rc)"
  shows "awp (open_store_ro M (m_dbi_name st)) Q E a"
proof -
  have nz: "awp (ret h) Q E a'" if b: "ext a a'" "content a' = content a"
    "bound (st\<lparr>m_dbi := h, m_open := True\<rparr>) a'" for h a'
  proof (rule awp_wf)
    assume "wf_view a'"
    moreover have "a_handles a' h = Some (m_dbi_name st)" using b(3) by (simp add: bound_def)
    ultimately have "h \<noteq> 0" unfolding wf_view_def by blast
    with b Q show "awp (ret h) Q E a'" by (simp add: awp_ret)
  qed
  show ?thesis
    unfolding open_store_ro_def
  proof (rule awp_bindM, rule awp_open_dbi [OF assms(1)], goal_cases)
    case (2 h a')
    then show ?case by (simp add: check_mdbx_def thenM_def nz)
  next
    case (3 h)
    then show ?case by (simp add: awp_ret none)
  next
    case (5 rc h)
    then show ?case by (auto intro!: awp_thenM awp_check E)
  qed simp_all
qed

lemma awp_applied_scan:
  assumes "bound st a"
    and Q: "Q (applied_cursor_of (content a (m_dbi_name st))) a"
    and E: "\<And>c rc. fails rc \<Longrightarrow> E (MdbxException c rc)"
  shows "awp (bindM (scan_loop M (m_dbi st) MDBX_FIRST ''applied_cursor: cursor open failed''
      (\<lambda>k v cur. ret (applied_row k v cur)) []) (\<lambda>(cur, rc).
      if rc \<noteq> MDBX_SUCCESS \<and> rc \<noteq> MDBX_NOTFOUND
      then thenM (check_mdbx rc ''applied_cursor: cursor walk failed'') (ret cur) else ret cur)) Q E a"
  by (rule awp_bindM, rule awp_store_scan [OF assms(1), where I = "\<lambda>ks cur.
      fold (\<lambda>(k, v). applied_row k v) ks cur = applied_cursor_of (content a (m_dbi_name st))"])
    (auto intro!: awp_ret awp_thenM awp_check simp: E Q applied_cursor_of_def [symmetric])

lemma awp_read_applied_cursor:
  assumes "openable (new_applied_store env) a"
    and Q: "\<And>a'. ext a a' \<Longrightarrow> content a' = content a \<Longrightarrow> Q (applied_cursor_of (content a t_applied)) a'"
    and E: "\<And>c rc. fails rc \<Longrightarrow> E (MdbxException c rc)"
  shows "awp (read_applied_cursor M []) Q E a"
proof -
  let ?st = "new_applied_store env"
  have name: "t_applied = m_dbi_name ?st" by (simp add: new_applied_store_def new_store_def)
  show ?thesis
    unfolding read_applied_cursor_def open_applied_ro_def name
  proof (rule awp_bindM, rule awp_open_store_ro [OF assms(1)], goal_cases)
    case (1 h a')
    have "awp (bindM (scan_loop M (m_dbi (?st\<lparr>m_dbi := h, m_open := True\<rparr>)) MDBX_FIRST
        ''applied_cursor: cursor open failed'' (\<lambda>k v cur. ret (applied_row k v cur)) []) (\<lambda>(cur, rc).
        if rc \<noteq> MDBX_SUCCESS \<and> rc \<noteq> MDBX_NOTFOUND
        then thenM (check_mdbx rc ''applied_cursor: cursor walk failed'') (ret cur) else ret cur)) Q E a'"
      by (rule awp_applied_scan [OF 1(3)]) (use 1(1,2) Q name E in simp_all)
    with 1(4) show ?case by simp
  next
    case 2
    then have "content a t_applied = Map.empty" by (simp add: content_def name)
    with Q [OF ext_refl refl] show ?case by (simp add: awp_ret applied_cursor_of_empty)
  qed (rule E)
qed

lemma awp_changelog_earliest_seq:
  assumes b: "bound (log_at env dbi) a" and lg: "log_ok (content a t_changelog)" and o': "is_node_id origin"
    and Q: "Q (log_first (content a t_changelog) origin) a"
    and E: "\<And>c rc. fails rc \<Longrightarrow> E (MdbxException c rc)"
  shows "awp (changelog_earliest_seq M dbi origin) Q E a"
proof -
  let ?lg = "content a t_changelog"
  have found: "Q (if key_origin k = origin then Some (key_seq k) else None) a"
    if k: "?lg k = Some v" "encode_key origin 0 \<le> k" "\<And>k'. k' \<in> dom ?lg \<Longrightarrow> encode_key origin 0 \<le> k' \<Longrightarrow> k \<le> k'" for k v
  proof (cases "key_origin k = origin")
    case True
    have key: "encode_key origin (key_seq k) = k"
      using decode_encode_key(1) [of k] lg k(1) True unfolding log_ok_def by force
    have "log_first ?lg origin = Some (key_seq k)"
      by (rule log_first_least [where v = v, OF _ o']) (simp_all only: key k(1,3))
    with True Q show ?thesis by simp
  next
    case False
    have key: "encode_key (key_origin k') (key_seq k') = k' \<and> is_node_id (key_origin k')" if "k' \<in> dom ?lg" for k'
      using that lg decode_encode_key unfolding log_ok_def by blast
    have k1: "k \<in> dom ?lg" using k(1) by blast
    have "origin < key_origin k"
      using k(2) False key [OF k1] encode_key_le [OF o', of "key_origin k" 0 "key_seq k"] by force
    then have "key_origin k' \<noteq> origin" if "k' \<in> dom ?lg" "encode_key origin 0 \<le> k'" for k'
      using k(3) [OF that] key [OF that(1)] key [OF k1]
        encode_key_le [of "key_origin k" "key_origin k'" "key_seq k" "key_seq k'"] by force
    then have "log_first ?lg origin = None" by (rule log_first_none [OF lg o'])
    with False Q show ?thesis by simp
  qed
  have none: "Q None a" if "\<And>k'. k' \<in> dom ?lg \<Longrightarrow> \<not> encode_key origin 0 \<le> k'"
    using log_first_none [OF lg o'] that Q by simp
  have len: "?lg k = Some v \<Longrightarrow> length k = 24" for k v using lg by (auto simp: log_ok_def)
  have seek: "awp (api_cursor_get M c (MDBX_SET_RANGE (make_changelog_key origin 0))) (\<lambda>(rc, (k, v), c') a'. a' = a \<and>
     (rc = MDBX_SUCCESS \<and> length k = 24 \<and> Q (if key_origin k = origin then Some (key_seq k) else None) a \<or>
      rc = MDBX_NOTFOUND \<and> Q None a \<or> rc \<noteq> MDBX_SUCCESS \<and> rc \<noteq> MDBX_NOTFOUND \<and> fails rc)) E a"
    if "cursor_dbi c = dbi" for c
    by (rule awp_store_seek [OF b]) (use that found none len in \<open>auto simp: make_changelog_key_eq\<close>)
  have step: "awp (bindM (api_cursor_get M c (MDBX_SET_RANGE (make_changelog_key origin 0))) (\<lambda>(rc, (k, v), c).
     if rc = MDBX_NOTFOUND then ret None
     else thenM (check_mdbx rc ''pull_full: earliest retained cursor get failed'')
     (bindM (changelog_key_matches_origin k origin) (\<lambda>m.
      if \<not> m then ret None
      else bindM (changelog_key_seq k) (\<lambda>s. ret (Some s)))))) Q E a" if "cursor_dbi c = dbi" for c
    by (rule awp_bindM' [OF seek [OF that]])
      (auto intro!: awp_thenM awp_check awp_ret E awp_bindM
        simp: changelog_key_known o' split: if_splits)
  show ?thesis
    unfolding changelog_earliest_seq_def
    by (rule awp_bindM, rule awp_store_cursor [OF b, simplified]) (auto intro!: awp_thenM awp_check step E)
qed

lemma awp_origins_walk:
  assumes b: "bound (log_at env dbi) a" and lg: "log_ok (content a t_changelog)"
    and E: "\<And>c rc. fails rc \<Longrightarrow> E (MdbxException c rc)"
    and fin: "finite (dom (content a t_changelog))"
  shows "walk_inv (content a t_changelog) n (cursor_dbi c = dbi) (fails rc) found rc k \<Longrightarrow>
    awp (origins_walk M n (rc, (k, v), c) found) (\<lambda>(os, rc) a'. a' = a \<and>
      (rc = MDBX_NOTFOUND \<and> os = log_origins (content a t_changelog) \<or>
       rc \<noteq> MDBX_SUCCESS \<and> rc \<noteq> MDBX_NOTFOUND \<and> fails rc)) E a"
proof (induction n arbitrary: rc k v c found)
  case 0
  then show ?case by (simp add: walk_inv_def split: if_splits)
next
  case (Suc n)
  let ?lg = "content a t_changelog" let ?o = "key_origin k"
  let ?R = "\<lambda>(os, rc) a'. a' = a \<and> (rc = MDBX_NOTFOUND \<and> os = log_origins ?lg \<or>
       rc \<noteq> MDBX_SUCCESS \<and> rc \<noteq> MDBX_NOTFOUND \<and> fails rc)"
  let ?found = "found @ [make_pull_origin ?o None]"
  show ?case
  proof (cases "rc = MDBX_SUCCESS")
    case False
    with Suc.prems show ?thesis by (auto intro!: awp_ret simp: walk_inv_def split: if_splits)
  next
    case True
    note inv = Suc.prems [unfolded True]
    have k: "k \<in> dom ?lg" "cursor_dbi c = dbi" using inv by (simp_all add: walk_inv_def)
    have len: "length k' = 24" if "k' \<in> dom ?lg" for k' using lg that by (simp add: log_ok_def)
    have o': "is_node_id ?o" using decode_encode_key(2) [OF len [OF k(1)]] .
    note last = last_key_le [OF len o']
    have bad: "awp (origins_walk M n (rc', (k', v'), c') ?found) ?R E a"
      if "rc' \<noteq> MDBX_SUCCESS" "rc' \<noteq> MDBX_NOTFOUND" "fails rc'" for rc' k' v' c'
      using that walk_inv_pos [OF fin inv] by (intro Suc.IH) (simp add: walk_inv_def)
    have stop: "awp (origins_walk M n (MDBX_NOTFOUND, (k', v'), c') ?found) ?R E a"
      if "\<And>k'. k' \<in> dom ?lg \<Longrightarrow> \<not> ?o < key_origin k'" for k' v' c'
      by (rule Suc.IH) (rule walk_inv_end [OF fin inv that])
    have go: "awp (origins_walk M n (MDBX_SUCCESS, (nk, v'), c') ?found) ?R E a"
      if "nk \<in> dom ?lg" "?o < key_origin nk" "cursor_dbi c' = dbi"
        "\<And>k'. k' \<in> dom ?lg \<Longrightarrow> ?o < key_origin k' \<Longrightarrow> nk \<le> k'" for nk v' c'
      by (rule Suc.IH) (rule walk_inv_next [OF fin lg inv that(1,2,3,4)])
    have step: "awp (bindM (api_cursor_get M c' MDBX_NEXT) (\<lambda>r. origins_walk M n r ?found)) ?R E a"
      if "cursor_dbi c' = dbi" "cursor_at c' = Some (encode_key ?o (- 1))" for c'
    proof (rule awp_bindM, rule awp_store_seek [OF b], goal_cases)
      case (2 nk v' c2)
      then have nk: "nk \<in> dom ?lg" by auto
      have lt: "?o < key_origin nk" using 2(2) that(2) last(2) [OF nk] by simp
      have "nk \<le> k'" if "k' \<in> dom ?lg" "?o < key_origin k'" for k'
        using 2(3) [of k'] that last(2) [OF that(1)] \<open>cursor_at c' = _\<close> by simp
      with nk lt 2(4) show ?case by (intro go) simp_all
    next
      case (3 k' v' c2)
      have "\<not> ?o < key_origin k'" if "k' \<in> dom ?lg" for k'
        using 3 [of k'] that last(2) [OF that] \<open>cursor_at c' = _\<close> by simp
      then show ?case by (rule stop)
    qed (use that bad in simp_all)
    have seek: "awp (bindM (api_cursor_get M c (MDBX_SET_RANGE (encode_key ?o (- 1)))) (\<lambda>(rc', (nk, v'), c').
        if rc' \<noteq> MDBX_SUCCESS then origins_walk M n (rc', (k, v'), c') ?found
        else bindM (changelog_key_origin nk) (\<lambda>o2. if compare_node_id o2 ?o = 0
        then bindM (api_cursor_get M c' MDBX_NEXT) (\<lambda>r. origins_walk M n r ?found)
        else origins_walk M n (rc', (nk, v'), c') ?found))) ?R E a"
    proof (rule awp_bindM, rule awp_store_seek [OF b], goal_cases)
      case (2 nk v' c')
      then have nk: "nk \<in> dom ?lg" by auto
      have le: "?o < key_origin nk \<or> nk = encode_key ?o (- 1)" using 2(2) last(1) [OF nk] by simp
      have cmp: "compare_node_id (key_origin nk) ?o = 0 \<longleftrightarrow> key_origin nk = ?o"
        using len [OF nk] len [OF k(1)] by (intro compare_node_id_eq) simp
      have nxt: "awp (origins_walk M n (MDBX_SUCCESS, (nk, v'), c') ?found) ?R E a" if "key_origin nk \<noteq> ?o"
      proof (rule go [OF nk])
        show "?o < key_origin nk" using le that key_parts(1) [OF o'] by metis
        show "nk \<le> k'" if "k' \<in> dom ?lg" "?o < key_origin k'" for k'
          using 2(3) [of k'] that last(1) [OF that(1)] by simp
      qed (use 2(4) in simp)
      have same: "awp (bindM (api_cursor_get M c' MDBX_NEXT) (\<lambda>r. origins_walk M n r ?found)) ?R E a" if "key_origin nk = ?o"
        using 2(4,5) le that by (intro step) auto
      show ?case
        using nxt same by (cases "key_origin nk = ?o") (simp_all add: changelog_key_known [OF len [OF nk]] cmp compare_node_id_eq)
    next
      case (3 k' v' c')
      have "\<not> ?o < key_origin k'" if "k' \<in> dom ?lg" for k'
        using 3 [of k'] that last(1) [OF that] by simp
      then have "awp (origins_walk M n (MDBX_NOTFOUND, (k, v'), c') ?found) ?R E a" by (rule stop)
      then show ?case by simp
    next
      case (4 rc' k' v' c')
      then show ?case using bad by simp
    qed (simp add: k(2))
    show ?thesis
      unfolding origins_walk.simps True make_changelog_key_eq
      using seek by (simp add: changelog_key_known [OF len [OF k(1)]])
  qed
qed

lemma awp_collect_changelog_origins:
  assumes b: "bound (log_at env dbi) a" and lg: "log_ok (content a t_changelog)"
    and E: "\<And>c rc. fails rc \<Longrightarrow> E (MdbxException c rc)"
    and Q: "Q (log_origins (content a t_changelog)) a"
  shows "awp (collect_changelog_origins M dbi) Q E a"
proof -
  let ?lg = "content a t_changelog" let ?n = "Suc (card (dom ?lg))"
  let ?R = "\<lambda>(os, rc) a'. a' = a \<and> (rc = MDBX_NOTFOUND \<and> os = log_origins ?lg \<or>
       rc \<noteq> MDBX_SUCCESS \<and> rc \<noteq> MDBX_NOTFOUND \<and> fails rc)"
  have walk: "awp (bindM (api_cursor_get M c MDBX_FIRST) (\<lambda>r. origins_walk M ?n r [])) ?R E a"
    if c: "cursor_dbi c = dbi" and fin: "finite (dom ?lg)" for c
  proof (rule awp_bindM, rule awp_store_seek [OF b], goal_cases)
    case (2 k v c')
    then show ?case
      by (intro awp_origins_walk [where E = E, OF b lg E fin] walk_inv_start [OF fin lg]) auto
  next
    case (3 k v c')
    then have "dom ?lg = {}" by auto
    then show ?case
      by (intro awp_origins_walk [where E = E, OF b lg E fin]) (simp_all add: walk_inv_def log_origins_def)
  next
    case (4 rc k v c')
    then show ?case by (intro awp_origins_walk [where E = E, OF b lg E fin]) (simp_all add: walk_inv_def)
  qed (simp add: c)
  have tail: "awp (bindM (bindM (api_cursor_get M c MDBX_FIRST) (\<lambda>r. origins_walk M ?n r [])) (\<lambda>(found_origins, rc).
     if rc \<noteq> MDBX_SUCCESS \<and> rc \<noteq> MDBX_NOTFOUND
     then thenM (check_mdbx rc ''pull_full: origin cursor walk failed'') (ret found_origins)
     else ret found_origins)) Q E a" if "cursor_dbi c = dbi" "finite (dom ?lg)" for c
    by (rule awp_bindM' [OF walk [OF that]]) (auto intro!: awp_thenM awp_check awp_ret E Q)
  show ?thesis
    unfolding collect_changelog_origins_def
  proof (rule awp_bindM, rule awp_store_entries [OF b, simplified])
    assume fin: "finite (dom ?lg)"
    show "awp (bindM (api_cursor_open M dbi) (\<lambda>(rc, c).
     thenM (check_mdbx rc ''pull_full: origin cursor open failed'')
     (bindM (bindM (api_cursor_get M c MDBX_FIRST) (\<lambda>r. origins_walk M ?n r [])) (\<lambda>(found_origins, rc).
     if rc \<noteq> MDBX_SUCCESS \<and> rc \<noteq> MDBX_NOTFOUND
     then thenM (check_mdbx rc ''pull_full: origin cursor walk failed'') (ret found_origins)
     else ret found_origins)))) Q E a"
      by (rule awp_bindM, rule awp_store_cursor [OF b, simplified])
        (auto intro!: awp_thenM awp_check tail [OF _ fin] E)
  qed
qed

lemma awp_collect_known_origins:
  assumes b: "bound (log_at env dbi) a" and lg: "log_ok (content a t_changelog)"
    and ix: "openable (new_origin_store env) a" "index_ok (content a t_origins)"
    and E: "\<And>c rc. fails rc \<Longrightarrow> E (MdbxException c rc)"
    and Q: "\<And>a'. ext a a' \<Longrightarrow> content a' = content a \<Longrightarrow>
      Q (known_origins (content a t_changelog) (content a t_origins)) a'"
  shows "awp (collect_known_origins M env dbi) Q E a"
proof -
  let ?os = "new_origin_store env" let ?ix = "content a t_origins"
  have name: "m_dbi_name ?os = t_origins" by (simp add: new_origin_store_def new_store_def)
  let ?idx = "map (\<lambda>(o', s). make_pull_origin o' (Some s)) (tails_list ?ix)"
  have indexed: "awp (collect_indexed_origins M env) (\<lambda>r a'. ext a a' \<and> content a' = content a \<and> r = ?idx) E a"
    unfolding collect_indexed_origins_def origins_open_existing_def
  proof (rule awp_bindM, rule awp_open_existing [OF ix(1)], goal_cases)
    case (1 st' a')
    then have nm: "m_dbi_name st' = t_origins" using name by (simp add: same_store_def)
    show ?case
      using 1 ix(2) nm E by (auto intro!: awp_bindM awp_origin_tails awp_ret)
  next
    case 2
    then have "?ix = Map.empty" by (simp add: content_def name)
    then show ?case by (simp add: awp_ret tails_list_def rows_where_def)
  qed (rule E)
  have fin: "awp m Q E a" if "finite (dom ?ix) \<Longrightarrow> awp m Q E a" for m
  proof (rule awp_wf)
    assume "wf_view a"
    then have "finite (dom ?ix)" by (auto simp: content_def wf_view_def split: option.splits)
    then show "awp m Q E a" by (rule that)
  qed
  show ?thesis
  proof (rule fin)
    assume fin: "finite (dom ?ix)"
    note ko = known_origins_eq [OF fin, of "content a t_changelog"]
    show "awp (collect_known_origins M env dbi) Q E a"
      unfolding collect_known_origins_def
    proof (rule awp_bindM' [OF indexed], elim conjE)
      fix r a' assume a': "ext a a'" "content a' = content a" "r = ?idx"
      show "awp (if r \<noteq> [] then ret r else collect_changelog_origins M dbi) Q E a'"
      proof (cases "tails_list ?ix = []")
        case True
        have "awp (collect_changelog_origins M dbi) Q E a'"
          using Q [OF a'(1,2)] ko True a'(2) lg
          by (intro awp_collect_changelog_origins [where E = E, OF bound_ext [OF b a'(1)] _ E]) simp_all
        with True a'(3) show ?thesis by simp
      next
        case False
        then show ?thesis using Q [OF a'(1,2)] ko a'(3) by (simp add: awp_ret)
      qed
    qed
  qed
qed

end

end
