(* ===== verification/Pull_Page.thy ===== *)
theory Pull_Page
  imports Pull_Refinement
begin

text \<open>
  One page of a pull: the loop over the entries of an origin, the loops over the origins and
  \<open>pull_changelog_page\<close> itself compute \<open>page_spec\<close>.
\<close>

section \<open>Filling a page\<close>

lemma fill_page_append:
  "fill_page request (xs @ ys) bs tot = (case fill_page request xs bs tot of (bs', tot', e) \<Rightarrow>
     if e = Complete then fill_page request ys bs' tot' else (bs', tot', e))"
  by (induction request xs bs tot rule: fill_page.induct) auto

text \<open>What \<open>pull_origin_batches\<close> returns: whether the page ended, the response, and the bytes so far.\<close>

definition origin_result ::
  "pull_request \<Rightarrow> pull_response \<Rightarrow> change_batch list \<times> nat \<times> page_end \<Rightarrow> bool \<times> pull_response \<times> nat" where
  "origin_result request out r = (case r of (bs, tot, e) \<Rightarrow> (case e of
       Complete \<Rightarrow> (False, out\<lparr>pull_batches := bs\<rparr>, tot)
     | PageFull \<Rightarrow> (True, out\<lparr>pull_batches := bs\<rparr>, tot)
     | TooLarge sq n \<Rightarrow> (True, set_batch_too_large out sq (word_of_nat n) (max_single_batch_bytes request), tot)))"

definition sized :: "bytes \<times> bytes \<Rightarrow> change_batch \<times> nat" where
  "sized kv = (batch_of (snd kv), length (snd kv))"

lemma pending_sized: "pending lg origin s = map sized (pending_rows lg origin s)"
  by (simp add: pending_def sized_def)

lemma pending_top: "pending lg origin (- 1) = []"
  by (simp add: pending_def pending_rows_def word_order.extremum_strict)

lemma too_large_batches: "set_batch_too_large (out\<lparr>pull_batches := bs\<rparr>) = set_batch_too_large out"
  by (simp add: fun_eq_iff set_batch_too_large_def)

text \<open>The three stores a responder reads, in the state their own operations keep them in.\<close>

definition pull_ready :: "nat \<Rightarrow> nat \<Rightarrow> adb \<Rightarrow> bool" where
  "pull_ready env dbi a \<longleftrightarrow> bound (log_at env dbi) a \<and> a_env a = env \<and>
     log_ok (content a t_changelog) \<and> log_faithful (content a t_changelog) \<and> index_ok (content a t_origins)"

lemma known_origins_node:
  assumes "finite (dom lg)" "finite (dom ix)" "log_ok lg" "index_ok ix" "po \<in> set (known_origins lg ix)"
  shows "is_node_id (po_origin po)"
proof -
  have A: "is_node_id o'" if "(o', s) \<in> set (tails_list ix)" for o' s
    using that assms(2,4) by (auto simp: tails_list_def index_ok_def is_node_id_def set_rows_where)
  have B: "is_node_id (key_origin k)" if "k \<in> dom lg" for k
    using that assms(3) by (simp add: log_ok_def is_node_id_def)
  show ?thesis
  proof (cases "ix = Map.empty")
    case True
    with assms(1,5) show ?thesis by (auto simp: known_origins_def make_pull_origin_def intro!: B)
  next
    case False
    with assms(5) A show ?thesis by (auto simp: known_origins_def make_pull_origin_def)
  qed
qed

context mdbx_engine
begin

lemma awp_pull_body:
  assumes lg: "log_ok lg" "log_faithful lg" "lg k = Some v" and o': "is_node_id origin"
    and brk: "\<And>acc. (snd (snd acc), fst acc, fst (snd acc)) = origin_result request out
        (fill_page request (map sized (takeWhile (\<lambda>kv. key_origin (fst kv) = origin) ((k, v) # rest))) bs tot) \<Longrightarrow>
      Q (Break acc MDBX_SUCCESS) a"
    and cont: "fill_page request (map sized (takeWhile (\<lambda>kv. key_origin (fst kv) = origin) ((k, v) # rest))) bs tot =
        fill_page request (map sized (takeWhile (\<lambda>kv. key_origin (fst kv) = origin) rest)) (bs @ [batch_of v]) (tot + length v) \<Longrightarrow>
      Q (Continue (out\<lparr>pull_batches := bs @ [batch_of v]\<rparr>, tot + length v, False) c) a"
  shows "awp (pull_body origin request k v c (out\<lparr>pull_batches := bs\<rparr>, tot, b)) Q E a"
proof -
  have len: "length k = 24" using lg by (auto simp: log_ok_def)
  note key = changelog_key_known [OF len] changelog_key_known(3) [OF len o']
  have bt: "decode_exact v None = Inr (batch_of v)" "origin_node_id (batch_of v) = key_origin k" "seq (batch_of v) = key_seq k"
    using log_faithfulD [OF lg(2,3)] by simp_all
  show ?thesis
  proof (cases "key_origin k = origin")
    case False
    then show ?thesis
      by (simp add: pull_body_def key awp_ret brk origin_result_def)
  next
    case True
    note def = pull_body_def key bt liftE_def sized_def origin_result_def compare_node_id_eq too_large_batches True
    consider (full) "unat (max_batches request) \<le> length bs \<or> unat (max_bytes request) \<le> tot"
      | (big) "\<not> (unat (max_batches request) \<le> length bs \<or> unat (max_bytes request) \<le> tot)"
          "unat (max_single_batch_bytes request) < length v"
      | (fits) "\<not> (unat (max_batches request) \<le> length bs \<or> unat (max_bytes request) \<le> tot)"
          "\<not> unat (max_single_batch_bytes request) < length v"
      by blast
    then show ?thesis
      by cases (use brk cont in \<open>simp_all add: def awp_ret\<close>)
  qed
qed

lemma awp_pull_origin_batches:
  assumes b: "bound (log_at env dbi) a" and lg: "log_ok (content a t_changelog)" "log_faithful (content a t_changelog)"
    and o': "is_node_id origin"
    and E: "\<And>c rc. fails rc \<Longrightarrow> E (MdbxException c rc)"
    and Q: "Q (origin_result request out (fill_page request
      (pending (content a t_changelog) origin (last_seq_for (have_cursor request) origin)) bs tot)) a"
  shows "awp (pull_origin_batches M dbi origin request (out\<lparr>pull_batches := bs\<rparr>) tot) Q E a"
proof -
  let ?lg = "content a t_changelog" let ?s = "last_seq_for (have_cursor request) origin"
  let ?fill = "\<lambda>ks. fill_page request (map sized (takeWhile (\<lambda>kv. key_origin (fst kv) = origin) ks))"
  let ?goal = "fill_page request (pending ?lg origin ?s) bs tot"
  let ?I = "\<lambda>ks (acc :: pull_response \<times> nat \<times> bool) a'. a' = a \<and> \<not> snd (snd acc) \<and>
    (\<exists>bs'. fst acc = out\<lparr>pull_batches := bs'\<rparr> \<and> ?fill ks bs' (fst (snd acc)) = ?goal)"
  let ?R = "\<lambda>((out', tot', stopped), rc) a'. a' = a \<and>
    ((rc = MDBX_SUCCESS \<or> rc = MDBX_NOTFOUND) \<and> (stopped, out', tot') = origin_result request out ?goal \<or>
     rc \<noteq> MDBX_SUCCESS \<and> rc \<noteq> MDBX_NOTFOUND \<and> \<not> stopped \<and> fails rc)"
  have loop: "awp (bindM (api_cursor_get M c (MDBX_SET_RANGE (encode_key origin (?s + 1)))) (\<lambda>r.
      cursor_loop M (Suc (card (dom ?lg))) (pull_body origin request) r (out\<lparr>pull_batches := bs\<rparr>, tot, False))) ?R E a"
    if wf: "wf_view a" and fin: "finite (dom ?lg)" and c: "cursor_dbi c = dbi" and s: "?s \<noteq> - 1" for c
  proof (rule awp_cursor_loop [where I = ?I and n = t_changelog and h = dbi and
        ks = "rows_where (\<lambda>k. encode_key origin (?s + 1) \<le> k) ?lg"], goal_cases)
    case (1 ks acc a')
    then show ?case using bound_table [OF b wf] by (metis log_at_simps)
  next
    case (2 k v rest c acc a')
    then obtain bs' where acc: "acc = (out\<lparr>pull_batches := bs'\<rparr>, fst (snd acc), False)" "a' = a"
      "?fill ((k, v) # rest) bs' (fst (snd acc)) = ?goal" by (cases acc) auto
    have "awp (pull_body origin request k v c (out\<lparr>pull_batches := bs'\<rparr>, fst (snd acc), False)) (\<lambda>l a'. case l of
        Continue acc' c' \<Rightarrow> cursor_dbi c' = dbi \<and> cursor_at c' = Some k \<and> ?I rest acc' a' \<and>
            rest = rows_where (\<lambda>k'. k < k') (content a' t_changelog)
      | Break acc' rc \<Rightarrow> ?R (acc', rc) a') E a"
    proof (rule awp_pull_body [where rest = rest, OF lg _ o'], goal_cases)
      case 1
      show ?case using 2(4) acc(2) by simp
    next
      case (2 acc')
      with acc(3) show ?case by (cases acc') simp
    next
      case 3
      with acc(3) have "?fill rest (bs' @ [batch_of v]) (fst (snd acc) + length v) = ?goal" by simp
      with 2(2,3,5) acc(2) show ?case by auto
    qed
    then show ?case using acc(1,2) by simp
  next
    case (3 acc a')
    then obtain bs' where "acc = (out\<lparr>pull_batches := bs'\<rparr>, fst (snd acc), False)" "a' = a"
      "?goal = (bs', fst (snd acc), Complete)" by (cases acc) auto
    then show ?case by (cases acc) (simp add: origin_result_def)
  next
    case (4 ks acc a' rc)
    then show ?case by (cases acc) auto
  next
    case 5
    show ?case using pending_takeWhile [OF fin lg(1) o' s] by (auto simp: pending_sized)
  qed (use c length_rows_where [OF fin] in \<open>auto simp: less_Suc_eq_le\<close>)
  show ?thesis
  proof (cases "?s = - 1")
    case True
    with Q show ?thesis
      by (simp add: pull_origin_batches_def pending_top origin_result_def awp_ret)
  next
    case False
    have body: "awp (bindM (bindM (api_cursor_get M c (MDBX_SET_RANGE (make_changelog_key origin (?s + 1)))) (\<lambda>r.
        cursor_loop M (Suc (card (dom ?lg))) (pull_body origin request) r (out\<lparr>pull_batches := bs\<rparr>, tot, False)))
      (\<lambda>((out, total_bytes, stopped), rc).
      if stopped then ret (True, out, total_bytes)
      else if rc \<noteq> MDBX_SUCCESS \<and> rc \<noteq> MDBX_NOTFOUND
      then thenM (check_mdbx rc ''pull_full: origin batch cursor walk failed'') (ret (False, out, total_bytes))
      else ret (False, out, total_bytes))) Q E a" if "wf_view a" "finite (dom ?lg)" "cursor_dbi c = dbi" for c
      unfolding make_changelog_key_eq
      by (rule awp_bindM' [OF loop [OF that False]]) (use Q in \<open>auto intro!: awp_ret awp_thenM awp_check E\<close>)
    show ?thesis
    proof (rule awp_wf)
      assume wf: "wf_view a"
      show "awp (pull_origin_batches M dbi origin request (out\<lparr>pull_batches := bs\<rparr>) tot) Q E a"
        unfolding pull_origin_batches_def Let_def if_not_P [OF False]
      proof (rule awp_bindM, rule awp_store_entries [OF b, simplified], rule awp_bindM,
          rule awp_store_cursor [OF b, simplified], goal_cases)
        case (1 c)
        then show ?case using body [OF wf] by (simp add: thenM_def check_mdbx_def)
      next
        case (2 rc c)
        then show ?case by (auto intro!: awp_thenM awp_check E)
      qed
    qed
  qed
qed

lemma awp_request_has_retained_start:
  assumes b: "bound (log_at env dbi) a" and lg: "log_ok (content a t_changelog)"
    and o': "is_node_id (po_origin po)"
    and E: "\<And>c rc. fails rc \<Longrightarrow> E (MdbxException c rc)"
    and Q: "Q (if retained (content a t_changelog) request po then (True, out)
      else (False, set_snapshot_required out po (last_seq_for (have_cursor request) (po_origin po))
         (log_first (content a t_changelog) (po_origin po) \<noteq> None)
         (case log_first (content a t_changelog) (po_origin po) of None \<Rightarrow> 0 | Some e \<Rightarrow> e))) a"
  shows "awp (request_has_retained_start M dbi po request out) Q E a"
proof (cases "origin_is_at_tail po request \<or> last_seq_for (have_cursor request) (po_origin po) = - 1")
  case True
  with Q show ?thesis by (auto simp: request_has_retained_start_def retained_def awp_ret)
next
  case False
  show ?thesis
    using False Q unfolding request_has_retained_start_def Let_def
    by (auto intro!: awp_bindM awp_changelog_earliest_seq [where E = E, OF b lg o' _ E] simp: retained_def awp_ret split: option.splits)
qed

lemma awp_check_starts:
  assumes b: "bound (log_at env dbi) a" and lg: "log_ok (content a t_changelog)"
    and E: "\<And>c rc. fails rc \<Longrightarrow> E (MdbxException c rc)"
  shows "(\<And>po. po \<in> set os \<Longrightarrow> is_node_id (po_origin po)) \<Longrightarrow>
    Q (case find (\<lambda>po. \<not> retained (content a t_changelog) request po) os of
       Some po \<Rightarrow> (False, set_snapshot_required out po (last_seq_for (have_cursor request) (po_origin po))
         (log_first (content a t_changelog) (po_origin po) \<noteq> None)
         (case log_first (content a t_changelog) (po_origin po) of None \<Rightarrow> 0 | Some e \<Rightarrow> e))
     | None \<Rightarrow> (True, out)) a \<Longrightarrow>
    awp (check_starts M dbi request os out) Q E a"
proof (induction os)
  case Nil
  then show ?case by (simp add: awp_ret)
next
  case (Cons po os)
  have o': "is_node_id (po_origin po)" using Cons.prems(1) by simp
  show ?case
    unfolding check_starts.simps
    by (intro awp_bindM awp_request_has_retained_start [where E = E, OF b lg o' E])
      (use Cons in \<open>auto simp: awp_ret\<close>)
qed

lemma awp_pull_origins:
  assumes b: "bound (log_at env dbi) a" and lg: "log_ok (content a t_changelog)" "log_faithful (content a t_changelog)"
    and E: "\<And>c rc. fails rc \<Longrightarrow> E (MdbxException c rc)" and good: "pull_ok out"
  shows "(\<And>po. po \<in> set os \<Longrightarrow> is_node_id (po_origin po)) \<Longrightarrow>
    Q (page_result request out (fill_page request (due (content a t_changelog) request os) bs tot)) a \<Longrightarrow>
    awp (pull_origins M dbi request os (out\<lparr>pull_batches := bs\<rparr>) tot) Q E a"
proof (induction os arbitrary: bs tot)
  case Nil
  then show ?case by (simp add: awp_ret due_def page_result_def)
next
  case (Cons po os)
  let ?lg = "content a t_changelog" let ?s = "last_seq_for (have_cursor request) (po_origin po)"
  have o': "is_node_id (po_origin po)" and IH: "Q (page_result request out (fill_page request (due ?lg request os) bs' tot')) a \<Longrightarrow>
    awp (pull_origins M dbi request os (out\<lparr>pull_batches := bs'\<rparr>) tot') Q E a" for bs' tot'
    using Cons.prems(1) Cons.IH by simp_all
  show ?case
  proof (cases "origin_is_at_tail po request")
    case True
    with Cons.prems(2) IH show ?thesis by (simp add: due_def)
  next
    case False
    obtain bs' tot' e where r: "fill_page request (pending ?lg (po_origin po) ?s) bs tot = (bs', tot', e)"
      by (metis prod.exhaust)
    have d: "due ?lg request (po # os) = pending ?lg (po_origin po) ?s @ due ?lg request os"
      using False by (simp add: due_def)
    have Q: "Q (page_result request out (if e = Complete then fill_page request (due ?lg request os) bs' tot' else (bs', tot', e))) a"
      using Cons.prems(2) by (simp add: d fill_page_append r)
    have cont: "awp (case origin_result request out (fill_page request (pending ?lg (po_origin po) ?s) bs tot) of (stopped, out, total_bytes) \<Rightarrow>
       if stopped then (if \<not> pull_ok out then ret out else ret (out\<lparr>has_more := True\<rparr>))
       else pull_origins M dbi request os out total_bytes) Q E a"
      unfolding r using Q IH good by (cases e) (simp_all add: origin_result_def page_result_def set_batch_too_large_def awp_ret)
    have "awp (bindM (pull_origin_batches M dbi (po_origin po) request (out\<lparr>pull_batches := bs\<rparr>) tot)
       (\<lambda>(stopped, out, total_bytes).
       if stopped then (if \<not> pull_ok out then ret out else ret (out\<lparr>has_more := True\<rparr>))
       else pull_origins M dbi request os out total_bytes)) Q E a"
      by (rule awp_bindM, rule awp_pull_origin_batches [where E = E, OF b lg o' E]) (assumption | rule cont)+
    with False show ?thesis by simp
  qed
qed

lemma awp_pull_changelog_page:
  assumes ready: "pull_ready env dbi a" and full: "\<not> request_full_snapshot request"
    and E: "\<And>c rc. fails rc \<Longrightarrow> E (MdbxException c rc)"
    and Q: "\<And>a'. ext a a' \<Longrightarrow> content a' = content a \<Longrightarrow>
      Q (page_spec (content a t_changelog) (content a t_origins) (content a t_applied) request) a'"
  shows "awp (pull_changelog_page M env dbi request) Q E a"
proof (rule awp_wf)
  assume wf: "wf_view a"
  let ?lg = "content a t_changelog" let ?ix = "content a t_origins" let ?os = "known_origins ?lg ?ix"
  have b: "bound (log_at env dbi) a" and env: "a_env a = env" and lg: "log_ok ?lg" "log_faithful ?lg" and ix: "index_ok ?ix"
    using ready by (simp_all add: pull_ready_def)
  have sys: "sys_ok a" using b by (simp add: bound_def)
  have op: "openable (new_applied_store env) a" "openable (new_origin_store env) a"
    using sys env by (simp_all add: openable_def new_applied_store_def new_origin_store_def new_store_def is_reserved_iff)
  have fin: "finite (dom (content a n))" for n
    using wf by (auto simp: content_def wf_view_def split: option.splits)
  have node: "is_node_id (po_origin po)" if "po \<in> set ?os" for po
    using known_origins_node [OF fin fin lg(1) ix that] .
  obtain known rt where kt: "copy_known_tail ?os [] = (known, rt)" by fastforce
  let ?out = "new_pull_response\<lparr>remote_have := applied_cursor_of (content a t_applied), remote_tail := rt, remote_tail_known := known\<rparr>"
  have page: "awp (bindM (check_starts M dbi request ?os ?out) (\<lambda>(good, out).
      if \<not> good then ret out else pull_origins M dbi request ?os out 0)) Q E a2"
    if a2: "ext a a2" "content a2 = content a" for a2
  proof -
    have b2: "bound (log_at env dbi) a2" using b a2(1) by (rule bound_ext)
    have lg2: "log_ok (content a2 t_changelog)" "log_faithful (content a2 t_changelog)" using lg a2(2) by simp_all
    have eta: "?out = ?out\<lparr>pull_batches := []\<rparr>" by (simp add: new_pull_response_def)
    have spec: "page_spec ?lg ?ix (content a t_applied) request =
      (case find (\<lambda>po. \<not> retained ?lg request po) ?os of
       Some po \<Rightarrow> set_snapshot_required ?out po (last_seq_for (have_cursor request) (po_origin po))
         (log_first ?lg (po_origin po) \<noteq> None) (case log_first ?lg (po_origin po) of None \<Rightarrow> 0 | Some e \<Rightarrow> e)
     | None \<Rightarrow> page_result request ?out (fill_page request (due ?lg request ?os) [] 0))"
      by (simp add: page_spec_def kt Let_def)
    have fill: "awp (pull_origins M dbi request ?os ?out 0) Q E a2" if "find (\<lambda>po. \<not> retained ?lg request po) ?os = None"
      by (subst eta, rule awp_pull_origins [where E = E, OF b2 lg2 E _ node])
        (use Q [OF a2] that spec a2(2) in \<open>simp_all add: new_pull_response_def\<close>)
    show ?thesis
      by (intro awp_bindM awp_check_starts [where E = E, OF b2 lg2(1) E node])
        (use Q [OF a2] spec fill a2(2) in \<open>auto simp: awp_ret split: option.splits\<close>)
  qed
  have origins: "awp (bindM (collect_known_origins M env dbi) (\<lambda>found_origins.
      case copy_known_tail found_origins (remote_tail new_pull_response) of (known, rt) \<Rightarrow>
      bindM (check_starts M dbi request found_origins
        (new_pull_response\<lparr>remote_have := applied_cursor_of (content a t_applied), remote_tail := rt, remote_tail_known := known\<rparr>)) (\<lambda>(good, out).
      if \<not> good then ret out else pull_origins M dbi request found_origins out 0))) Q E a1"
    if a1: "ext a a1" "content a1 = content a" for a1
  proof (rule awp_bindM, rule awp_collect_known_origins [where E = E], goal_cases)
    case (6 a2)
    have [simp]: "remote_tail new_pull_response = []" by (simp add: new_pull_response_def)
    show ?case
      using page [OF ext_trans [OF a1(1) 6(1)]] 6(2) unfolding a1(2) by (simp add: kt)
  qed (use bound_ext [OF b a1(1)] openable_ext [OF op(2) a1(1)] a1(2) lg ix E in simp_all)
  have rh: "remote_have new_pull_response = []" by (simp add: new_pull_response_def)
  show "awp (pull_changelog_page M env dbi request) Q E a"
    unfolding pull_changelog_page_def Let_def if_not_P [OF full] rh
    by (rule awp_thenM, rule awp_checked_txn_env, rule awp_bindM, rule awp_read_applied_cursor [OF op(1)])
      (use origins E env in \<open>simp_all\<close>)
qed

end

end
