(* ===== verification/Pull_Lemmas.thy ===== *)
theory Pull_Lemmas
  imports Pull_Page
begin

text \<open>
  What a requester can rely on: pages are gap-free, a page that reports no more is the last one, and
  a requester that keeps pulling gets everything.
\<close>

section \<open>Filling a page takes a prefix\<close>

lemma fill_page_take:
  "\<exists>n \<le> length xs. fst (fill_page request xs bs tot) = bs @ map fst (take n xs) \<and>
     (snd (snd (fill_page request xs bs tot)) = Complete \<longleftrightarrow> n = length xs)"
proof (induction request xs bs tot rule: fill_page.induct)
  case (2 request batch n rest bs tot)
  show ?case
  proof (cases "length bs \<ge> unat (max_batches request) \<or> tot \<ge> unat (max_bytes request) \<or>
      n > unat (max_single_batch_bytes request)")
    case True
    then show ?thesis by (intro exI [of _ 0]) auto
  next
    case False
    with 2 obtain m where "m \<le> length rest" "fst (fill_page request rest (bs @ [batch]) (tot + n)) = (bs @ [batch]) @ map fst (take m rest)"
      "snd (snd (fill_page request rest (bs @ [batch]) (tot + n))) = Complete \<longleftrightarrow> m = length rest" by auto
    with False show ?thesis by (intro exI [of _ "Suc m"]) simp
  qed
qed simp

lemma fill_page_progress:
  assumes "max_batches request \<noteq> 0" "max_bytes request \<noteq> 0" "snd (snd (fill_page request xs [] 0)) = PageFull"
  shows "fst (fill_page request xs [] 0) \<noteq> []"
proof (cases xs)
  case (Cons x rest)
  obtain batch n where x: "x = (batch, n)" by (cases x)
  have "0 < unat (max_batches request)" "0 < unat (max_bytes request)"
    using assms(1,2) by (simp_all add: unat_gt_0)
  with assms(3) show ?thesis
    using fill_page_take [of rest request "[batch]" n] by (auto simp: Cons x split: if_splits)
qed (use assms in simp)

lemma fill_page_fits:
  "\<forall>x \<in> set xs. snd x \<le> unat (max_single_batch_bytes request) \<Longrightarrow>
     snd (snd (fill_page request xs bs tot)) \<noteq> TooLarge sq m"
  by (induction request xs bs tot rule: fill_page.induct) auto

section \<open>The entries that are due\<close>

definition pull_log :: "(bytes \<rightharpoonup> bytes) \<Rightarrow> (bytes \<rightharpoonup> bytes) \<Rightarrow> bool" where
  "pull_log lg ix \<longleftrightarrow> finite (dom lg) \<and> finite (dom ix) \<and> log_inv lg ix \<and> log_faithful lg"

lemma pending_seqs:
  assumes "finite (dom lg)" "log_ok lg" "log_faithful lg"
  shows "sorted_wrt (<) (map (\<lambda>p. seq (fst p)) (pending lg origin s))"
    and "p \<in> set (pending lg origin s) \<Longrightarrow> origin_node_id (fst p) = origin \<and> s < seq (fst p) \<and>
      (\<exists>v. log_entry lg origin (seq (fst p)) = Some v \<and> p = (batch_of v, length v))"
    and "is_node_id origin \<Longrightarrow> s < s' \<Longrightarrow> log_entry lg origin s' = Some v \<Longrightarrow> (batch_of v, length v) \<in> set (pending lg origin s)"
proof -
  let ?rs = "pending_rows lg origin s"
  have rs: "set ?rs = {(k, v). lg k = Some v \<and> key_origin k = origin \<and> s < key_seq k}"
    by (simp add: pending_rows_eq [OF assms(1)] set_rows_where [OF assms(1)])
  have key: "encode_key origin (key_seq k) = k \<and> is_node_id origin" if "(k, v) \<in> set ?rs" for k v
    using that rs assms(2) decode_encode_key [of k] unfolding log_ok_def by auto
  have bt: "seq (batch_of v) = key_seq k" "origin_node_id (batch_of v) = key_origin k" if "(k, v) \<in> set ?rs" for k v
    using that rs log_faithfulD [OF assms(3)] by auto
  have lt: "sorted_wrt (<) (map fst ?rs)"
    using sorted_rows_where [OF assms(1)] distinct_rows_where [OF assms(1)]
    by (simp add: pending_rows_eq [OF assms(1)] strict_sorted_iff)
  have "sorted_wrt (\<lambda>x y. seq (batch_of (snd x)) < seq (batch_of (snd y))) ?rs"
  proof (rule sorted_wrt_mono_rel [rotated])
    show "sorted_wrt (\<lambda>x y. fst x < fst y) ?rs" using lt by (simp add: sorted_wrt_map)
    fix x y
    assume xy: "x \<in> set ?rs" "y \<in> set ?rs" "fst x < fst y"
    have "encode_key origin (key_seq (fst x)) = fst x" "encode_key origin (key_seq (fst y)) = fst y" "is_node_id origin"
      using key [of "fst x" "snd x"] key [of "fst y" "snd y"] xy(1,2) by simp_all
    with xy(3) have "key_seq (fst x) < key_seq (fst y)" by (metis encode_key_less order.irrefl)
    then show "seq (batch_of (snd x)) < seq (batch_of (snd y))"
      using bt(1) [of "fst x" "snd x"] bt(1) [of "fst y" "snd y"] xy(1,2) by simp
  qed
  then show "sorted_wrt (<) (map (\<lambda>p. seq (fst p)) (pending lg origin s))"
    by (simp add: pending_def sorted_wrt_map comp_def)
  show "origin_node_id (fst p) = origin \<and> s < seq (fst p) \<and>
      (\<exists>v. log_entry lg origin (seq (fst p)) = Some v \<and> p = (batch_of v, length v))"
    if "p \<in> set (pending lg origin s)"
  proof -
    from that obtain k v where kv: "(k, v) \<in> set ?rs" "p = (batch_of v, length v)" by (auto simp: pending_def)
    then show ?thesis using bt [OF kv(1)] key [OF kv(1)] rs by (auto simp: log_entry_def)
  qed
  show "(batch_of v, length v) \<in> set (pending lg origin s)"
    if "is_node_id origin" "s < s'" "log_entry lg origin s' = Some v"
  proof -
    have "(encode_key origin s', v) \<in> set ?rs"
      using that rs key_parts [OF that(1)] by (simp add: log_entry_def)
    then show ?thesis by (force simp: pending_def)
  qed
qed

lemma pending_later:
  assumes "finite (dom lg)" "log_ok lg" "log_faithful lg" "s \<le> s'"
  shows "pending lg origin s' = filter (\<lambda>p. s' < seq (fst p)) (pending lg origin s)"
proof -
  have bt: "seq (batch_of v) = key_seq k" if "(k, v) \<in> set (rows_where (\<lambda>_. True) lg)" for k v
    using that set_rows_where [OF assms(1)] log_faithfulD [OF assms(3)] by auto
  have "pending_rows lg origin s' = filter (\<lambda>kv. s' < seq (batch_of (snd kv))) (pending_rows lg origin s)"
    unfolding pending_rows_def filter_filter using bt assms(4) by (intro filter_cong) auto
  then show ?thesis by (simp add: pending_def filter_map comp_def)
qed

lemma pending_tl:
  assumes "finite (dom lg)" "log_ok lg" "log_faithful lg" "pending lg origin s = x # rest"
  shows "pending lg origin (seq (fst x)) = rest"
proof -
  have st: "sorted_wrt (<) (map (\<lambda>p. seq (fst p)) (x # rest))" and "s < seq (fst x)"
    using pending_seqs(1) [OF assms(1-3), of origin s] pending_seqs(2) [OF assms(1-3), of x origin s]
    unfolding assms(4) by simp_all
  have "pending lg origin (seq (fst x)) = filter (\<lambda>p. seq (fst x) < seq (fst p)) (x # rest)"
    using pending_later [OF assms(1-3), of s "seq (fst x)" origin] \<open>s < seq (fst x)\<close> assms(4) by simp
  also have "\<dots> = rest" using st by (simp add: filter_id_conv)
  finally show ?thesis .
qed

text \<open>A requester's cursor once it has the batches of a page, and what is then still due.\<close>

definition advance :: "sync_cursor \<Rightarrow> change_batch list \<Rightarrow> sync_cursor" where
  "advance cur bs = fold (\<lambda>b. map_set (origin_node_id b) (seq b)) bs cur"

definition dues :: "(bytes \<rightharpoonup> bytes) \<Rightarrow> sync_cursor \<Rightarrow> node_id list \<Rightarrow> (change_batch \<times> nat) list" where
  "dues lg cur os = concat (map (\<lambda>o'. pending lg o' (last_seq_for cur o')) os)"

lemma last_seq_for_set [simp]: "last_seq_for (map_set o' s cur) o1 = (if o1 = o' then s else last_seq_for cur o1)"
  by (simp add: last_seq_for_def)

lemma dues_other:
  assumes "o' \<notin> set os"
  shows "dues lg (map_set o' s cur) os = dues lg cur os"
proof -
  have "map (\<lambda>o1. pending lg o1 (last_seq_for (map_set o' s cur) o1)) os = map (\<lambda>o1. pending lg o1 (last_seq_for cur o1)) os"
    using assms by (intro map_cong refl) auto
  then show ?thesis unfolding dues_def by (simp only:)
qed

lemma dues_origin:
  assumes "finite (dom lg)" "log_ok lg" "log_faithful lg" "p \<in> set (dues lg cur os)"
  shows "origin_node_id (fst p) \<in> set os" "last_seq_for cur (origin_node_id (fst p)) < seq (fst p)"
proof -
  from assms(4) obtain o' where "o' \<in> set os" "p \<in> set (pending lg o' (last_seq_for cur o'))"
    by (auto simp: dues_def)
  with pending_seqs(2) [OF assms(1-3) this(2)]
  show "origin_node_id (fst p) \<in> set os" "last_seq_for cur (origin_node_id (fst p)) < seq (fst p)" by auto
qed

lemma dues_step:
  assumes "finite (dom lg)" "log_ok lg" "log_faithful lg" "distinct os" "dues lg cur os = x # rest"
  shows "dues lg (map_set (origin_node_id (fst x)) (seq (fst x)) cur) os = rest"
  using assms(4,5)
proof (induction os)
  case (Cons o' os)
  show ?case
  proof (cases "pending lg o' (last_seq_for cur o')")
    case Nil
    with Cons.prems have d: "dues lg cur os = x # rest" by (simp add: dues_def)
    then have "origin_node_id (fst x) \<noteq> o'"
      using dues_origin(1) [OF assms(1-3), of x cur os] Cons.prems(1) by auto
    with Nil Cons d show ?thesis by (auto simp: dues_def)
  next
    case (Cons y ys)
    with Cons.prems have x: "x = y" "rest = ys @ dues lg cur os" by (simp_all add: dues_def)
    have "origin_node_id (fst x) = o'"
      using pending_seqs(2) [OF assms(1-3), of x o' "last_seq_for cur o'"] Cons x(1) by simp
    moreover have "pending lg o' (seq (fst x)) = ys" using pending_tl [OF assms(1-3) Cons] x(1) by simp
    ultimately show ?thesis
      using x Cons.prems(1) dues_other [of o' os lg "seq (fst x)" cur] by (simp add: dues_def)
  qed
qed (simp add: dues_def)

lemma dues_advance:
  assumes "finite (dom lg)" "log_ok lg" "log_faithful lg" "distinct os"
  shows "dues lg (advance cur (map fst (take n (dues lg cur os)))) os = drop n (dues lg cur os) \<and>
    last_seq_for cur o' \<le> last_seq_for (advance cur (map fst (take n (dues lg cur os)))) o'"
proof (induction n arbitrary: cur)
  case 0
  show ?case by (simp add: advance_def)
next
  case (Suc n)
  show ?case
  proof (cases "dues lg cur os")
    case Nil
    then show ?thesis by (simp add: advance_def)
  next
    case (Cons x rest)
    let ?cur = "map_set (origin_node_id (fst x)) (seq (fst x)) cur"
    have step: "dues lg ?cur os = rest" using assms Cons by (rule dues_step)
    have adv: "advance cur (map fst (take (Suc n) (dues lg cur os))) = advance ?cur (map fst (take n (dues lg ?cur os)))"
      by (simp add: Cons step advance_def)
    have "last_seq_for cur (origin_node_id (fst x)) < seq (fst x)"
      using dues_origin(2) [OF assms(1-3), of x cur os] Cons by simp
    then have "last_seq_for cur o' \<le> last_seq_for ?cur o'" by auto
    moreover have "last_seq_for ?cur o' \<le> last_seq_for (advance ?cur (map fst (take n (dues lg ?cur os)))) o'"
      using Suc.IH [of ?cur] by blast
    ultimately have "last_seq_for cur o' \<le> last_seq_for (advance ?cur (map fst (take n (dues lg ?cur os)))) o'"
      by (rule order_trans)
    moreover have "dues lg (advance ?cur (map fst (take n (dues lg ?cur os)))) os = drop (Suc n) (dues lg cur os)"
      using Suc.IH [of ?cur] step Cons by simp
    ultimately show ?thesis unfolding adv by blast
  qed
qed

section \<open>The known origins\<close>

abbreviation origins_of :: "(bytes \<rightharpoonup> bytes) \<Rightarrow> (bytes \<rightharpoonup> bytes) \<Rightarrow> node_id list" where
  "origins_of lg ix \<equiv> map po_origin (known_origins lg ix)"

lemma pull_logD:
  assumes "pull_log lg ix"
  shows "finite (dom lg)" "finite (dom ix)" "log_ok lg" "index_ok ix" "log_faithful lg" "ix \<noteq> Map.empty \<Longrightarrow> covers lg ix"
  using assms by (simp_all add: pull_log_def log_inv_def)

lemma origins_of_indexed: "ix \<noteq> Map.empty \<Longrightarrow> origins_of lg ix = map fst (rows_where (\<lambda>_. True) ix)"
  by (simp add: known_origins_def tails_list_def make_pull_origin_def comp_def case_prod_unfold)

lemma origins_of_log: "origins_of lg Map.empty = sorted_list_of_set (key_origin ` dom lg)"
  by (simp add: known_origins_def make_pull_origin_def comp_def)

lemma origins_of_distinct:
  assumes "pull_log lg ix"
  shows "distinct (origins_of lg ix)"
  using pull_logD [OF assms] distinct_rows_where [of ix "\<lambda>_. True"]
  by (cases "ix = Map.empty") (simp_all add: origins_of_indexed origins_of_log)

lemma origins_of_all:
  assumes "pull_log lg ix" "is_node_id o'" "log_entry lg o' s = Some v"
  shows "o' \<in> set (origins_of lg ix)"
proof (cases "ix = Map.empty")
  case True
  have "key_origin (encode_key o' s) \<in> key_origin ` dom lg" using assms(3) by (auto simp: log_entry_def)
  with key_parts(1) [OF assms(2)] pull_logD(1) [OF assms(1)] True show ?thesis by (simp add: origins_of_log)
next
  case False
  then obtain t where "tail_of ix o' = Some t"
    using pull_logD(6) [OF assms(1)] assms(2,3) unfolding covers_def by blast
  then obtain w where "ix o' = Some w" by (auto simp: tail_of_def)
  then have "(o', w) \<in> set (rows_where (\<lambda>_. True) ix)" using set_rows_where [OF pull_logD(2) [OF assms(1)]] by simp
  with False show ?thesis by (force simp: origins_of_indexed)
qed

lemma at_tail_nothing:
  assumes "pull_log lg ix" "po \<in> set (known_origins lg ix)" "origin_is_at_tail po request"
  shows "pending lg (po_origin po) (last_seq_for (have_cursor request) (po_origin po)) = []"
proof (rule ccontr)
  let ?s = "last_seq_for (have_cursor request) (po_origin po)"
  note D = pull_logD [OF assms(1)]
  assume "pending lg (po_origin po) ?s \<noteq> []"
  then obtain p where p: "p \<in> set (pending lg (po_origin po) ?s)" using list.set_sel(1) by blast
  have ne: "ix \<noteq> Map.empty"
    using assms(2,3) by (auto simp: known_origins_def origin_is_at_tail_def make_pull_origin_def split: if_splits)
  with assms(2) obtain v where po: "ix (po_origin po) = Some v" "po_last_seq po = read_u64_le v"
    by (auto simp: known_origins_def tails_list_def make_pull_origin_def set_rows_where [OF D(2)])
  have "is_node_id (po_origin po)" using po(1) D(4) by (auto simp: index_ok_def is_node_id_def)
  moreover have e: "?s < seq (fst p)" "log_entry lg (po_origin po) (seq (fst p)) \<noteq> None"
    using pending_seqs(2) [OF D(1,3,5) p] by auto
  ultimately have "seq (fst p) \<le> po_last_seq po"
    using D(6) [OF ne] po unfolding covers_def tail_of_def by fastforce
  with e(1) assms(3) show False by (auto simp: origin_is_at_tail_def)
qed

lemma due_dues:
  assumes "pull_log lg ix"
  shows "due lg request (known_origins lg ix) = dues lg (have_cursor request) (origins_of lg ix)"
proof -
  have "map (\<lambda>po. if origin_is_at_tail po request then []
     else pending lg (po_origin po) (last_seq_for (have_cursor request) (po_origin po))) (known_origins lg ix) =
    map (\<lambda>po. pending lg (po_origin po) (last_seq_for (have_cursor request) (po_origin po))) (known_origins lg ix)"
    using at_tail_nothing [OF assms] by (intro map_cong refl) simp
  then show ?thesis unfolding due_def dues_def map_map comp_def by (simp only:)
qed

lemma retained_later:
  assumes "retained lg request po"
    and "last_seq_for (have_cursor request) (po_origin po) \<le> last_seq_for cur (po_origin po)"
  shows "retained lg (request\<lparr>have_cursor := cur\<rparr>) po"
proof -
  let ?s = "last_seq_for (have_cursor request) (po_origin po)" let ?s' = "last_seq_for cur (po_origin po)"
  have "?s + 1 \<le> ?s' + 1" if "?s' \<noteq> - 1"
    using assms(2) that by (metis (no_types) inc_le inc_less_eq_iff order.order_iff_strict order.strict_trans1 word_order.extremum_strict word_order.not_eq_extremum)
  moreover have "?s' = - 1" if "?s = - 1" using assms(2) that word_order.extremum_uniqueI by metis
  ultimately show ?thesis
    using assms unfolding retained_def origin_is_at_tail_def Let_def
    by (auto split: option.splits)
qed

section \<open>A page, when it is one\<close>

lemma page_spec_batches:
  assumes "pull_log lg ix" "pull_ok (page_spec lg ix ap request)"
  obtains n where "n \<le> length (dues lg (have_cursor request) (origins_of lg ix))"
    "pull_batches (page_spec lg ix ap request) = map fst (take n (dues lg (have_cursor request) (origins_of lg ix)))"
    "has_more (page_spec lg ix ap request) \<longleftrightarrow> n < length (dues lg (have_cursor request) (origins_of lg ix))"
    "max_batches request \<noteq> 0 \<Longrightarrow> max_bytes request \<noteq> 0 \<Longrightarrow> has_more (page_spec lg ix ap request) \<Longrightarrow> n \<noteq> 0"
    "\<And>po. po \<in> set (known_origins lg ix) \<Longrightarrow> retained lg request po"
proof -
  let ?ds = "dues lg (have_cursor request) (origins_of lg ix)"
  obtain bs tot e where f: "fill_page request ?ds [] 0 = (bs, tot, e)" by (metis prod.exhaust)
  obtain n where n: "n \<le> length ?ds" "bs = map fst (take n ?ds)" "e = Complete \<longleftrightarrow> n = length ?ds"
    using fill_page_take [of ?ds request "[]" 0] by (auto simp: f)
  obtain known rt where kt: "copy_known_tail (known_origins lg ix) [] = (known, rt)" by fastforce
  have find: "find (\<lambda>po. \<not> retained lg request po) (known_origins lg ix) = None"
    using assms(2) by (auto simp: page_spec_def kt Let_def set_snapshot_required_def split: option.splits)
  let ?out = "new_pull_response\<lparr>remote_have := applied_cursor_of ap, remote_tail := rt, remote_tail_known := known\<rparr>"
  have r: "page_spec lg ix ap request = page_result request ?out (bs, tot, e)"
    by (simp add: page_spec_def kt find due_dues [OF assms(1)] f)
  have small: "e = Complete \<or> e = PageFull"
    using assms(2) unfolding r by (cases e) (simp_all add: page_result_def set_batch_too_large_def)
  show thesis
  proof (rule that [of n])
    show "pull_batches (page_spec lg ix ap request) = map fst (take n ?ds)"
      "has_more (page_spec lg ix ap request) \<longleftrightarrow> n < length ?ds"
      using small n unfolding r by (auto simp: page_result_def)
    then show "n \<noteq> 0" if "max_batches request \<noteq> 0" "max_bytes request \<noteq> 0" "has_more (page_spec lg ix ap request)"
      using fill_page_progress [OF that(1,2), of ?ds] that(3) small n by (auto simp: f)
    show "\<And>po. po \<in> set (known_origins lg ix) \<Longrightarrow> retained lg request po"
      using find by (simp add: find_None_iff)
  qed (rule n(1))
qed

section \<open>Gap-free pages\<close>

text \<open>No entry is missing between two entries of one origin: the log is pruned from below only.\<close>

definition log_contiguous :: "(bytes \<rightharpoonup> bytes) \<Rightarrow> bool" where
  "log_contiguous lg \<longleftrightarrow> (\<forall>o' s1 s s2. is_node_id o' \<longrightarrow> log_entry lg o' s1 \<noteq> None \<longrightarrow> log_entry lg o' s2 \<noteq> None \<longrightarrow>
     s1 \<le> s \<longrightarrow> s \<le> s2 \<longrightarrow> log_entry lg o' s \<noteq> None)"

text \<open>A strictly increasing list of words without a hole counts up from its start.\<close>

lemma counts_up:
  fixes f :: "'a \<Rightarrow> 'w :: len word"
  assumes "sorted_wrt (<) (map f xs)" "\<And>x. x \<in> set xs \<Longrightarrow> s < f x"
    and "\<And>w x. x \<in> set xs \<Longrightarrow> s < w \<Longrightarrow> w \<le> f x \<Longrightarrow> w \<in> f ` set xs"
  shows "i < length xs \<Longrightarrow> f (xs ! i) = s + 1 + word_of_nat i"
  using assms
proof (induction xs arbitrary: s i)
  case (Cons x xs)
  have top: "s \<noteq> - 1" and s: "s < f x" using Cons.prems(3) word_order.extremum_strict by fastforce+
  then have nxt: "s < s + 1" "s + 1 \<le> f x" using inc_less_eq_iff [of s "s + 1"] by (simp_all add: inc_less_eq_iff)
  have "s + 1 \<in> f ` set (x # xs)" using nxt by (intro Cons.prems(4)) auto
  moreover have "f x < f y" if "y \<in> set xs" for y using that Cons.prems(2) by auto
  ultimately have x: "f x = s + 1" using nxt by (fastforce dest: leD)
  show ?case
  proof (cases i)
    case 0
    with x show ?thesis by simp
  next
    case (Suc j)
    have "f (xs ! j) = (s + 1) + 1 + word_of_nat j"
    proof (rule Cons.IH)
      show "w \<in> f ` set xs" if "y \<in> set xs" "s + 1 < w" "w \<le> f y" for w y
        using Cons.prems(4) [of y w] that x nxt(1) by (auto intro: less_trans)
    qed (use Cons.prems(1,2) Suc x in auto)
    with Suc show ?thesis by (simp add: add.assoc add.commute)
  qed
qed simp

lemma pending_counts_up:
  assumes "pull_log lg ix" "log_contiguous lg" "po \<in> set (known_origins lg ix)" "retained lg request po"
    and "i < length (pending lg (po_origin po) (last_seq_for (have_cursor request) (po_origin po)))"
  shows "seq (fst (pending lg (po_origin po) (last_seq_for (have_cursor request) (po_origin po)) ! i)) =
    last_seq_for (have_cursor request) (po_origin po) + 1 + word_of_nat i"
proof -
  let ?s = "last_seq_for (have_cursor request) (po_origin po)" let ?ps = "pending lg (po_origin po) ?s"
  note D = pull_logD [OF assms(1)]
  have o': "is_node_id (po_origin po)" using known_origins_node [OF D(1,2,3,4) assms(3)] .
  have in_log: "s < seq (fst p) \<and> log_entry lg (po_origin po) (seq (fst p)) \<noteq> None" if "p \<in> set ?ps" "s = ?s" for p s
    using pending_seqs(2) [OF D(1,3,5) that(1)] that(2) by auto
  have "w \<in> (\<lambda>p. seq (fst p)) ` set ?ps" if p: "p \<in> set ?ps" and w: "?s < w" "w \<le> seq (fst p)" for p w
  proof -
    have "?ps \<noteq> []" using p by auto
    then have "\<not> origin_is_at_tail po request" "?s \<noteq> - 1"
      using at_tail_nothing [OF assms(1,3)] w(1) word_order.extremum_strict by auto
    then obtain e where e: "log_first lg (po_origin po) = Some e" "\<not> ?s + 1 < e"
      using assms(4) in_log [OF p refl] unfolding retained_def log_first_def Let_def by (auto split: if_splits)
    have "log_entry lg (po_origin po) e \<noteq> None"
      using e(1) Min_in [of "{s. log_entry lg (po_origin po) s \<noteq> None}"] by (auto simp: log_first_def Let_def split: if_splits)
    moreover have "e \<le> w" using e(2) w(1) by (meson inc_le leI order_trans)
    ultimately have "log_entry lg (po_origin po) w \<noteq> None"
      using assms(2) o' in_log [OF p refl] w(2) unfolding log_contiguous_def by blast
    then obtain v where v: "log_entry lg (po_origin po) w = Some v" by blast
    then have "(batch_of v, length v) \<in> set ?ps" by (rule pending_seqs(3) [OF D(1,3,5) o' w(1)])
    moreover have "seq (batch_of v) = w"
      using log_faithfulD [OF D(5), of "encode_key (po_origin po) w" v] v key_parts [OF o'] by (simp add: log_entry_def)
    ultimately show ?thesis by force
  qed
  then show ?thesis
    using counts_up [of "\<lambda>p. seq (fst p)" ?ps ?s i] pending_seqs(1) [OF D(1,3,5)] in_log assms(5) by blast
qed

lemma dues_filter:
  assumes "finite (dom lg)" "log_ok lg" "log_faithful lg" "distinct os"
  shows "filter (\<lambda>p. origin_node_id (fst p) = o') (dues lg cur os) =
    (if o' \<in> set os then pending lg o' (last_seq_for cur o') else [])"
  using assms(4)
proof (induction os)
  case (Cons o1 os)
  have "filter (\<lambda>p. origin_node_id (fst p) = o') (pending lg o1 s) = (if o1 = o' then pending lg o1 s else [])" for s
    using pending_seqs(2) [OF assms(1-3)] by (auto simp: filter_id_conv filter_empty_conv)
  with Cons show ?case by (auto simp: dues_def)
qed (simp add: dues_def)

lemma filter_take: "\<exists>m. filter P (take n xs) = take m (filter P xs)"
  by (metis append_eq_conv_conj append_take_drop_id filter_append)

lemma page_gap_free:
  assumes "pull_log lg ix" "log_contiguous lg" "pull_ok (page_spec lg ix ap request)"
    and "i < length (filter (\<lambda>b. origin_node_id b = o') (pull_batches (page_spec lg ix ap request)))"
  shows "seq (filter (\<lambda>b. origin_node_id b = o') (pull_batches (page_spec lg ix ap request)) ! i) =
    last_seq_for (have_cursor request) o' + 1 + word_of_nat i"
proof -
  let ?ds = "dues lg (have_cursor request) (origins_of lg ix)" let ?ps = "pending lg o' (last_seq_for (have_cursor request) o')"
  note D = pull_logD [OF assms(1)]
  obtain n where n: "pull_batches (page_spec lg ix ap request) = map fst (take n ?ds)"
    and ret: "\<And>po. po \<in> set (known_origins lg ix) \<Longrightarrow> retained lg request po"
    using page_spec_batches [OF assms(1,3)] by metis
  obtain m where m: "filter (\<lambda>p. origin_node_id (fst p) = o') (take n ?ds) = take m (filter (\<lambda>p. origin_node_id (fst p) = o') ?ds)"
    using filter_take by metis
  have bs: "filter (\<lambda>b. origin_node_id b = o') (pull_batches (page_spec lg ix ap request)) =
    map fst (take m (if o' \<in> set (origins_of lg ix) then ?ps else []))"
    by (simp add: n filter_map comp_def m dues_filter [OF D(1,3,5) origins_of_distinct [OF assms(1)]])
  with assms(4) have o': "o' \<in> set (origins_of lg ix)" and i: "i < length (take m ?ps)" by (auto split: if_splits)
  then obtain po where po: "po \<in> set (known_origins lg ix)" "po_origin po = o'" by auto
  have "seq (fst (?ps ! i)) = last_seq_for (have_cursor request) o' + 1 + word_of_nat i"
    using pending_counts_up [OF assms(1,2) po(1) ret [OF po(1)], of i] i po(2) by simp
  then show ?thesis using bs o' i by simp
qed

text \<open>The batches of the log above a cursor.\<close>

definition newer :: "(bytes \<rightharpoonup> bytes) \<Rightarrow> sync_cursor \<Rightarrow> change_batch set" where
  "newer lg cur = {batch_of v | o' s v. is_node_id o' \<and> last_seq_for cur o' < s \<and> log_entry lg o' s = Some v}"

lemma dues_newer:
  assumes "pull_log lg ix"
  shows "fst ` set (dues lg cur (origins_of lg ix)) = newer lg cur"
proof (intro set_eqI iffI)
  note D = pull_logD [OF assms]
  fix b
  assume "b \<in> fst ` set (dues lg cur (origins_of lg ix))"
  then obtain p o' where p: "b = fst p" "o' \<in> set (origins_of lg ix)" "p \<in> set (pending lg o' (last_seq_for cur o'))"
    unfolding dues_def by auto
  have "is_node_id o'" using p(2) known_origins_node [OF D(1-4)] by auto
  with pending_seqs(2) [OF D(1,3,5) p(3)] p(1) show "b \<in> newer lg cur" unfolding newer_def by fastforce
next
  note D = pull_logD [OF assms]
  fix b
  assume "b \<in> newer lg cur"
  then obtain o' s v where v: "b = batch_of v" "is_node_id o'" "last_seq_for cur o' < s" "log_entry lg o' s = Some v"
    by (auto simp: newer_def)
  have "(b, length v) \<in> set (dues lg cur (origins_of lg ix))"
    using pending_seqs(3) [OF D(1,3,5) v(2-4)] origins_of_all [OF assms v(2,4)] v(1) unfolding dues_def by auto
  then show "b \<in> fst ` set (dues lg cur (origins_of lg ix))" by force
qed

lemma length_dues:
  assumes "pull_log lg ix"
  shows "length (dues lg cur (origins_of lg ix)) \<le> card (dom lg)"
proof -
  note D = pull_logD [OF assms]
  let ?rs = "concat (map (\<lambda>o'. pending_rows lg o' (last_seq_for cur o')) (origins_of lg ix))"
  have dist: "distinct (concat (map (\<lambda>o'. pending_rows lg o' (last_seq_for cur o')) os))" if "distinct os" for os
    using that
  proof (induction os)
    case (Cons o' os)
    have "distinct (pending_rows lg o' (last_seq_for cur o'))"
      using distinct_rows_where [OF D(1)] by (simp add: pending_rows_eq [OF D(1)] distinct_map)
    with Cons show ?case by (auto simp: pending_rows_def)
  qed simp
  have "length ?rs = card (set ?rs)"
    by (simp only: distinct_card [OF dist [OF origins_of_distinct [OF assms]]])
  also have "\<dots> = card (fst ` set ?rs)"
    by (intro card_image [symmetric] inj_onI) (auto simp: pending_rows_def set_rows_where [OF D(1)])
  also have "\<dots> \<le> card (dom lg)"
    using D(1) by (intro card_mono) (auto simp: pending_rows_def set_rows_where [OF D(1)])
  finally show ?thesis by (simp add: dues_def pending_def length_concat comp_def)
qed

lemma page_complete:
  assumes "pull_log lg ix" "pull_ok (page_spec lg ix ap request)" "\<not> has_more (page_spec lg ix ap request)"
  shows "set (pull_batches (page_spec lg ix ap request)) = newer lg (have_cursor request)"
proof -
  let ?ds = "dues lg (have_cursor request) (origins_of lg ix)"
  have "pull_batches (page_spec lg ix ap request) = map fst ?ds"
    using page_spec_batches [OF assms(1,2)] assms(3) by (metis leD le_neq_implies_less take_all_iff order_refl)
  then show ?thesis by (simp add: dues_newer [OF assms(1)])
qed

section \<open>Pulling until nothing is left\<close>

text \<open>
  A requester that asks for page after page, with its cursor advanced by what it got. \<open>n\<close> bounds the
  number of pages.
\<close>

fun pull_all :: "('t, 'c) mdbx \<Rightarrow> nat \<Rightarrow> nat \<Rightarrow> nat \<Rightarrow> pull_request \<Rightarrow> ('t, change_batch list) io" where
  "pull_all M env dbi 0 request = throw LoopBound"
| "pull_all M env dbi (Suc n) request =
     bindM (pull_changelog_page M env dbi request) (\<lambda>r.
     if \<not> pull_ok r then throw (RuntimeError (pull_error r))
     else if \<not> has_more r then ret (pull_batches r)
     else bindM (pull_all M env dbi n (request\<lparr>have_cursor := advance (have_cursor request) (pull_batches r)\<rparr>)) (\<lambda>bs.
       ret (pull_batches r @ bs)))"

text \<open>The request can be served from the log, and its limits let every batch through.\<close>

definition servable :: "(bytes \<rightharpoonup> bytes) \<Rightarrow> (bytes \<rightharpoonup> bytes) \<Rightarrow> pull_request \<Rightarrow> bool" where
  "servable lg ix request \<longleftrightarrow> \<not> request_full_snapshot request \<and> max_batches request \<noteq> 0 \<and> max_bytes request \<noteq> 0 \<and>
     (\<forall>v \<in> ran lg. length v \<le> unat (max_single_batch_bytes request)) \<and>
     (\<forall>po \<in> set (known_origins lg ix). retained lg request po)"

lemma servable_ok:
  assumes "pull_log lg ix" "servable lg ix request"
  shows "pull_ok (page_spec lg ix ap request)"
proof -
  note D = pull_logD [OF assms(1)]
  let ?ds = "dues lg (have_cursor request) (origins_of lg ix)"
  obtain bs tot e where f: "fill_page request ?ds [] 0 = (bs, tot, e)" by (metis prod.exhaust)
  obtain known rt where kt: "copy_known_tail (known_origins lg ix) [] = (known, rt)" by fastforce
  have find: "find (\<lambda>po. \<not> retained lg request po) (known_origins lg ix) = None"
    using assms(2) by (auto simp: servable_def find_None_iff)
  have "snd p \<le> unat (max_single_batch_bytes request)" if "p \<in> set ?ds" for p
  proof -
    from that obtain o' where "p \<in> set (pending lg o' (last_seq_for (have_cursor request) o'))"
      by (auto simp: dues_def)
    from pending_seqs(2) [OF D(1,3,5) this] obtain k v where v: "lg k = Some v" "snd p = length v"
      by (auto simp: log_entry_def)
    then have "v \<in> ran lg" by (auto intro: ranI)
    with assms(2) v(2) show ?thesis by (simp add: servable_def)
  qed
  then have "e \<noteq> TooLarge sq m" for sq m
    using fill_page_fits [of ?ds request "[]" 0 sq m] f by simp
  then have "e = Complete \<or> e = PageFull" by (cases e) auto
  then show ?thesis
    by (auto simp: page_spec_def kt find due_dues [OF assms(1)] f page_result_def new_pull_response_def)
qed

lemma servable_next:
  assumes "pull_log lg ix" "servable lg ix request"
  shows "servable lg ix (request\<lparr>have_cursor := advance (have_cursor request)
    (map fst (take n (dues lg (have_cursor request) (origins_of lg ix))))\<rparr>)"
proof -
  note D = pull_logD [OF assms(1)]
  have "retained lg (request\<lparr>have_cursor := advance (have_cursor request)
      (map fst (take n (dues lg (have_cursor request) (origins_of lg ix))))\<rparr>) po"
    if "po \<in> set (known_origins lg ix)" for po
    using assms(2) that dues_advance [OF D(1,3,5) origins_of_distinct [OF assms(1)]]
    by (intro retained_later) (auto simp: servable_def)
  with assms(2) show ?thesis by (simp add: servable_def)
qed

context mdbx_engine
begin

lemma awp_pull_all:
  assumes E: "\<And>c rc. fails rc \<Longrightarrow> E (MdbxException c rc)"
  shows "pull_ready env dbi a \<Longrightarrow> pull_log (content a t_changelog) (content a t_origins) \<Longrightarrow>
    servable (content a t_changelog) (content a t_origins) request \<Longrightarrow>
    length (dues (content a t_changelog) (have_cursor request) (origins_of (content a t_changelog) (content a t_origins))) < n \<Longrightarrow>
    awp (pull_all M env dbi n request) (\<lambda>bs a'. content a' = content a \<and> bs = map fst
      (dues (content a t_changelog) (have_cursor request) (origins_of (content a t_changelog) (content a t_origins)))) E a"
proof (induction n arbitrary: request a)
  case (Suc n)
  let ?lg = "content a t_changelog" let ?ix = "content a t_origins" let ?ap = "content a t_applied"
  let ?os = "origins_of ?lg ?ix" let ?ds = "dues ?lg (have_cursor request) ?os" let ?r = "page_spec ?lg ?ix ?ap request"
  let ?Q = "\<lambda>bs a'. content a' = content a \<and> bs = map fst ?ds"
  note D = pull_logD [OF Suc.prems(2)]
  have good: "pull_ok ?r" using Suc.prems(2,3) by (rule servable_ok)
  obtain m where m: "m \<le> length ?ds" "pull_batches ?r = map fst (take m ?ds)" "has_more ?r \<longleftrightarrow> m < length ?ds"
    "has_more ?r \<Longrightarrow> m \<noteq> 0"
    using page_spec_batches [OF Suc.prems(2) good] Suc.prems(3) unfolding servable_def by metis
  let ?req = "request\<lparr>have_cursor := advance (have_cursor request) (pull_batches ?r)\<rparr>"
  have more: "awp (pull_all M env dbi n ?req) (\<lambda>bs a''. content a'' = content a \<and> bs = map fst (drop m ?ds)) E a'"
    if a': "ext a a'" "content a' = content a" "has_more ?r" for a'
  proof -
    have ready: "pull_ready env dbi a'"
      using Suc.prems(1) bound_ext [OF _ a'(1)] a'(1,2) by (auto simp: pull_ready_def ext_def grow_def)
    have d: "dues ?lg (advance (have_cursor request) (map fst (take m ?ds))) ?os = drop m ?ds"
      using dues_advance [OF D(1,3,5) origins_of_distinct [OF Suc.prems(2)]] by blast
    have "length (drop m ?ds) < n" using Suc.prems(4) m(3,4) a'(3) by simp
    then show ?thesis
      using Suc.IH [OF ready, of ?req] Suc.prems(2) servable_next [OF Suc.prems(2,3), of m]
      unfolding a'(2) m(2) by (simp add: d)
  qed
  have "awp (if \<not> pull_ok ?r then throw (RuntimeError (pull_error ?r))
     else if \<not> has_more ?r then ret (pull_batches ?r)
     else bindM (pull_all M env dbi n ?req) (\<lambda>bs. ret (pull_batches ?r @ bs))) ?Q E a'"
    if a': "ext a a'" "content a' = content a" for a'
  proof (cases "has_more ?r")
    case True
    have "map fst (take m ?ds) @ map fst (drop m ?ds) = map fst ?ds" by (metis append_take_drop_id map_append)
    then have "awp (bindM (pull_all M env dbi n ?req) (\<lambda>bs. ret (pull_batches ?r @ bs))) ?Q E a'"
      using m(2) by (intro awp_bindM' [OF more [OF a' True]] awp_ret) simp
    with True good show ?thesis by simp
  next
    case False
    with good m(1-3) a' show ?thesis by (simp add: awp_ret)
  qed
  then show ?case
    unfolding pull_all.simps
    using Suc.prems(1,3) E by (intro awp_bindM awp_pull_changelog_page) (auto simp: servable_def)
qed simp

lemma ready_log:
  assumes "ok t" "pull_ready env dbi (view t)" "log_inv (content (view t) t_changelog) (content (view t) t_origins)"
  shows "pull_log (content (view t) t_changelog) (content (view t) t_origins)"
proof -
  have "finite (dom (content (view t) n))" for n
    using rows_finite [OF assms(1)] by (auto simp: content_def split: option.splits)
  with assms(2,3) show ?thesis by (simp add: pull_log_def pull_ready_def)
qed

lemma run_page:
  assumes "ok t" "pull_ready env dbi (view t)" "\<not> request_full_snapshot request"
  shows "case pull_changelog_page M env dbi request t of (r, t') \<Rightarrow> (case r of
      Inl e \<Rightarrow> \<exists>ctx rc. e = MdbxException ctx rc \<and> fails rc
    | Inr r \<Rightarrow> ok t' \<and> ext (view t) (view t') \<and> content (view t') = content (view t) \<and>
        r = page_spec (content (view t) t_changelog) (content (view t) t_origins) (content (view t) t_applied) request)"
proof -
  have "awp (pull_changelog_page M env dbi request) (\<lambda>r a'. ext (view t) a' \<and> content a' = content (view t) \<and>
      r = page_spec (content (view t) t_changelog) (content (view t) t_origins) (content (view t) t_applied) request)
      (\<lambda>e. \<exists>ctx rc. e = MdbxException ctx rc \<and> fails rc) (view t)"
    by (rule awp_pull_changelog_page [OF assms(2,3)]) auto
  from awp_run [OF this assms(1)] show ?thesis .
qed

lemma run_pull_all:
  assumes "ok t" "pull_ready env dbi (view t)" "log_inv (content (view t) t_changelog) (content (view t) t_origins)"
    and "servable (content (view t) t_changelog) (content (view t) t_origins) request"
    and "card (dom (content (view t) t_changelog)) < n"
  shows "case pull_all M env dbi n request t of (r, t') \<Rightarrow> (case r of
      Inl e \<Rightarrow> \<exists>ctx rc. e = MdbxException ctx rc \<and> fails rc
    | Inr bs \<Rightarrow> ok t' \<and> content (view t') = content (view t) \<and>
        set bs = newer (content (view t) t_changelog) (have_cursor request))"
proof -
  let ?lg = "content (view t) t_changelog" let ?ix = "content (view t) t_origins"
  note lg = ready_log [OF assms(1-3)]
  have "awp (pull_all M env dbi n request) (\<lambda>bs a'. content a' = content (view t) \<and> bs = map fst
      (dues ?lg (have_cursor request) (origins_of ?lg ?ix))) (\<lambda>e. \<exists>ctx rc. e = MdbxException ctx rc \<and> fails rc) (view t)"
    using length_dues [OF lg, of "have_cursor request"] assms(5) by (intro awp_pull_all assms(2,4) lg) auto
  then have "awp (pull_all M env dbi n request) (\<lambda>bs a'. content a' = content (view t) \<and>
      set bs = newer ?lg (have_cursor request)) (\<lambda>e. \<exists>ctx rc. e = MdbxException ctx rc \<and> fails rc) (view t)"
    by (rule awp_conseq) (simp_all add: dues_newer [OF lg])
  from awp_run [OF this assms(1)] show ?thesis .
qed

end

end
