(* ===== verification/Node_Spec.thy ===== *)
theory Node_Spec
  imports Sync_Node Apply_Properties Pull_Lemmas
begin

unbundle bit_operations_syntax

text \<open>
  What the handlers of a node promise. The contract of libmdbx is extended by the begin and the end of
  transactions: a transaction starts from the committed tables, a successful commit makes its tables
  the committed ones, and every other end leaves them alone. \<open>push_spec\<close> says what a push does to the
  receiver's tables.
\<close>

section \<open>The contract of transactions\<close>

definition tables_view :: "nat \<Rightarrow> (string \<rightharpoonup> dbtable) \<Rightarrow> adb" where
  "tables_view env tabs = \<lparr>a_env = env, a_writable = False, a_tables = tabs, a_handles = Map.empty\<rparr>"

definition node_view :: "('e, 't) mdbx_txns \<Rightarrow> ('e \<Rightarrow> string \<rightharpoonup> dbtable) \<Rightarrow> 'e node \<Rightarrow> adb" where
  "node_view T committed n = tables_view (env_handle T) (committed (node_env n))"

lemma tables_view_sel [simp]:
  "a_env (tables_view env tabs) = env" "a_tables (tables_view env tabs) = tabs"
  by (simp_all add: tables_view_def)

lemma node_view_sel [simp]:
  "a_env (node_view T committed n) = env_handle T"
  "a_tables (node_view T committed n) = committed (node_env n)"
  by (simp_all add: node_view_def)

text \<open>What depends on the tables only.\<close>

lemma same_tables:
  assumes "a_tables a = a_tables b"
  shows "content a = content b" "sys_ok a = sys_ok b" "receiver_inv a = receiver_inv b"
    "compatible F a = compatible F b" "batch_ok M a batch = batch_ok M b batch"
proof -
  show c: "content a = content b" by (simp add: fun_eq_iff content_def assms)
  show s: "sys_ok a = sys_ok b" by (simp add: sys_ok_def assms)
  show "receiver_inv a = receiver_inv b" by (simp add: receiver_inv_def c s)
  show "compatible F a = compatible F b" by (simp add: compatible_def assms)
  show "batch_ok M a batch = batch_ok M b batch" by (simp add: batch_ok_def assms)
qed

locale mdbx_environment = mdbx_engine M ok view cursor_dbi cursor_at fails
  for M :: "('t, 'c) mdbx" and ok :: "'t \<Rightarrow> bool" and view :: "'t \<Rightarrow> adb" and cursor_dbi :: "'c \<Rightarrow> nat"
    and cursor_at :: "'c \<Rightarrow> bytes option" and fails :: "mdbx_rc \<Rightarrow> bool" +
  fixes T :: "('e, 't) mdbx_txns" and committed :: "'e \<Rightarrow> string \<rightharpoonup> dbtable"
  assumes begin_law:
      "mdbx_txn_begin T rdonly e = (rc, t, e') \<Longrightarrow> committed e' = committed e \<and>
         (rc = MDBX_SUCCESS \<and> ok t \<and> a_tables (view t) = committed e \<and> (a_writable (view t) \<longleftrightarrow> \<not> rdonly) \<and>
            a_env (view t) = env_handle T \<or>
          rc \<noteq> MDBX_SUCCESS \<and> fails rc)"
    and commit_law:
      "ok t \<Longrightarrow> mdbx_txn_commit T t e = (rc, e') \<Longrightarrow>
         rc = MDBX_SUCCESS \<and> committed e' = a_tables (view t) \<or>
         rc \<noteq> MDBX_SUCCESS \<and> fails rc \<and> committed e' = committed e"
    and abort_law:
      "mdbx_txn_abort T t e = (rc, e') \<Longrightarrow> committed e' = committed e \<and> (rc = MDBX_SUCCESS \<or> fails rc)"
    and committed_finite: "committed e name = Some tab \<Longrightarrow> finite (dom (rows tab))"

section \<open>The effect of a push\<close>

text \<open>Batch after batch; a conflict discards everything. The list has the batches that were applied.\<close>

fun push_spec ::
  "('t, 'c) mdbx \<Rightarrow> conflict_policy \<Rightarrow> change_batch list \<Rightarrow> db \<Rightarrow> apply_outcome + db \<times> change_batch list" where
  "push_spec M policy [] c = Inr (c, [])"
| "push_spec M policy (batch # rest) c = (let v = verdict M policy batch c in
     case ao_result v of
       Conflict \<Rightarrow> Inl v
     | Skipped \<Rightarrow> push_spec M policy rest c
     | Applied \<Rightarrow> (case push_spec M policy rest (applied_content batch c) of
         Inl v \<Rightarrow> Inl v | Inr (c', bs) \<Rightarrow> Inr (c', batch # bs)))"

definition push_counts :: "change_batch list \<Rightarrow> push_counts \<Rightarrow> push_counts" where
  "push_counts bs = fold count_batch (filter (\<lambda>b. ops b \<noteq> []) bs)"

text \<open>
  Batches whose sizes the formats can express and that agree, among themselves and with the tables
  there are, on the flags of every user table: \<open>F\<close>.
\<close>

definition flags_agree :: "('t, 'c) mdbx \<Rightarrow> (string \<rightharpoonup> u32) \<Rightarrow> change_batch \<Rightarrow> bool" where
  "flags_agree M F batch \<longleftrightarrow> is_node_id (origin_node_id batch) \<and>
     (\<forall>op \<in> set (ops batch). c_str (dbi_name op) = dbi_name op \<and> dbi_flags op AND MDBX_DUPSORT M = 0 \<and>
        length (storage_key op) < 2 ^ 32 \<and> length (revision_key op) < 2 ^ 32 \<and>
        (\<not> is_reserved_dbi_name (dbi_name op) \<longrightarrow> F (dbi_name op) = Some (persistent_dbi_flags M (dbi_flags op))))"

lemma flags_agree_batch:
  assumes "flags_ok M F" "compatible F a" "flags_agree M F batch"
  shows "batch_ok M a batch" "batch_tables M F a batch"
proof -
  show "batch_ok M a batch" using assms(2,3) by (auto simp: flags_agree_def batch_ok_def compatible_def)
  have "(\<forall>op \<in> set (ops batch). F (dbi_name op) = Some (persistent_dbi_flags M (dbi_flags op))) \<and>
      (\<forall>p \<in> set dbis. F (fst p) = Some (snd p))"
    if "collect_batch_dbi_flags M (ops batch) [] outcome = Inr dbis" for outcome dbis
    using collect_flags(2,3) [OF that] assms(3) by (fastforce simp: flags_agree_def)
  with assms show "batch_tables M F a batch" unfolding batch_tables_def by blast
qed

lemma push_spec_append:
  "push_spec M policy (xs @ ys) c = (case push_spec M policy xs c of
     Inl v \<Rightarrow> Inl v
   | Inr (c1, bs1) \<Rightarrow> (case push_spec M policy ys c1 of Inl v \<Rightarrow> Inl v | Inr (c2, bs2) \<Rightarrow> Inr (c2, bs1 @ bs2)))"
  by (induction xs arbitrary: c) (auto simp: Let_def split: apply_result.splits sum.splits prod.splits)

lemma push_counts_Cons:
  "push_counts (b # bs) p = push_counts bs (if ops b \<noteq> [] then count_batch b p else p)"
  by (simp add: push_counts_def)

context mdbx_environment
begin

abbreviation nview :: "'e node \<Rightarrow> adb" where
  "nview n \<equiv> node_view T committed n"

lemma content_finite: "finite (dom (content (nview n) name))"
  using committed_finite by (auto simp: content_def split: option.splits)

lemma awp_push_loop:
  assumes F: "flags_ok M F" and E: "\<And>c rc. fails rc \<Longrightarrow> E (MdbxException c rc)"
  shows "receiver_inv a \<Longrightarrow> a_writable a \<Longrightarrow> a_env a = env \<Longrightarrow> compatible F a \<Longrightarrow>
    (\<forall>b \<in> set bs. flags_agree M F b) \<Longrightarrow>
    (\<And>r a'. grow a a' \<Longrightarrow> receiver_inv a' \<Longrightarrow> compatible F a' \<Longrightarrow>
      (case push_spec M policy bs (content a) of
         Inl v \<Rightarrow> r = Inl v
       | Inr (c', as) \<Rightarrow> r = Inr (push_counts as p) \<and> content a' = c') \<Longrightarrow> Q r a') \<Longrightarrow>
    awp (push_loop M env policy bs p) Q E a"
proof (induction bs arbitrary: a p)
  case Nil
  then show ?case by (auto intro!: awp_ret simp: push_counts_def)
next
  case (Cons b bs)
  let ?v = "verdict M policy b (content a)"
  have b: "batch_ok M a b" "batch_tables M F a b"
    using flags_agree_batch [OF F Cons.prems(4)] Cons.prems(5) by auto
  have step: "awp (if ao_result ?v = Conflict then ret (Inl ?v) else push_loop M env policy bs
      (if ao_result ?v = Applied \<and> ops b \<noteq> [] then count_batch b p else p)) Q E a1"
    if a1: "grow a a1" "compatible F a1"
      "content a1 = (if ao_result ?v = Applied then applied_content b (content a) else content a)" for a1
  proof -
    have inv: "receiver_inv a1"
    proof (cases "ao_result ?v = Applied")
      case True
      with a1 b show ?thesis by (intro receiver_inv_applied [OF Cons.prems(1) b(1)]) auto
    next
      case False
      with a1 Cons.prems(1) show ?thesis by (auto simp: receiver_inv_def grow_def)
    qed
    show ?thesis
    proof (cases "ao_result ?v = Conflict")
      case True
      with a1 inv Cons.prems(6) [of a1] show ?thesis by (auto intro!: awp_ret simp: Let_def)
    next
      case False
      have "awp (push_loop M env policy bs (if ao_result ?v = Applied \<and> ops b \<noteq> [] then count_batch b p else p)) Q E a1"
      proof (rule Cons.IH [OF inv])
        show "a_writable a1" "a_env a1 = env" using a1(1) Cons.prems(2,3) by (auto simp: grow_def)
        show "compatible F a1" "\<forall>b \<in> set bs. flags_agree M F b" using a1(2) Cons.prems(5) by auto
        fix r a'
        assume a': "grow a1 a'" "receiver_inv a'" "compatible F a'" "case push_spec M policy bs (content a1) of
            Inl v \<Rightarrow> r = Inl v
          | Inr (c', as) \<Rightarrow> r = Inr (push_counts as (if ao_result ?v = Applied \<and> ops b \<noteq> [] then count_batch b p else p)) \<and>
              content a' = c'"
        from a'(4) have "case push_spec M policy (b # bs) (content a) of
            Inl v \<Rightarrow> r = Inl v | Inr (c', as) \<Rightarrow> r = Inr (push_counts as p) \<and> content a' = c'"
          using False a1(3)
          by (cases "ao_result ?v") (auto simp: Let_def push_counts_Cons split: sum.splits)
        then show "Q r a'" by (rule Cons.prems(6) [OF grow_trans [OF a1(1) a'(1)] a'(2,3)])
      qed
      with False show ?thesis by simp
    qed
  qed
  show ?case
    unfolding push_loop.simps
    by (rule awp_bindM, rule awp_apply_batch_tables [OF Cons.prems(1-3) F Cons.prems(4)])
      (use step b E in auto)
qed

end

section \<open>The handlers\<close>

text \<open>A handler that reads leaves everything but the environment's bookkeeping as it was.\<close>

definition unchanged :: "('e \<Rightarrow> string \<rightharpoonup> dbtable) \<Rightarrow> 'e node \<Rightarrow> 'e node \<Rightarrow> bool" where
  "unchanged committed n n' \<longleftrightarrow> committed (node_env n') = committed (node_env n) \<and> n' = n\<lparr>node_env := node_env n'\<rparr>"

lemma unchanged_refl [simp]: "unchanged committed n n"
  by (simp add: unchanged_def)

lemma unchanged_trans: "unchanged committed n n1 \<Longrightarrow> unchanged committed n1 n2 \<Longrightarrow> unchanged committed n n2"
  unfolding unchanged_def by (metis node.surjective node.update_convs(1))

lemma unchanged_env: "committed e = committed (node_env n) \<Longrightarrow> unchanged committed n (n\<lparr>node_env := e\<rparr>)"
  by (simp add: unchanged_def)

lemma unchanged_view: "unchanged committed n n' \<Longrightarrow> node_view T committed n' = node_view T committed n"
  by (simp add: unchanged_def node_view_def)

context mdbx_environment
begin

lemma wp_begin_txn:
  assumes "\<And>t n'. unchanged committed n n' \<Longrightarrow> ok t \<Longrightarrow> a_tables (view t) = committed (node_env n) \<Longrightarrow>
      a_writable (view t) = (\<not> rdonly) \<Longrightarrow> a_env (view t) = env_handle T \<Longrightarrow> Q t n'"
    and "\<And>rc n'. unchanged committed n n' \<Longrightarrow> fails rc \<Longrightarrow> E (MdbxException msg rc) n'"
  shows "wp (begin_txn T rdonly msg) Q E n"
proof -
  obtain rc t e where b: "mdbx_txn_begin T rdonly (node_env n) = (rc, t, e)" by (metis prod.exhaust)
  from begin_law [OF b] unchanged_env [of committed e n] assms show ?thesis
    unfolding wp_def begin_txn_def b by auto
qed

lemma abort_unchanged: "unchanged committed n (abort_txn T t n)"
  unfolding abort_txn_def by (metis abort_law prod.collapse unchanged_env)

lemma wp_in_txn:
  assumes "ok t" "awp m P F' (view t)"
    and "\<And>x t'. ok t' \<Longrightarrow> P x (view t') \<Longrightarrow> Q (x, t') n"
    and "\<And>e n'. F' e \<Longrightarrow> unchanged committed n n' \<Longrightarrow> E e n'"
  shows "wp (in_txn T t m) Q E n"
  using awp_run [OF assms(2,1)] assms(3,4) abort_unchanged
  by (auto simp: wp_def in_txn_def split: prod.splits sum.splits)

lemma wp_read_txn:
  assumes "\<And>a. a_tables a = committed (node_env n) \<Longrightarrow> \<not> a_writable a \<Longrightarrow> a_env a = env_handle T \<Longrightarrow>
      awp m (\<lambda>x _. P x) faulted a"
    and "\<And>x n'. P x \<Longrightarrow> unchanged committed n n' \<Longrightarrow> Q x n'"
    and "\<And>e n'. faulted e \<Longrightarrow> unchanged committed n n' \<Longrightarrow> E e n'"
  shows "wp (read_txn T msg m) Q E n"
  unfolding read_txn_def wp_bindM
proof (rule wp_begin_txn)
  fix t n1
  assume n1: "unchanged committed n n1" "ok t" "a_tables (view t) = committed (node_env n)"
    "a_writable (view t) = (\<not> True)" "a_env (view t) = env_handle T"
  then have m: "awp m (\<lambda>x _. P x) faulted (view t)" by (intro assms(1)) auto
  show "wp (in_txn T t m) (\<lambda>a. wp (case a of (x, t') \<Rightarrow> \<lambda>n. (Inr x, abort_txn T t' n)) Q E) E n1"
    by (rule wp_in_txn [OF n1(2) m])
      (use assms(2,3) unchanged_trans [OF n1(1)] abort_unchanged in \<open>auto simp: wp_def\<close>)
qed (use assms(3) in \<open>auto simp: faulted_def\<close>)

lemma wp_commit_txn:
  assumes "ok t"
    and "\<And>e. committed e = a_tables (view t) \<Longrightarrow> Q () (n\<lparr>node_env := e\<rparr>)"
    and "\<And>c rc n'. fails rc \<Longrightarrow> unchanged committed n n' \<Longrightarrow> E (MdbxException c rc) n'"
  shows "wp (commit_txn T t) Q E n"
proof -
  obtain rc e where c: "mdbx_txn_commit T t (node_env n) = (rc, e)" by (metis prod.exhaust)
  show ?thesis
    using commit_law [OF assms(1) c] assms(2,3) unchanged_env [of committed e n]
      unchanged_trans [OF unchanged_env [of committed e n] abort_unchanged]
    by (auto simp: wp_def commit_txn_def c Let_def)
qed

lemma wp_rollback_txn:
  assumes "\<And>n'. unchanged committed n n' \<Longrightarrow> Q () n'"
    and "\<And>c rc n'. fails rc \<Longrightarrow> unchanged committed n n' \<Longrightarrow> E (MdbxException c rc) n'"
  shows "wp (rollback_txn T t) Q E n"
proof -
  obtain rc e where c: "mdbx_txn_abort T t (node_env n) = (rc, e)" by (metis prod.exhaust)
  show ?thesis
    using abort_law [OF c] assms unchanged_env [of committed e n]
      unchanged_trans [OF unchanged_env [of committed e n] abort_unchanged]
    by (auto simp: wp_def rollback_txn_def c Let_def)
qed

lemma wp_db_uuid:
  assumes "sys_ok (nview n)" "committed (node_env n) t_meta \<noteq> None"
    and "\<And>n'. unchanged committed n n' \<Longrightarrow> Q (meta_db_uuid (content (nview n) t_meta)) n'"
    and "\<And>e n'. faulted e \<Longrightarrow> unchanged committed n n' \<Longrightarrow> E e n'"
  shows "wp (db_uuid M T) Q E n"
  unfolding db_uuid_def
proof (rule wp_read_txn [where P = "\<lambda>x. x = meta_db_uuid (content (nview n) t_meta)"])
  fix a :: adb
  assume a: "a_tables a = committed (node_env n)" "\<not> a_writable a" "a_env a = env_handle T"
  note same = same_tables [of a "nview n", simplified a(1) node_view_sel, OF refl]
  have o': "openable (new_meta_store (env_handle T)) a"
    unfolding new_meta_store_def using assms(1) a same by (intro new_openable) auto
  show "awp (bindM (meta_open M (new_meta_store (env_handle T))) (get_db_uuid M))
     (\<lambda>x _. x = meta_db_uuid (content (nview n) t_meta)) faulted a"
    unfolding meta_open_def
    by (rule awp_bindM, rule awp_open_fallback [OF o'])
      (use a assms(2) same in \<open>auto intro!: awp_get_db_uuid simp: new_meta_store_def same_store_def\<close>)
qed (use assms(3,4) in auto)

lemma wp_local_node_id:
  assumes "receiver_inv (nview n)" "committed (node_env n) t_meta \<noteq> None"
    and "\<And>n'. unchanged committed n n' \<Longrightarrow> Q (meta_node_id (content (nview n) t_meta)) n'"
    and "\<And>e n'. faulted e \<Longrightarrow> unchanged committed n n' \<Longrightarrow> E e n'"
  shows "wp (local_node_id M T) Q E n"
  unfolding local_node_id_def
proof (rule wp_read_txn [where P = "\<lambda>x. x = meta_node_id (content (nview n) t_meta)"])
  fix a :: adb
  assume a: "a_tables a = committed (node_env n)" "\<not> a_writable a" "a_env a = env_handle T"
  note same = same_tables [of a "nview n", simplified a(1) node_view_sel, OF refl]
  have o': "openable (new_meta_store (env_handle T)) a"
    unfolding new_meta_store_def using assms(1) a same by (intro new_openable) (auto simp: receiver_inv_def)
  show "awp (bindM (meta_open M (new_meta_store (env_handle T))) (get_node_id M))
     (\<lambda>x _. x = meta_node_id (content (nview n) t_meta)) faulted a"
    unfolding meta_open_def
    by (rule awp_bindM, rule awp_open_fallback [OF o'])
      (use a assms(1,2) same in \<open>auto intro!: awp_get_node_id simp: new_meta_store_def same_store_def receiver_inv_def\<close>)
qed (use assms(3,4) in auto)

lemma wp_applied_cursor:
  assumes "sys_ok (nview n)"
    and "\<And>n'. unchanged committed n n' \<Longrightarrow> Q (applied_cursor_of (content (nview n) t_applied)) n'"
    and "\<And>e n'. faulted e \<Longrightarrow> unchanged committed n n' \<Longrightarrow> E e n'"
  shows "wp (applied_cursor M T) Q E n"
  unfolding applied_cursor_def
proof (rule wp_read_txn [where P = "\<lambda>x. x = applied_cursor_of (content (nview n) t_applied)"])
  fix a :: adb
  assume a: "a_tables a = committed (node_env n)" "\<not> a_writable a" "a_env a = env_handle T"
  note same = same_tables [of a "nview n", simplified a(1) node_view_sel, OF refl]
  have o': "openable (new_applied_store (env_handle T)) a"
    unfolding new_applied_store_def using assms(1) a same by (intro new_openable) auto
  show "awp (read_applied_cursor M []) (\<lambda>x _. x = applied_cursor_of (content (nview n) t_applied)) faulted a"
    by (rule awp_read_applied_cursor [OF o']) (use same in auto)
qed (use assms(2,3) in auto)

end

section \<open>A push\<close>

definition same_db :: "adb \<Rightarrow> db_id \<Rightarrow> bool" where
  "same_db a i \<longleftrightarrow> compare_node_id i make_zero_node \<noteq> 0 \<and>
     compare_node_id i (meta_db_uuid (content a t_meta)) = 0"

text \<open>A removed observer is gone, and the others stay in their order.\<close>

lemma remove_sync_apply_observer_filter:
  assumes "distinct (map obs_token (m_sync_apply_observers n))"
  shows "m_sync_apply_observers (snd (remove_sync_apply_observer own t n)) =
    filter (\<lambda>st. obs_token st \<noteq> t) (m_sync_apply_observers n)"
proof -
  have "(case dropWhile (\<lambda>st. obs_token st \<noteq> t) os of [] \<Rightarrow> os | _ # rest \<Rightarrow> takeWhile (\<lambda>st. obs_token st \<noteq> t) os @ rest) =
      filter (\<lambda>st. obs_token st \<noteq> t) os" if "distinct (map obs_token os)" for os :: "sync_apply_observer_state list"
    using that
  proof (induction os)
    case (Cons st os)
    show ?case
    proof (cases "obs_token st = t")
      case True
      with Cons.prems have "filter (\<lambda>st. obs_token st \<noteq> t) os = os" by (auto intro!: filter_True simp: image_iff)
      with True show ?thesis by simp
    qed (use Cons in \<open>simp del: dropWhile_eq_Nil_conv split: list.splits\<close>)
  qed simp
  from this [OF assms] show ?thesis
    by (simp add: remove_sync_apply_observer_def del: dropWhile_eq_Nil_conv split: list.splits)
qed

text \<open>The node after its observers have been told.\<close>

definition notified :: "push_counts \<Rightarrow> 'e node \<Rightarrow> 'e node" where
  "notified = (\<lambda>(batches, opcount, names) n.
     if batches \<noteq> 0 then snd (bindM (mark_sync_apply_committed batches opcount names) notify_sync_apply_observers n)
     else n)"

lemma notify_total:
  "bindM (mark_sync_apply_committed batches opcount names) notify_sync_apply_observers n =
    (Inr (), snd (bindM (mark_sync_apply_committed batches opcount names) notify_sync_apply_observers n))"
  by (simp add: bindM_def mark_sync_apply_committed_def notify_sync_apply_observers_def Let_def)

lemma wp_notify:
  "wp (if batches \<noteq> 0 then bindM (mark_sync_apply_committed batches opcount names) notify_sync_apply_observers
     else ret ()) Q E n = Q () (notified (batches, opcount, names) n)"
  using notify_total [of batches opcount names n] by (auto simp: wp_def notified_def run_simps)

lemma notified_env [simp]: "node_env (notified p n) = node_env n"
proof -
  have "node_env (fold (\<lambda>t n. finish_sync_apply_observer_callback t (n\<lparr>delivered := delivered n @ [(t, ev)]\<rparr>)) ts n) = node_env n"
    for ts ev and n :: "'a node"
    by (induction ts arbitrary: n) (simp_all add: finish_sync_apply_observer_callback_def)
  then show ?thesis
    by (cases p) (simp add: notified_def bindM_def mark_sync_apply_committed_def notify_sync_apply_observers_def Let_def)
qed

lemma mark_set_env:
  "mark_sync_apply_committed batches opcount names (n\<lparr>node_env := e\<rparr>) =
    apsnd (\<lambda>n. n\<lparr>node_env := e\<rparr>) (mark_sync_apply_committed batches opcount names n)"
  by (simp add: mark_sync_apply_committed_def Let_def)

lemma notify_set_env:
  "notify_sync_apply_observers x (n\<lparr>node_env := e\<rparr>) = apsnd (\<lambda>n. n\<lparr>node_env := e\<rparr>) (notify_sync_apply_observers x n)"
proof -
  let ?f = "\<lambda>ev t n. finish_sync_apply_observer_callback t (n\<lparr>delivered := delivered n @ [(t, ev)]\<rparr>)"
  have c: "?f ev t (n\<lparr>node_env := e\<rparr>) = (?f ev t n)\<lparr>node_env := e\<rparr>" for ev t and n :: "'a node"
    by (simp add: finish_sync_apply_observer_callback_def)
  have "fold (?f ev) ts (n\<lparr>node_env := e\<rparr>) = (fold (?f ev) ts n)\<lparr>node_env := e\<rparr>" for ts ev and n :: "'a node"
    by (induction ts arbitrary: n) (simp_all only: fold_simps c)
  then show ?thesis by (simp add: notify_sync_apply_observers_def split: prod.splits)
qed

lemma notified_set_env: "notified p (n\<lparr>node_env := e\<rparr>) = (notified p n)\<lparr>node_env := e\<rparr>"
  by (cases p) (simp add: notified_def bindM_def mark_set_env notify_set_env split: prod.splits sum.splits)

definition mismatch_response :: "adb \<Rightarrow> push_response" where
  "mismatch_response a = new_push_response\<lparr>push_ok := False, push_error := ''db_id mismatch'',
     push_error_code := DbIdMismatch, receiver_have := applied_cursor_of (content a t_applied)\<rparr>"

definition conflict_response :: "(mdbx_rc \<Rightarrow> int) \<Rightarrow> apply_outcome \<Rightarrow> adb \<Rightarrow> push_response" where
  "conflict_response code v a = new_push_response\<lparr>push_ok := False, push_error := apply_conflict_message code v,
     push_error_code := ApplyConflict, push_error_retryable := (ao_conflict_reason v = SequenceGap),
     receiver_have := applied_cursor_of (content a t_applied)\<rparr>"

definition success_response :: "adb \<Rightarrow> push_response" where
  "success_response a = new_push_response\<lparr>push_ok := True, receiver_have := applied_cursor_of (content a t_applied)\<rparr>"

definition receiver_ready :: "(string \<rightharpoonup> u32) \<Rightarrow> adb \<Rightarrow> bool" where
  "receiver_ready F a \<longleftrightarrow> receiver_inv a \<and> compatible F a \<and> a_tables a t_meta \<noteq> None"

lemma receiver_ready_tables: "a_tables a = a_tables b \<Longrightarrow> receiver_ready F a = receiver_ready F b"
  by (simp add: receiver_ready_def same_tables [of a b])

context mdbx_environment
begin

text \<open>The state after a push that was committed.\<close>

definition pushed :: "(string \<rightharpoonup> u32) \<Rightarrow> db \<times> change_batch list \<Rightarrow> 'e node \<Rightarrow> 'e node \<Rightarrow> bool" where
  "pushed F r n n' \<longleftrightarrow> content (nview n') = fst r \<and> receiver_ready F (nview n') \<and>
     n' = (notified (push_counts (snd r) (0, 0, [])) n)\<lparr>node_env := node_env n'\<rparr>"

lemma wp_db_id_matches:
  assumes "sys_ok (nview n)" "committed (node_env n) t_meta \<noteq> None"
    and "\<And>n'. unchanged committed n n' \<Longrightarrow> Q (same_db (nview n) i) n'"
    and "\<And>e n'. faulted e \<Longrightarrow> unchanged committed n n' \<Longrightarrow> E e n'"
  shows "wp (db_id_matches M T i) Q E n"
  using assms by (auto intro!: wp_db_uuid simp: db_id_matches_def wp_simps same_db_def)

lemma pushed_unchanged: "pushed F r n n1 \<Longrightarrow> unchanged committed n1 n2 \<Longrightarrow> pushed F r n n2"
  unfolding pushed_def using unchanged_view [of committed n1 n2 T]
  by (metis (no_types, lifting) node.surjective node.update_convs(1) unchanged_def)

lemma wp_handle_push:
  assumes n: "receiver_ready F (nview n)" and F: "flags_ok M F" "\<forall>b \<in> set (push_batches request). flags_agree M F b"
    and mism: "\<And>n'. \<not> same_db (nview n) (push_db_id request) \<Longrightarrow> unchanged committed n n' \<Longrightarrow>
      Q (mismatch_response (nview n)) n'"
    and conf: "\<And>v n'. same_db (nview n) (push_db_id request) \<Longrightarrow>
      push_spec M policy (push_batches request) (content (nview n)) = Inl v \<Longrightarrow> unchanged committed n n' \<Longrightarrow>
      Q (conflict_response (rc_value T) v (nview n)) n'"
    and good: "\<And>r n'. same_db (nview n) (push_db_id request) \<Longrightarrow>
      push_spec M policy (push_batches request) (content (nview n)) = Inr r \<Longrightarrow> pushed F r n n' \<Longrightarrow>
      Q (success_response (nview n')) n'"
    and E: "\<And>e n'. faulted e \<Longrightarrow> unchanged committed n n' \<or>
      (\<exists>r. same_db (nview n) (push_db_id request) \<and>
        push_spec M policy (push_batches request) (content (nview n)) = Inr r \<and> pushed F r n n') \<Longrightarrow> E e n'"
  shows "wp (handle_push M T policy request) Q E n"
proof -
  let ?K = "\<lambda>r t'. case r of
       Inl outcome \<Rightarrow>
         thenM (rollback_txn T t') (bindM (applied_cursor M T) (\<lambda>cur.
         ret (new_push_response\<lparr>push_ok := False, push_error := apply_conflict_message (rc_value T) outcome,
                push_error_code := ApplyConflict,
                push_error_retryable := (ao_conflict_reason outcome = SequenceGap),
                receiver_have := cur\<rparr>)))
     | Inr (batches, opcount, names) \<Rightarrow>
         thenM (commit_txn T t')
         (thenM (if batches \<noteq> 0
                 then bindM (mark_sync_apply_committed batches opcount names) notify_sync_apply_observers
                 else ret ())
         (bindM (applied_cursor M T) (\<lambda>cur. ret (new_push_response\<lparr>push_ok := True, receiver_have := cur\<rparr>))))"
  let ?same = "same_db (nview n) (push_db_id request)"
  let ?spec = "push_spec M policy (push_batches request) (content (nview n))"
  have inv: "receiver_inv (nview n)" "compatible F (nview n)" "committed (node_env n) t_meta \<noteq> None"
    "sys_ok (nview n)"
    using n by (auto simp: receiver_ready_def receiver_inv_def)
  have E1: "E x n'" if "faulted x" "unchanged committed n n'" for x n' using E that by blast
  have E2: "E (MdbxException c rc) n'" if "fails rc" "unchanged committed n n'" for c rc n'
    using that by (intro E1) simp_all
  have cur: "wp (applied_cursor M T) Q' E n1"
    if "unchanged committed n n1" "\<And>n'. unchanged committed n n' \<Longrightarrow> Q' (applied_cursor_of (content (nview n) t_applied)) n'" for Q' n1
    by (rule wp_applied_cursor, unfold unchanged_view [OF that(1), of T])
      (fact inv(4), erule that(2) [OF unchanged_trans [OF that(1)]], erule E1 [OF _ unchanged_trans [OF that(1)]])
  have fin: "wp (commit_txn T t') (\<lambda>_. wp (thenM (if batches \<noteq> 0
        then bindM (mark_sync_apply_committed batches opcount names) notify_sync_apply_observers else ret ())
      (bindM (applied_cursor M T) (\<lambda>cur. ret (new_push_response\<lparr>push_ok := True, receiver_have := cur\<rparr>)))) Q E) E n1"
    if n1: "unchanged committed n n1" and s: ?same "?spec = Inr r"
      and t': "ok t'" "receiver_ready F (view t')" "content (view t') = fst r"
      and c: "(batches, opcount, names) = push_counts (snd r) (0, 0, [])" for n1 r t' batches opcount names
  proof (rule wp_commit_txn [OF t'(1)])
    fix e
    assume e: "committed e = a_tables (view t')"
    let ?n2 = "notified (batches, opcount, names) (n1\<lparr>node_env := e\<rparr>)"
    have v: "a_tables (nview ?n2) = a_tables (view t')" using e by simp
    have "n1 = n\<lparr>node_env := node_env n1\<rparr>" using n1 by (simp add: unchanged_def)
    then have "n1\<lparr>node_env := e\<rparr> = n\<lparr>node_env := e\<rparr>" by (metis node.update_convs(1) node.surjective)
    moreover have "notified p (n\<lparr>node_env := e\<rparr>) = (notified p n)\<lparr>node_env := e\<rparr>" for p by (rule notified_set_env)
    ultimately have p: "pushed F r n ?n2"
      using same_tables(1) [OF v] receiver_ready_tables [OF v] t'(2,3) c by (simp add: pushed_def)
    have "sys_ok (nview ?n2)" using p unfolding pushed_def receiver_ready_def receiver_inv_def by blast
    then have "wp (applied_cursor M T) (\<lambda>cur. Q (new_push_response\<lparr>push_ok := True, receiver_have := cur\<rparr>)) E ?n2"
    proof (rule wp_applied_cursor)
      fix n'
      assume u: "unchanged committed ?n2 n'"
      from good [OF s pushed_unchanged [OF p u]]
      show "Q (new_push_response\<lparr>push_ok := True, receiver_have := applied_cursor_of (content (nview ?n2) t_applied)\<rparr>) n'"
        unfolding success_response_def unchanged_view [OF u, of T] .
    next
      fix x n'
      assume "faulted x" "unchanged committed ?n2 n'"
      then show "E x n'" using E [of x n'] s pushed_unchanged [OF p] by blast
    qed
    then show "wp (thenM (if batches \<noteq> 0
        then bindM (mark_sync_apply_committed batches opcount names) notify_sync_apply_observers else ret ())
      (bindM (applied_cursor M T) (\<lambda>cur. ret (new_push_response\<lparr>push_ok := True, receiver_have := cur\<rparr>)))) Q E (n1\<lparr>node_env := e\<rparr>)"
      unfolding wp_thenM wp_notify wp_bindM wp_ret .
  qed (rule E2, assumption, erule unchanged_trans [OF n1])
  have step: "wp (in_txn T t (push_loop M (env_handle T) policy (push_batches request) (0, 0, []))) (\<lambda>a. wp (case a of (r, t') \<Rightarrow> ?K r t') Q E) E n1"
    if n1: "unchanged committed n n1" and s: ?same
      and t: "ok t" "a_tables (view t) = committed (node_env n)" "a_writable (view t)" "a_env (view t) = env_handle T" for n1 t
  proof (rule wp_in_txn [OF t(1)])
    let ?P = "\<lambda>r a'. receiver_ready F a' \<and> (case ?spec of Inl v \<Rightarrow> r = Inl v
       | Inr (c', as) \<Rightarrow> r = Inr (push_counts as (0, 0, [])) \<and> content a' = c')"
    have same: "content (view t) = content (nview n)" "receiver_inv (view t)" "compatible F (view t)"
      using same_tables [of "view t" "nview n"] t(2) inv by auto
    have "a_tables a' t_meta \<noteq> None" if "grow (view t) a'" for a'
      using that inv(3) t(2) by (auto simp: grow_def dom_def)
    then show "awp (push_loop M (env_handle T) policy (push_batches request) (0, 0, [])) ?P faulted (view t)"
      by (intro awp_push_loop [OF F(1) _ same(2) t(3,4) same(3) F(2)])
        (auto simp: receiver_ready_def same(1))
  next
    fix r t'
    assume t': "ok t'" "receiver_ready F (view t') \<and> (case ?spec of Inl v \<Rightarrow> r = Inl v
       | Inr (c', as) \<Rightarrow> r = Inr (push_counts as (0, 0, [])) \<and> content (view t') = c')"
    show "wp (case (r, t') of (r, t') \<Rightarrow> ?K r t') Q E n1"
    proof (cases ?spec)
      case (Inl v)
      have "wp (thenM (rollback_txn T t') (bindM (applied_cursor M T) (\<lambda>cur. ret
         (new_push_response\<lparr>push_ok := False, push_error := apply_conflict_message (rc_value T) v,
                push_error_code := ApplyConflict,
                push_error_retryable := (ao_conflict_reason v = SequenceGap),
                receiver_have := cur\<rparr>)))) Q E n1"
        unfolding wp_thenM
        by (rule wp_rollback_txn, unfold wp_bindM wp_ret, rule cur, erule unchanged_trans [OF n1],
            fold conflict_response_def, erule conf [OF s Inl], erule E2 [OF _ unchanged_trans [OF n1]])
      with Inl t'(2) show ?thesis by simp
    next
      case (Inr r')
      obtain b opc ns where c: "push_counts (snd r') (0, 0, []) = (b, opc, ns)" by (metis prod.exhaust)
      have "content (view t') = fst r'" "r = Inr (b, opc, ns)" using t'(2) Inr c by (auto split: prod.splits)
      with fin [OF n1 s Inr t'(1) _ _ c [symmetric]] t'(2) show ?thesis by (simp add: wp_thenM)
    qed
  qed (erule E1, erule unchanged_trans [OF n1])
  have rest: "wp (bindM (begin_txn T False begin_failed) (\<lambda>t.
     bindM (in_txn T t (push_loop M (env_handle T) policy (push_batches request) (0, 0, []))) (\<lambda>(r, t'). ?K r t'))) Q E n1"
    if n1: "unchanged committed n n1" and s: ?same for n1
  proof -
    have e: "committed (node_env n1) = committed (node_env n)" using n1 by (simp add: unchanged_def)
    show ?thesis
      unfolding wp_bindM
      by (rule wp_begin_txn)
        (unfold e, rule step, erule unchanged_trans [OF n1], rule s, simp_all add: E2 unchanged_trans [OF n1])
  qed
  show ?thesis
    unfolding handle_push_def Let_def wp_bindM [of "db_id_matches M T (push_db_id request)"]
    by (rule wp_db_id_matches [OF inv(4,3)])
      (use rest cur mism E in \<open>auto simp: wp_bindM wp_ret mismatch_response_def\<close>)
qed

end

text \<open>With distinct tokens, every observer that asked for one of the tables is told once, in the order of
  registration, and its count of running calls is what it was.\<close>

lemma notify_fold:
  assumes "distinct ts"
  shows "fold (\<lambda>t n. finish_sync_apply_observer_callback t (n\<lparr>delivered := delivered n @ [(t, ev)]\<rparr>)) ts n =
    n\<lparr>m_sync_apply_observers := map (\<lambda>st. if obs_token st \<in> set ts \<and> in_flight st \<noteq> 0
        then st\<lparr>in_flight := in_flight st - 1\<rparr> else st) (m_sync_apply_observers n),
      delivered := delivered n @ map (\<lambda>t. (t, ev)) ts\<rparr>"
  using assms
proof (induction ts arbitrary: n)
  case (Cons t ts)
  have "(if obs_token st \<in> set ts \<and> in_flight st \<noteq> 0 then st\<lparr>in_flight := in_flight st - 1\<rparr> else st) =
      (if obs_token st \<in> set (t # ts) \<and> in_flight st \<noteq> 0 then st\<lparr>in_flight := in_flight st - 1\<rparr> else st)"
    if "obs_token st \<noteq> t" for st :: sync_apply_observer_state
    using that by simp
  with Cons show ?case
    by (simp add: finish_sync_apply_observer_callback_def comp_def cong: if_cong)
qed simp

lemma notified_eq:
  assumes "distinct (map obs_token (m_sync_apply_observers n))" "batches \<noteq> 0"
  shows "notified (batches, opcount, names) n = n\<lparr>m_sync_apply_generation := m_sync_apply_generation n + 1,
    delivered := delivered n @ map (\<lambda>st. (obs_token st, \<lparr>generation = m_sync_apply_generation n + 1,
      applied_batches = batches, applied_ops = opcount, affected_dbi_names = names\<rparr>))
      (filter (wants names) (m_sync_apply_observers n))\<rparr>"
proof -
  let ?os = "m_sync_apply_observers n" let ?ts = "map obs_token (filter (wants names) ?os)"
  have d: "distinct ?ts" using assms(1) by (rule distinct_map_filter)
  have t: "obs_token st \<in> set ?ts \<longleftrightarrow> wants names st" if "st \<in> set ?os" for st
    using assms(1) that by (auto simp: distinct_map inj_on_def)
  have "map (\<lambda>st. if obs_token st \<in> set ?ts \<and> in_flight st \<noteq> 0 then st\<lparr>in_flight := in_flight st - 1\<rparr> else st)
      (map (\<lambda>st. if wants names st then st\<lparr>in_flight := in_flight st + 1\<rparr> else st) ?os) = ?os"
    unfolding map_map by (rule map_idI) (use t in auto)
  then show ?thesis
    using assms(2) by (simp only: notified_def bindM_def mark_sync_apply_committed_def notify_sync_apply_observers_def
        Let_def prod.case sum.case notify_fold [OF d] if_True not_False_eq_True snd_conv simp_thms) (simp add: comp_def)
qed

section \<open>A pull\<close>

text \<open>The log a responder serves from, in the state that its own operations keep it in.\<close>

definition source_ready :: "adb \<Rightarrow> bool" where
  "source_ready a \<longleftrightarrow> sys_ok a \<and> a_tables a t_meta \<noteq> None \<and>
     pull_log (content a t_changelog) (content a t_origins)"

definition pull_spec :: "adb \<Rightarrow> pull_request \<Rightarrow> pull_response" where
  "pull_spec a request =
    (if \<not> same_db a (pull_db_id request)
     then new_pull_response\<lparr>pull_ok := False, pull_error := ''db_id mismatch'', pull_error_code := DbIdMismatch\<rparr>
     else if a_tables a t_changelog = None
     then new_pull_response\<lparr>remote_have := applied_cursor_of (content a t_applied), remote_tail_known := True\<rparr>
     else page_spec (content a t_changelog) (content a t_origins) (content a t_applied) request)"

context mdbx_environment
begin

lemma wp_handle_pull:
  assumes src: "source_ready (nview n)" and full: "\<not> request_full_snapshot request"
    and Q: "\<And>n'. unchanged committed n n' \<Longrightarrow> Q (pull_spec (nview n) request) n'"
    and E: "\<And>e n'. faulted e \<Longrightarrow> unchanged committed n n' \<Longrightarrow> E e n'"
  shows "wp (handle_pull M T h request) Q E n"
proof -
  let ?m = "bindM (open_changelog_ro M) (\<lambda>changelog_dbi.
        if changelog_dbi = 0
        then bindM (read_applied_cursor M (remote_have new_pull_response)) (\<lambda>rh.
          ret (new_pull_response\<lparr>remote_have := rh, remote_tail_known := True\<rparr>))
        else pull_changelog_page M (env_handle T) changelog_dbi request)"
  have inv: "sys_ok (nview n)" "committed (node_env n) t_meta \<noteq> None" and lg: "pull_log (content (nview n) t_changelog) (content (nview n) t_origins)"
    using src by (auto simp: source_ready_def)
  have page: "awp ?m (\<lambda>r _. r = pull_spec (nview n) request) faulted a"
    if s: "same_db (nview n) (pull_db_id request)"
      and a: "a_tables a = committed (node_env n)" "a_env a = env_handle T" for a
  proof -
    note same = same_tables [of a "nview n", simplified a(1) node_view_sel, OF refl]
    let ?st = "new_store (env_handle T) t_changelog"
    have o1: "openable ?st a" "openable (new_applied_store (env_handle T)) a"
      using inv(1) same(2) a(2) by (simp_all add: openable_def new_applied_store_def is_reserved_iff)
    have name: "c_str t_changelog = t_changelog" by simp
    have none: "awp (bindM (read_applied_cursor M []) (\<lambda>rh. ret (new_pull_response\<lparr>remote_have := rh, remote_tail_known := True\<rparr>)))
        (\<lambda>r _. r = pull_spec (nview n) request) faulted a" if "a_tables a t_changelog = None"
      by (rule awp_bindM, rule awp_read_applied_cursor [OF o1(2)])
        (use that s a(1) same(1) in \<open>auto intro!: awp_ret simp: pull_spec_def\<close>)
    have some: "awp (pull_changelog_page M (env_handle T) h request) (\<lambda>r _. r = pull_spec (nview n) request) faulted a'"
      if a': "ext a a'" "content a' = content a" "bound (?st\<lparr>m_dbi := h, m_open := True\<rparr>) a'" "a_tables a t_changelog \<noteq> None" for h a'
    proof -
      have "pull_ready (env_handle T) h a'"
        using a' a(2) same(1) pull_logD [OF lg] by (auto simp: pull_ready_def log_at_def new_store_def ext_def grow_def)
      then show ?thesis
        by (rule awp_pull_changelog_page) (use full s a(1) a'(2,4) same(1) in \<open>auto simp: pull_spec_def\<close>)
    qed
    have "awp (open_store_ro M (m_dbi_name ?st)) (\<lambda>changelog_dbi. awp (if changelog_dbi = 0
        then bindM (read_applied_cursor M []) (\<lambda>rh. ret (new_pull_response\<lparr>remote_have := rh, remote_tail_known := True\<rparr>))
        else pull_changelog_page M (env_handle T) changelog_dbi request) (\<lambda>r _. r = pull_spec (nview n) request) faulted) faulted a"
    proof (cases "a_tables a t_changelog = None")
      case True
      have "awp (api_dbi_open M (c_str t_changelog) 0) (\<lambda>r. awp (case r of (rc, dbi) \<Rightarrow> if rc = MDBX_NOTFOUND then ret 0
          else thenM (check_mdbx rc c) (ret dbi)) (\<lambda>d a'. d = 0 \<and> a' = a) faulted) faulted a" for c
        by (simp only: name, rule awp_dbi_open)
          (use True in \<open>auto intro!: awp_ret awp_thenM awp_check simp: dbi_opened_def\<close>)
      then have "awp (open_store_ro M t_changelog) (\<lambda>d a'. d = 0 \<and> a' = a) faulted a"
        unfolding open_store_ro_def by (rule awp_bindM)
      then show ?thesis
        unfolding new_store_sel by (rule awp_conseq) (use none [OF True] in auto)
    next
      case False
      then show ?thesis by (intro awp_open_store_ro [OF o1(1)]) (use some in auto)
    qed
    moreover have "remote_have new_pull_response = []" by (simp add: new_pull_response_def)
    ultimately show ?thesis unfolding open_changelog_ro_def by (intro awp_bindM) (simp only: new_store_sel)
  qed
  show ?thesis
    unfolding handle_pull_def Let_def wp_bindM [of "db_id_matches M T (pull_db_id request)"]
  proof (rule wp_db_id_matches [OF inv])
    fix n1
    assume n1: "unchanged committed n n1"
    have e: "committed (node_env n1) = committed (node_env n)" using n1 by (simp add: unchanged_def)
    show "wp (if \<not> same_db (nview n) (pull_db_id request)
        then ret (new_pull_response\<lparr>pull_ok := False, pull_error := ''db_id mismatch'', pull_error_code := DbIdMismatch\<rparr>)
        else if request_full_snapshot request then h request
        else read_txn T ''SyncEngine: failed to begin read txn for pull'' ?m) Q E n1"
    proof (cases "same_db (nview n) (pull_db_id request)")
      case True
      have "wp (read_txn T ''SyncEngine: failed to begin read txn for pull'' ?m) Q E n1"
        by (rule wp_read_txn [where P = "\<lambda>r. r = pull_spec (nview n) request"])
          (use page [OF True] e Q E unchanged_trans [OF n1] in auto)
      with True full show ?thesis by simp
    next
      case False
      with Q [OF n1] show ?thesis by (simp add: wp_ret pull_spec_def)
    qed
  qed (rule E)
qed

end

end
