(* ===== verification/Worker_Spec.thy ===== *)
theory Worker_Spec
  imports Sync_Worker Node_Spec
begin

text \<open>
  What a round of the worker does: it applies the batches that the source has and the receiver has
  not, in the order of the log, a page at a time.
\<close>

section \<open>The receiver's cursor\<close>

text \<open>The cursor that a node reports is the content of its applied store.\<close>

definition agrees :: "sync_cursor \<Rightarrow> (bytes \<rightharpoonup> bytes) \<Rightarrow> bool" where
  "agrees cur ap \<longleftrightarrow> (\<forall>o'. is_node_id o' \<longrightarrow> last_seq_for cur o' = applied_seq ap o')"

lemma applied_cursor_rows:
  assumes "distinct (map fst rs)" "length o' = 16"
  shows "last_seq_for (fold (\<lambda>(k, v). applied_row k v) rs cur) o' =
    (case map_of rs o' of None \<Rightarrow> last_seq_for cur o'
     | Some v \<Rightarrow> if length v = 8 then read_u64_le v else last_seq_for cur o')"
  using assms
proof (induction rs arbitrary: cur)
  case (Cons r rs)
  obtain k v where r: "r = (k, v)" by (cases r)
  have "o' = k \<Longrightarrow> map_of rs o' = None" using Cons.prems(1) r by (auto simp: map_of_eq_None_iff)
  with Cons r show ?case by (auto simp: applied_row_def split: option.splits)
qed simp

lemma map_of_rows_where:
  assumes "finite (dom m)"
  shows "map_of (rows_where (\<lambda>_. True) m) = m"
proof
  fix k
  show "map_of (rows_where (\<lambda>_. True) m) k = m k"
    using distinct_rows_where [OF assms] set_rows_where [OF assms, of "\<lambda>_. True"]
    by (cases "m k") (auto simp: map_of_eq_None_iff map_of_eq_Some_iff)
qed

lemma agrees_applied: "finite (dom ap) \<Longrightarrow> agrees (applied_cursor_of ap) ap"
proof -
  have "last_seq_for [] o' = 0" for o' by (simp add: last_seq_for_def)
  then show "finite (dom ap) \<Longrightarrow> agrees (applied_cursor_of ap) ap"
    by (auto simp: agrees_def applied_cursor_of_def is_node_id_def applied_cursor_rows distinct_rows_where
        map_of_rows_where applied_seq_def split: option.splits)
qed

lemma dues_cong:
  "(\<And>o'. o' \<in> set os \<Longrightarrow> last_seq_for cur o' = last_seq_for cur' o') \<Longrightarrow> dues lg cur os = dues lg cur' os"
  unfolding dues_def by (metis (no_types, lifting) map_cong)

section \<open>Applying what is due\<close>

lemma verdict_cases:
  assumes "origin_node_id b \<noteq> meta_node_id (c t_meta)" "is_node_id (origin_node_id b)"
    "is_node_id (meta_node_id (c t_meta))" "applied_seq (c t_applied) (origin_node_id b) < seq b"
  shows "ao_result (verdict M policy b c) \<noteq> Skipped"
proof -
  have "compare_node_id (origin_node_id b) (meta_node_id (c t_meta)) \<noteq> 0"
    using assms(1-3) by (simp add: compare_node_id_eq is_node_id_def)
  with assms(4) show ?thesis
    by (auto simp: verdict_def Let_def not_le dest: validate_spec_result collect_result split: option.splits sum.splits)
qed

text \<open>
  Batches that are due are neither old nor the receiver's own, so a push that meets no conflict applies
  each of them, and afterwards the applied store says what the advanced cursor says.
\<close>

lemma push_dues:
  assumes lg: "finite (dom lg)" "log_ok lg" "log_faithful lg" "distinct os"
    and own: "\<forall>p \<in> set (dues lg cur os). origin_node_id (fst p) \<noteq> meta_node_id (c t_meta) \<and> is_node_id (origin_node_id (fst p))"
    and c: "meta_node_ok (c t_meta)" "agrees cur (c t_applied)"
    and r: "push_spec M policy (map fst (take n (dues lg cur os))) c = Inr (c', as)"
  shows "as = map fst (take n (dues lg cur os)) \<and> c' t_meta = c t_meta \<and>
    agrees (advance cur (map fst (take n (dues lg cur os)))) (c' t_applied)"
  using own c r
proof (induction n arbitrary: cur c as)
  case 0
  then show ?case by (auto simp: advance_def)
next
  case (Suc n)
  show ?case
  proof (cases "dues lg cur os")
    case Nil
    with Suc.prems show ?thesis by (auto simp: advance_def)
  next
    case (Cons x rest)
    let ?b = "fst x" let ?cur = "map_set (origin_node_id ?b) (seq ?b) cur" let ?c = "applied_content ?b c"
    let ?v = "verdict M policy ?b c"
    have node: "origin_node_id ?b \<noteq> meta_node_id (c t_meta)" "is_node_id (origin_node_id ?b)"
      using Suc.prems(1) Cons by auto
    have "last_seq_for cur (origin_node_id ?b) < seq ?b"
      using dues_origin(2) [OF lg(1-3), of x cur os] Cons by simp
    then have "ao_result ?v \<noteq> Skipped"
      using Suc.prems(2,3) node by (intro verdict_cases) (auto simp: agrees_def)
    with Suc.prems(4) Cons have ap: "ao_result ?v = Applied" and rest: "\<exists>bs. push_spec M policy (map fst (take n rest)) ?c = Inr (c', bs) \<and> as = ?b # bs"
      by (auto simp: Let_def split: apply_result.splits sum.splits)
    then obtain bs where bs: "push_spec M policy (map fst (take n rest)) ?c = Inr (c', bs)" "as = ?b # bs" by blast
    note res = verdict_Applied(4) [OF ap]
    have m: "?c t_meta = c t_meta" using applied_reserved [OF res] by simp
    have ag: "agrees ?cur (?c t_applied)"
      using Suc.prems(3) applied_content_applied [OF res, of c] by (auto simp: agrees_def)
    have d: "dues lg ?cur os = rest" using lg Cons by (rule dues_step)
    have "bs = map fst (take n (dues lg ?cur os)) \<and> c' t_meta = ?c t_meta \<and>
      agrees (advance ?cur (map fst (take n (dues lg ?cur os)))) (c' t_applied)"
      by (rule Suc.IH) (use Suc.prems(1,2) Cons m ag bs(1) in \<open>auto simp: d\<close>)
    then show ?thesis using bs(2) m Cons by (simp add: d advance_def)
  qed
qed

text \<open>The cursor after a page that was applied: what is due is the rest, and it can still be served.\<close>

lemma page_applied:
  assumes lg: "pull_log lg ix" and s: "servable lg ix request"
    and own: "\<forall>p \<in> set (dues lg (have_cursor request) (origins_of lg ix)).
      origin_node_id (fst p) \<noteq> meta_node_id (c t_meta) \<and> is_node_id (origin_node_id (fst p))"
    and c: "meta_node_ok (c t_meta)" "agrees (have_cursor request) (c t_applied)"
    and r: "push_spec M policy (map fst (take n (dues lg (have_cursor request) (origins_of lg ix)))) c = Inr (c', as)"
    and cur: "agrees cur (c' t_applied)"
  shows "dues lg cur (origins_of lg ix) = drop n (dues lg (have_cursor request) (origins_of lg ix))"
    and "servable lg ix (request\<lparr>have_cursor := cur\<rparr>)" and "c' t_meta = c t_meta"
    and "n \<noteq> 0 \<Longrightarrow> dues lg (have_cursor request) (origins_of lg ix) \<noteq> [] \<Longrightarrow> cur \<noteq> have_cursor request"
proof -
  note D = pull_logD [OF lg]
  let ?ds = "dues lg (have_cursor request) (origins_of lg ix)"
  let ?adv = "advance (have_cursor request) (map fst (take n ?ds))"
  note P = push_dues [OF D(1,3,5) origins_of_distinct [OF lg] own c r]
  have eq: "last_seq_for cur o' = last_seq_for ?adv o'" if "is_node_id o'" for o'
    using P cur that by (simp add: agrees_def)
  have node: "is_node_id (po_origin po)" if "po \<in> set (known_origins lg ix)" for po
    using known_origins_node [OF D(1-4) that] .
  have "dues lg cur (origins_of lg ix) = dues lg ?adv (origins_of lg ix)"
    by (rule dues_cong) (use eq node in auto)
  also have "\<dots> = drop n ?ds"
    using dues_advance [OF D(1,3,5) origins_of_distinct [OF lg]] by blast
  finally show d: "dues lg cur (origins_of lg ix) = drop n ?ds" .
  have "retained lg (request\<lparr>have_cursor := cur\<rparr>) po" if "po \<in> set (known_origins lg ix)" for po
  proof -
    have "retained lg (request\<lparr>have_cursor := ?adv\<rparr>) po"
      using servable_next [OF lg s, of n] that by (simp add: servable_def)
    then show ?thesis using eq [OF node [OF that]] by (simp add: retained_def origin_is_at_tail_def)
  qed
  with s show "servable lg ix (request\<lparr>have_cursor := cur\<rparr>)" by (simp add: servable_def)
  show "c' t_meta = c t_meta" using P by blast
  show "cur \<noteq> have_cursor request" if n: "n \<noteq> 0" "?ds \<noteq> []"
  proof
    assume "cur = have_cursor request"
    with d have "length ?ds = length (drop n ?ds)" by metis
    then have "length ?ds = 0" using n(1) unfolding length_drop by presburger
    with n(2) show False by simp
  qed
qed

section \<open>A page of the round\<close>

lemma compare_self [simp]: "compare_node_id i i = 0"
  by (induction i) simp_all

locale replication =
  here: mdbx_environment M ok view cursor_dbi cursor_at fails T committed +
  there: mdbx_environment M' ok' view' cursor_dbi' cursor_at' fails' T' committed'
  for M :: "('t, 'c) mdbx" and ok view cursor_dbi cursor_at fails and T :: "('e, 't) mdbx_txns" and committed
    and M' :: "('u, 'd) mdbx" and ok' view' cursor_dbi' cursor_at' fails' and T' :: "('f, 'u) mdbx_txns" and committed'
begin

abbreviation fault :: bool where
  "fault \<equiv> (\<exists>rc. fails rc \<or> fails' rc)"

lemma fault_here: "here.faulted e \<Longrightarrow> fault"
  by (auto simp: here.faulted_def)

lemma fault_there: "there.faulted e \<Longrightarrow> fault"
  by (auto simp: there.faulted_def)

definition due_batches :: "'f node \<Rightarrow> sync_cursor \<Rightarrow> change_batch list" where
  "due_batches p cur = (let a = there.nview p in
     map fst (dues (content a t_changelog) cur (origins_of (content a t_changelog) (content a t_origins))))"

text \<open>Before every page: both nodes are in order, the request carries the receiver's own cursor and can be
  served, and none of the batches that are due is the receiver's own.\<close>

definition round_inv :: "(string \<rightharpoonup> u32) \<Rightarrow> pull_request \<Rightarrow> 'e node \<Rightarrow> 'f node \<Rightarrow> bool" where
  "round_inv F request n p \<longleftrightarrow> flags_ok M F \<and> receiver_ready F (here.nview n) \<and> source_ready (there.nview p) \<and>
     same_db (here.nview n) (pull_db_id request) \<and> same_db (there.nview p) (pull_db_id request) \<and>
     have_cursor request = applied_cursor_of (content (here.nview n) t_applied) \<and>
     servable (content (there.nview p) t_changelog) (content (there.nview p) t_origins) request \<and>
     (\<forall>b \<in> set (due_batches p (have_cursor request)). flags_agree M F b \<and>
        origin_node_id b \<noteq> meta_node_id (content (here.nview n) t_meta))"

lemma pull_spec_page:
  assumes "round_inv F request n p"
  obtains j where "j \<le> length (due_batches p (have_cursor request))"
    "pull_batches (pull_spec (there.nview p) request) = take j (due_batches p (have_cursor request))"
    "has_more (pull_spec (there.nview p) request) \<longleftrightarrow> j < length (due_batches p (have_cursor request))"
    "has_more (pull_spec (there.nview p) request) \<Longrightarrow> j \<noteq> 0"
    "pull_ok (pull_spec (there.nview p) request)"
proof -
  let ?a = "there.nview p" let ?lg = "content ?a t_changelog" let ?ix = "content ?a t_origins"
  have I: "pull_log ?lg ?ix" "servable ?lg ?ix request" "same_db ?a (pull_db_id request)"
    using assms by (auto simp: round_inv_def source_ready_def)
  show thesis
  proof (cases "a_tables ?a t_changelog = None")
    case True
    then have "?lg = Map.empty" by (simp add: content_def)
    then have "due_batches p (have_cursor request) = []"
      by (simp add: due_batches_def dues_def pending_def pending_rows_def rows_where_def)
    with True I(3) show thesis by (intro that [of 0]) (simp_all add: pull_spec_def new_pull_response_def)
  next
    case False
    with I(3) have eq: "pull_spec ?a request = page_spec ?lg ?ix (content ?a t_applied) request"
      by (auto simp: pull_spec_def)
    have good: "pull_ok (pull_spec ?a request)" unfolding eq using I(1,2) by (rule servable_ok)
    have limits: "max_batches request \<noteq> 0" "max_bytes request \<noteq> 0" using I(2) by (auto simp: servable_def)
    show thesis
      by (rule page_spec_batches [OF I(1) good [unfolded eq]])
        (rule that, use good limits in \<open>auto simp: eq due_batches_def Let_def take_map\<close>)
  qed
qed

text \<open>After a page that was applied, the invariant holds with the rest of what was due.\<close>

lemma round_inv_next:
  assumes I: "round_inv F request n p"
    and r: "push_spec M policy (take j (due_batches p (have_cursor request))) (content (here.nview n)) = Inr r"
    and n': "here.pushed F r n n1" "unchanged committed n1 n'" and p': "unchanged committed' p p'"
    and cur: "cur = applied_cursor_of (content (here.nview n') t_applied)"
  shows "round_inv F (request\<lparr>have_cursor := cur\<rparr>) n' p'"
    and "due_batches p' cur = drop j (due_batches p (have_cursor request))"
    and "j \<noteq> 0 \<Longrightarrow> due_batches p (have_cursor request) \<noteq> [] \<Longrightarrow> cur \<noteq> have_cursor request"
    and "content (here.nview n') = fst r"
proof -
  let ?a = "there.nview p" let ?lg = "content ?a t_changelog" let ?ix = "content ?a t_origins"
  let ?c = "content (here.nview n)" let ?ds = "dues ?lg (have_cursor request) (origins_of ?lg ?ix)"
  have P: "here.pushed F r n n'" by (rule here.pushed_unchanged [OF n'])
  then show c': "content (here.nview n') = fst r" by (simp add: here.pushed_def)
  have v: "there.nview p' = ?a" by (rule unchanged_view [OF p'])
  have lg: "pull_log ?lg ?ix" "servable ?lg ?ix request" and own: "\<forall>x \<in> set ?ds.
      origin_node_id (fst x) \<noteq> meta_node_id (?c t_meta) \<and> is_node_id (origin_node_id (fst x))"
    and c: "meta_node_ok (?c t_meta)" "have_cursor request = applied_cursor_of (?c t_applied)"
    using I by (auto simp: round_inv_def source_ready_def due_batches_def Let_def flags_agree_def receiver_ready_def receiver_inv_def)
  have ag: "agrees (have_cursor request) (?c t_applied)" "agrees cur (fst r t_applied)"
    using c(2) cur agrees_applied [OF here.content_finite] by (auto simp flip: c')
  have r': "push_spec M policy (map fst (take j ?ds)) ?c = Inr (fst r, snd r)"
    using r by (simp add: due_batches_def Let_def take_map)
  note A = page_applied [OF lg own c(1) ag(1) r' ag(2)]
  show d: "due_batches p' cur = drop j (due_batches p (have_cursor request))"
    by (simp add: due_batches_def v Let_def A(1) drop_map)
  show "cur \<noteq> have_cursor request" if "j \<noteq> 0" "due_batches p (have_cursor request) \<noteq> []"
    using A(4) that by (simp add: due_batches_def Let_def)
  have "set (due_batches p' cur) \<subseteq> set (due_batches p (have_cursor request))"
    unfolding d by (rule set_drop_subset)
  then show "round_inv F (request\<lparr>have_cursor := cur\<rparr>) n' p'"
    using I P A(2,3) c' cur unfolding round_inv_def v by (auto simp: here.pushed_def same_db_def)
qed

text \<open>The calls of a page.\<close>

lemma pull_run:
  assumes "round_inv F request n p" "handle_pull M' T' h request p = (r, p')"
  shows "unchanged committed' p p' \<and>
    (case r of Inl e \<Rightarrow> fault | Inr response \<Rightarrow> response = pull_spec (there.nview p) request)"
proof -
  have "source_ready (there.nview p)" "\<not> request_full_snapshot request"
    using assms(1) by (auto simp: round_inv_def servable_def)
  then have "wp (handle_pull M' T' h request) (\<lambda>x p'. unchanged committed' p p' \<and> x = pull_spec (there.nview p) request)
      (\<lambda>e p'. unchanged committed' p p' \<and> fault) p"
    by (intro there.wp_handle_pull) (auto dest: fault_there)
  with assms(2) show ?thesis by (simp add: wp_def split: sum.splits)
qed

lemma push_run:
  assumes I: "round_inv F request n p"
    and spec: "push_spec M policy (take j (due_batches p (have_cursor request))) (content (here.nview n)) = Inr r"
    and run: "handle_push M T policy \<lparr>sender = make_zero_node, push_db_id = pull_db_id request,
      push_batches = take j (due_batches p (have_cursor request))\<rparr> n = (x, n')"
  shows "case x of Inl e \<Rightarrow> fault \<and> (unchanged committed n n' \<or> here.pushed F r n n')
    | Inr response \<Rightarrow> push_ok response \<and> here.pushed F r n n'"
proof -
  let ?q = "\<lparr>sender = make_zero_node, push_db_id = pull_db_id request,
      push_batches = take j (due_batches p (have_cursor request))\<rparr>"
  have pre: "receiver_ready F (here.nview n)" "flags_ok M F" "\<forall>b \<in> set (push_batches ?q). flags_agree M F b"
    "same_db (here.nview n) (push_db_id ?q)"
    using I by (auto simp: round_inv_def dest: in_set_takeD)
  have spec': "push_spec M policy (push_batches ?q) (content (here.nview n)) = Inr r" using spec by simp
  have "wp (handle_push M T policy ?q) (\<lambda>x n'. push_ok x \<and> here.pushed F r n n')
      (\<lambda>e n'. fault \<and> (unchanged committed n n' \<or> here.pushed F r n n')) n"
    by (rule here.wp_handle_push [OF pre(1-3)])
      (use pre(4) spec' in \<open>auto simp: success_response_def dest: fault_here\<close>)
  with run show ?thesis by (simp add: wp_def split: sum.splits)
qed

lemma cursor_run:
  assumes "receiver_ready F (here.nview n)" "applied_cursor M T n = (x, n')"
  shows "unchanged committed n n' \<and>
    (case x of Inl e \<Rightarrow> fault | Inr cur \<Rightarrow> cur = applied_cursor_of (content (here.nview n') t_applied))"
proof -
  have "sys_ok (here.nview n)" using assms(1) by (simp add: receiver_ready_def receiver_inv_def)
  then have "wp (applied_cursor M T) (\<lambda>x n'. unchanged committed n n' \<and> x = applied_cursor_of (content (here.nview n) t_applied))
      (\<lambda>e n'. unchanged committed n n' \<and> fault) n"
    by (intro here.wp_applied_cursor) (auto dest: fault_here)
  with assms(2) show ?thesis
    using unchanged_view [of committed n n' T] by (auto simp: wp_def split: sum.splits)
qed

text \<open>What a turn of the loop achieves: \<open>j\<close> is the number of batches it has applied.\<close>

definition turn :: "(string \<rightharpoonup> u32) \<Rightarrow> conflict_policy \<Rightarrow> 'f node surroundings \<Rightarrow> pull_request \<Rightarrow> round_result \<Rightarrow>
    'e node \<Rightarrow> 'f node \<Rightarrow> nat \<Rightarrow> page_step \<times> 'e node \<times> 'f node \<Rightarrow> bool" where
  "turn F policy W request result n p j out = (case out of (step, n', p') \<Rightarrow>
     let due = due_batches p (have_cursor request) in
     unchanged committed' p p' \<and> j \<le> length due \<and>
     (\<exists>bs. push_spec M policy (take j due) (content (here.nview n)) = Inr (content (here.nview n'), bs)) \<and>
     (case step of
        Return res \<Rightarrow> (round_ok res \<longrightarrow> \<not> (\<forall>i k. gate W i k)) \<and> (\<not> round_ok res \<longrightarrow> fault)
      | Next req res again \<Rightarrow> round_inv F req n' p' \<and> due_batches p' (have_cursor req) = drop j due \<and>
          again = (j < length due) \<and> (again \<longrightarrow> j \<noteq> 0) \<and> round_ok res \<and> round_has_more res = again \<and>
          batches_applied res = batches_applied result + j))"

lemma push_spec_take:
  assumes "push_spec M policy bs c = Inr r"
  shows "\<exists>r1. push_spec M policy (take j bs) c = Inr r1 \<and>
    (\<exists>as. push_spec M policy (drop j bs) (fst r1) = Inr (fst r, as))"
  using push_spec_append [of M policy "take j bs" "drop j bs" c] assms
  by (auto split: sum.splits prod.splits)

lemma apply_page_turn:
  assumes I: "round_inv F request n p" and p1: "unchanged committed' p p1"
    and spec: "push_spec M policy (due_batches p (have_cursor request)) (content (here.nview n)) = Inr r0"
    and result: "round_ok result"
    and j: "j \<le> length (due_batches p (have_cursor request))" "j \<noteq> 0"
      "pull_batches response = take j (due_batches p (have_cursor request))"
      "has_more response \<longleftrightarrow> j < length (due_batches p (have_cursor request))"
  shows "\<exists>k. turn F policy W request result n p k (apply_page M T policy W i request result response (n, p1))"
proof -
  let ?due = "due_batches p (have_cursor request)"
  obtain r where r: "push_spec M policy (take j ?due) (content (here.nview n)) = Inr r"
    using push_spec_take [OF spec] by blast
  let ?q = "\<lparr>sender = make_zero_node, push_db_id = pull_db_id request, push_batches = pull_batches response\<rparr>"
  have none: "turn F policy W request result n p 0 (Return res, n', p1)"
    if "unchanged committed n n'" "round_ok res \<Longrightarrow> \<not> (\<forall>i k. gate W i k)" "\<not> round_ok res \<Longrightarrow> fault" for res n'
    using that p1 unchanged_view [OF that(1), of T] by (auto simp: turn_def)
  have all: "turn F policy W request result n p j (Return res, n', p1)"
    if "here.pushed F r n n'" "\<not> round_ok res" fault for res n'
    using that p1 j(1) r by (auto simp: turn_def here.pushed_def Let_def intro!: exI [of _ "snd r"])
  obtain x n1 where run: "handle_push M T policy ?q n = (x, n1)" by (metis prod.exhaust)
  note P = push_run [OF I r run [unfolded j(3)]]
  obtain y n2 where cur: "applied_cursor M T n1 = (y, n2)" by (metis prod.exhaust)
  show ?thesis
  proof (cases "gate W i 3 \<and> gate W i 4")
    case False
    then have "turn F policy W request result n p 0 (Return (result\<lparr>round_has_more := has_more response\<rparr>), n, p1)"
      using result by (intro none) auto
    with False show ?thesis by (auto simp: apply_page_def leave_def)
  next
    case True
    show ?thesis
    proof (cases x)
      case (Inl e)
      with P have "turn F policy W request result n p 0 (Return (caught W result e), n1, p1) \<or>
          turn F policy W request result n p j (Return (caught W result e), n1, p1)"
        using none [of n1 "caught W result e"] all [of n1 "caught W result e"] by (auto simp: caught_def)
      with True Inl show ?thesis by (auto simp: apply_page_def attempt_def on_node_def run)
    next
      case (Inr response')
      with P have good: "push_ok response'" and pushed: "here.pushed F r n n1" by auto
      then have ready: "receiver_ready F (here.nview n1)" by (simp add: here.pushed_def)
      note C = cursor_run [OF ready cur]
      show ?thesis
      proof (cases y)
        case (Inl e)
        with C all [of n2 "caught W result e"] here.pushed_unchanged [OF pushed]
        have "turn F policy W request result n p j (Return (caught W result e), n2, p1)" by (auto simp: caught_def)
        with True Inr Inl good show ?thesis by (auto simp: apply_page_def attempt_def on_node_def run cur)
      next
        case (Inr cur')
        with C have c: "unchanged committed n1 n2" "cur' = applied_cursor_of (content (here.nview n2) t_applied)" by auto
        note N = round_inv_next [OF I r pushed c(1) p1 c(2)]
        have ne: "?due \<noteq> []" using j(1,2) by auto
        let ?res = "result\<lparr>batches_applied := batches_applied result + length (pull_batches response)\<rparr>"
        have fin: "finish_page (have_cursor request) (request\<lparr>have_cursor := cur'\<rparr>) ?res (has_more response) =
            Next (request\<lparr>have_cursor := cur'\<rparr>) (?res\<lparr>round_has_more := has_more response\<rparr>) (has_more response)"
          using N(3) [OF j(2) ne] by (simp add: finish_page_def)
        have "turn F policy W request result n p j (Next (request\<lparr>have_cursor := cur'\<rparr>)
            (?res\<lparr>round_has_more := has_more response\<rparr>) (has_more response), n2, p1)"
          using N(1,2,4) p1 j r result by (auto simp: turn_def Let_def intro!: exI [of _ "snd r"])
        with True \<open>x = Inr response'\<close> Inr good fin show ?thesis
          by (auto simp: apply_page_def attempt_def on_node_def run cur leave_def)
      qed
    qed
  qed
qed

lemma worker_page_turn:
  assumes I: "round_inv F request n p" and peer: "peer_pull W = handle_pull M' T' h"
    and spec: "push_spec M policy (due_batches p (have_cursor request)) (content (here.nview n)) = Inr r0"
    and result: "round_ok result"
  shows "\<exists>k. turn F policy W request result n p k (worker_page M T policy W i request result again (n, p))"
proof -
  let ?due = "due_batches p (have_cursor request)" let ?resp = "pull_spec (there.nview p) request"
  let ?res = "result\<lparr>pages_pulled := pages_pulled result + 1\<rparr>"
  have none: "turn F policy W request result n p 0 (Return res, n, p1)"
    if "unchanged committed' p p1" "round_ok res \<Longrightarrow> \<not> (\<forall>i k. gate W i k)" "\<not> round_ok res \<Longrightarrow> fault" for res p1
    using that by (auto simp: turn_def)
  obtain x p1 where run: "handle_pull M' T' h request p = (x, p1)" by (metis prod.exhaust)
  note P = pull_run [OF I run]
  show ?thesis
  proof (cases "gate W i 0 \<and> gate W i 1")
    case False
    then have "turn F policy W request result n p 0 (Return (result\<lparr>round_has_more := again\<rparr>), n, p)"
      using result by (intro none) auto
    with False show ?thesis by (auto simp: worker_page_def leave_def)
  next
    case True
    show ?thesis
    proof (cases x)
      case (Inl e)
      with P none [of p1 "caught W result e"] have "turn F policy W request result n p 0 (Return (caught W result e), n, p1)"
        by (auto simp: caught_def)
      with True Inl show ?thesis by (auto simp: worker_page_def attempt_def on_peer_def peer run)
    next
      case (Inr response)
      with P have p1: "unchanged committed' p p1" and resp: "response = ?resp" by auto
      obtain j where j: "j \<le> length ?due" "pull_batches ?resp = take j ?due" "has_more ?resp \<longleftrightarrow> j < length ?due"
        "has_more ?resp \<Longrightarrow> j \<noteq> 0" "pull_ok ?resp"
        using pull_spec_page [OF I] by metis
      have page: "worker_page M T policy W i request result again (n, p) =
         (if \<not> gate W i 2 then leave (Return (?res\<lparr>round_has_more := has_more ?resp\<rparr>))
          else if pull_batches ?resp \<noteq> [] then apply_page M T policy W i request ?res ?resp
          else if has_more ?resp
          then leave (Return (?res\<lparr>round_ok := False, round_error := ''pull reported has_more without batches''\<rparr>))
          else leave (finish_page (have_cursor request) request ?res (has_more ?resp))) (n, p1)"
        using True Inr j(5) by (simp add: worker_page_def attempt_def on_peer_def peer run resp Let_def)
      show ?thesis
      proof (cases "gate W i 2")
        case False
        with none [OF p1, of "?res\<lparr>round_has_more := has_more ?resp\<rparr>"] result show ?thesis
          unfolding page by (auto simp: leave_def)
      next
        case g: True
        show ?thesis
        proof (cases "pull_batches ?resp = []")
          case False
          with j(2) have nz: "j \<noteq> 0" by auto
          obtain k where "turn F policy W request ?res n p k (apply_page M T policy W i request ?res ?resp (n, p1))"
            using apply_page_turn [OF I p1 spec _ j(1) nz j(2,3), of ?res W i] result by auto
          moreover have "batches_applied ?res = batches_applied result" by simp
          ultimately have "turn F policy W request result n p k (apply_page M T policy W i request ?res ?resp (n, p1))"
            by (simp only: turn_def)
          with g False show ?thesis unfolding page by auto
        next
          case True
          with j(1-4) have e: "?due = []" "j = 0" "\<not> has_more ?resp" by auto
          have "round_inv F request n p1" "due_batches p1 (have_cursor request) = ?due"
            using I unchanged_view [OF p1, of T'] by (simp_all add: round_inv_def due_batches_def)
          then have "turn F policy W request result n p 0
              (Next request (?res\<lparr>round_has_more := False\<rparr>) False, n, p1)"
            using e p1 result by (simp add: turn_def)
          with g True e(3) show ?thesis unfolding page by (auto simp: leave_def finish_page_def)
        qed
      qed
    qed
  qed
qed

text \<open>The whole loop.\<close>

lemma worker_pages_run:
  assumes peer: "peer_pull W = handle_pull M' T' h"
  shows "round_inv F request n p \<Longrightarrow>
    push_spec M policy (due_batches p (have_cursor request)) (content (here.nview n)) = Inr r0 \<Longrightarrow>
    round_ok result \<Longrightarrow> length (due_batches p (have_cursor request)) < k \<Longrightarrow>
    worker_pages k M T policy W drain i request result again (n, p) = (out, n', p') \<Longrightarrow>
    unchanged committed' p p' \<and> (\<exists>res j bs. out = Some res \<and> j \<le> length (due_batches p (have_cursor request)) \<and>
      push_spec M policy (take j (due_batches p (have_cursor request))) (content (here.nview n)) =
        Inr (content (here.nview n'), bs) \<and>
      (round_ok res \<or> fault) \<and>
      (round_ok res \<longrightarrow> drain \<longrightarrow> (\<forall>i k. gate W i k) \<longrightarrow>
        j = length (due_batches p (have_cursor request)) \<and> \<not> round_has_more res \<and>
        batches_applied res = batches_applied result + j))"
proof (induction k arbitrary: request n p r0 result i again)
  case (Suc k)
  let ?due = "due_batches p (have_cursor request)"
  obtain step n1 p1 where page: "worker_page M T policy W i request result again (n, p) = (step, n1, p1)"
    by (metis prod.exhaust)
  obtain j where "turn F policy W request result n p j (step, n1, p1)"
    using worker_page_turn [OF Suc.prems(1) peer Suc.prems(2,3), of i again] page by auto
  then obtain bs where t: "unchanged committed' p p1" "j \<le> length ?due"
      "push_spec M policy (take j ?due) (content (here.nview n)) = Inr (content (here.nview n1), bs)"
    and s: "case step of
        Return res \<Rightarrow> (round_ok res \<longrightarrow> \<not> (\<forall>i k. gate W i k)) \<and> (\<not> round_ok res \<longrightarrow> fault)
      | Next req res again \<Rightarrow> round_inv F req n1 p1 \<and> due_batches p1 (have_cursor req) = drop j ?due \<and>
          again = (j < length ?due) \<and> (again \<longrightarrow> j \<noteq> 0) \<and> round_ok res \<and> round_has_more res = again \<and>
          batches_applied res = batches_applied result + j"
    by (auto simp: turn_def Let_def)
  show ?case
  proof (cases step)
    case (Return res)
    with Suc.prems(5) page s t show ?thesis by auto
  next
    case (Next req res again')
    with s have N: "round_inv F req n1 p1" "due_batches p1 (have_cursor req) = drop j ?due"
      "again' = (j < length ?due)" "again' \<Longrightarrow> j \<noteq> 0" "round_ok res" "round_has_more res = again'"
      "batches_applied res = batches_applied result + j" by auto
    show ?thesis
    proof (cases "again' \<and> drain")
      case False
      then have "out = Some res" "n' = n1" "p' = p1" using Suc.prems(5) page Next by auto
      with False N t show ?thesis by (intro conjI exI [of _ res] exI [of _ j] exI [of _ bs]) auto
    next
      case True
      then have go: "worker_pages k M T policy W drain (i + 1) req res again' (n1, p1) = (out, n', p')"
        using Suc.prems(5) page Next by simp
      obtain r1 where r1: "push_spec M policy (drop j ?due) (content (here.nview n1)) = Inr r1"
        using push_spec_take [OF Suc.prems(2), of j] t(3) by auto
      have len: "length (drop j ?due) < k" using Suc.prems(4) N(3,4) True by simp
      from Suc.IH [OF N(1) r1 [folded N(2)] N(5) len [folded N(2)] go] obtain res' j' bs' where
        R: "unchanged committed' p1 p'" "out = Some res'" "j' \<le> length (drop j ?due)"
          "push_spec M policy (take j' (drop j ?due)) (content (here.nview n1)) = Inr (content (here.nview n'), bs')"
          "round_ok res' \<or> fault"
          "round_ok res' \<longrightarrow> drain \<longrightarrow> (\<forall>i k. gate W i k) \<longrightarrow> j' = length (drop j ?due) \<and> \<not> round_has_more res' \<and>
             batches_applied res' = batches_applied res + j'"
        unfolding N(2) by blast
      have "take (j + j') ?due = take j ?due @ take j' (drop j ?due)" by (rule take_add)
      then have "push_spec M policy (take (j + j') ?due) (content (here.nview n)) = Inr (content (here.nview n'), bs @ bs')"
        using t(3) R(4) by (simp add: push_spec_append)
      moreover have "j + j' \<le> length ?due" using R(3) t(2) by simp
      ultimately show ?thesis
        using unchanged_trans [OF t(1) R(1)] R(2,5,6) N(7) t(2) by (intro conjI exI [of _ res'] exI [of _ "j + j'"]) auto
    qed
  qed
qed simp

text \<open>A round from its beginning.\<close>

lemma run_once_run:
  assumes peer: "peer_pull W = handle_pull M' T' h"
    and req: "request = first_request options (meta_node_id (content (here.nview n) t_meta))
      (meta_db_uuid (content (here.nview n) t_meta)) (applied_cursor_of (content (here.nview n) t_applied))"
    and I: "round_inv F request n p"
    and spec: "push_spec M policy (due_batches p (have_cursor request)) (content (here.nview n)) = Inr r0"
    and k: "length (due_batches p (have_cursor request)) < k"
    and run: "run_once_impl k M T policy W options (n, p) = (out, n', p')"
  shows "unchanged committed' p p' \<and> (\<exists>res j bs. out = Some res \<and> j \<le> length (due_batches p (have_cursor request)) \<and>
      push_spec M policy (take j (due_batches p (have_cursor request))) (content (here.nview n)) =
        Inr (content (here.nview n'), bs) \<and>
      (round_ok res \<or> fault) \<and>
      (round_ok res \<longrightarrow> drain_pages options \<longrightarrow> (\<forall>i k. gate W i k) \<longrightarrow>
        j = length (due_batches p (have_cursor request)) \<and> \<not> round_has_more res \<and> batches_applied res = j))"
    (is "?goal out n' p'")
proof -
  let ?a = "here.nview n"
  have ready: "receiver_ready F ?a" "receiver_inv ?a" "sys_ok ?a" "committed (node_env n) t_meta \<noteq> None"
    using I by (auto simp: round_inv_def receiver_ready_def receiver_inv_def)
  have bad: "?goal (Some (caught W new_round_result e)) n1 p" if "unchanged committed n n1" fault for e n1
    using that unchanged_view [OF that(1), of T]
    by (intro conjI exI [of _ "caught W new_round_result e"] exI [of _ 0] exI [of _ "[]"]) (auto simp: caught_def)
  obtain x1 n1 where r1: "local_node_id M T n = (x1, n1)" by (metis prod.exhaust)
  have "wp (local_node_id M T) (\<lambda>x n'. unchanged committed n n' \<and> x = meta_node_id (content ?a t_meta))
      (\<lambda>e n'. unchanged committed n n' \<and> fault) n"
    by (rule here.wp_local_node_id [OF ready(2,4)]) (auto dest: fault_here)
  with r1 have R1: "unchanged committed n n1" "case x1 of Inl e \<Rightarrow> fault | Inr i \<Rightarrow> i = meta_node_id (content ?a t_meta)"
    by (auto simp: wp_def split: sum.splits)
  note v1 = unchanged_view [OF R1(1), of T]
  obtain x2 n2 where r2: "db_uuid M T n1 = (x2, n2)" by (metis prod.exhaust)
  have "committed (node_env n1) t_meta \<noteq> None" using ready(4) R1(1) by (simp add: unchanged_def)
  then have "wp (db_uuid M T) (\<lambda>x n'. unchanged committed n1 n' \<and> x = meta_db_uuid (content (here.nview n1) t_meta))
      (\<lambda>e n'. unchanged committed n1 n' \<and> fault) n1"
    by (intro here.wp_db_uuid) (use ready(3) v1 in \<open>auto dest: fault_here\<close>)
  with r2 have R2: "unchanged committed n1 n2" "case x2 of Inl e \<Rightarrow> fault | Inr i \<Rightarrow> i = meta_db_uuid (content ?a t_meta)"
    using v1 by (auto simp: wp_def split: sum.splits)
  note u2 = unchanged_trans [OF R1(1) R2(1)]
  obtain x3 n3 where r3: "applied_cursor M T n2 = (x3, n3)" by (metis prod.exhaust)
  have "receiver_ready F (here.nview n2)" using ready(1) unchanged_view [OF u2, of T] by simp
  note R3 = cursor_run [OF this r3]
  note u3 = unchanged_trans [OF u2 conjunct1 [OF R3]]
  have v3: "here.nview n3 = ?a" by (rule unchanged_view [OF u3])
  have inv: "round_inv F request n3 p" using I v3 by (simp add: round_inv_def)
  show ?thesis
  proof (cases "isl x1 \<or> isl x2 \<or> isl x3")
    case True
    then show ?thesis
      using run r1 r2 r3 R1 R2 R3 u2 u3 bad
      by (auto simp: run_once_impl_def attempt_def on_node_def Let_def isl_def split: sum.splits)
  next
    case False
    then have "x1 = Inr (meta_node_id (content ?a t_meta))" "x2 = Inr (meta_db_uuid (content ?a t_meta))"
      "x3 = Inr (applied_cursor_of (content ?a t_applied))"
      using R1(2) R2(2) R3 v3 by (auto simp: isl_def split: sum.splits)
    then have go: "worker_pages k M T policy W (drain_pages options) 0 request new_round_result False (n3, p) = (out, n', p')"
      using run r1 r2 r3 req by (simp add: run_once_impl_def attempt_def on_node_def Let_def)
    have "round_ok new_round_result" "batches_applied new_round_result = 0" by (simp_all add: new_round_result_def)
    with worker_pages_run [OF peer inv _ _ k go, unfolded v3, OF spec] show ?thesis by simp
  qed
qed

lemma round_run:
  assumes ab: "a = here.nview n" "b = there.nview p"
    and ready: "receiver_ready F a" "flags_ok M F" "source_ready b"
    and db: "meta_db_uuid (content b t_meta) = meta_db_uuid (content a t_meta)"
      "\<not> is_zero_sync_id (meta_db_uuid (content a t_meta))"
    and req: "request = first_request options (meta_node_id (content a t_meta)) (meta_db_uuid (content a t_meta))
      (applied_cursor_of (content a t_applied))"
    and lg: "lg = content b t_changelog" "ix = content b t_origins" "servable lg ix request"
    and todo: "todo = map fst (dues lg (have_cursor request) (origins_of lg ix))"
      "\<forall>x \<in> set todo. flags_agree M F x \<and> origin_node_id x \<noteq> meta_node_id (content a t_meta)"
    and spec: "push_spec M policy todo (content a) = Inr (c', bs)"
    and peer: "peer_pull W = direct_pull M' T' h" and k: "card (dom lg) < k"
    and run: "run_once_impl k M T policy W options (n, p) = (out, n', p')"
  shows "content (there.nview p') = content b \<and>
    (\<exists>res j bs'. out = Some res \<and> push_spec M policy (take j todo) (content a) = Inr (content (here.nview n'), bs') \<and>
      (round_ok res \<or> fault) \<and>
      (round_ok res \<and> drain_pages options \<and> (\<forall>i g. gate W i g) \<longrightarrow>
        content (here.nview n') = c' \<and> batches_applied res = length todo \<and> \<not> round_has_more res \<and>
        newer lg (applied_cursor_of (content (here.nview n') t_applied)) = {}))"
proof -
  have d: "due_batches p (have_cursor request) = todo" by (simp add: due_batches_def todo(1) lg ab Let_def)
  have ids: "same_db (here.nview n) (pull_db_id request)" "same_db (there.nview p) (pull_db_id request)"
    using db ab req by (simp_all add: same_db_def first_request_def is_zero_sync_id_def)
  have cur: "have_cursor request = applied_cursor_of (content (here.nview n) t_applied)"
    using req ab by (simp add: first_request_def)
  have I: "round_inv F request n p"
    unfolding round_inv_def d using ready ids cur lg todo(2) ab by auto
  have log: "pull_log lg ix" using ready(3) lg by (simp add: source_ready_def)
  have "length todo < k" using length_dues [OF log, of "have_cursor request"] k by (simp add: todo(1))
  with run_once_run [OF peer [unfolded direct_pull_def] req [unfolded ab] I, unfolded d, OF spec [unfolded ab] _ run]
  obtain res j bs' where p': "unchanged committed' p p'" and R: "out = Some res" "j \<le> length todo"
    "push_spec M policy (take j todo) (content (here.nview n)) = Inr (content (here.nview n'), bs')"
    "round_ok res \<or> fault"
    "round_ok res \<longrightarrow> drain_pages options \<longrightarrow> (\<forall>i k. gate W i k) \<longrightarrow>
      j = length todo \<and> \<not> round_has_more res \<and> batches_applied res = j"
    by blast
  have all: "content (here.nview n') = c' \<and> newer lg (applied_cursor_of (content (here.nview n') t_applied)) = {}" if "j = length todo"
  proof -
    have c': "content (here.nview n') = c'" using R(3) spec that ab by simp
    have "\<forall>x \<in> set (dues lg (have_cursor request) (origins_of lg ix)).
        origin_node_id (fst x) \<noteq> meta_node_id (content (here.nview n) t_meta) \<and> is_node_id (origin_node_id (fst x))"
      using todo ab by (auto simp: flags_agree_def)
    moreover have "meta_node_ok (content (here.nview n) t_meta)"
      using ready(1) ab by (simp add: receiver_ready_def receiver_inv_def)
    moreover have "agrees (have_cursor request) (content (here.nview n) t_applied)"
      "agrees (applied_cursor_of (content (here.nview n') t_applied)) (content (here.nview n') t_applied)"
      unfolding cur by (intro agrees_applied here.content_finite)+
    ultimately have "dues lg (applied_cursor_of (content (here.nview n') t_applied)) (origins_of lg ix) =
        drop (length todo) (dues lg (have_cursor request) (origins_of lg ix))"
      using R(3) that unfolding todo(1) take_map by (intro page_applied(1) [OF log lg(3)]) auto
    then have "dues lg (applied_cursor_of (content (here.nview n') t_applied)) (origins_of lg ix) = []"
      by (simp add: todo(1))
    with dues_newer [OF log, of "applied_cursor_of (content (here.nview n') t_applied)"] c' show ?thesis by simp
  qed
  show ?thesis
    using R all unchanged_view [OF p', of T'] ab
    by (intro conjI exI [of _ res] exI [of _ j] exI [of _ bs']) auto
qed

end

end
