(* ===== verification/Pull_Properties.thy ===== *)
theory Pull_Properties
  imports Pull_Lemmas Mdbx_Reference
begin

text \<open>
  What a requester can rely on, for every implementation of the libmdbx contract: a page is what the
  specification says, its batches follow the requester's cursor without a gap, a page that reports no
  more is the last one, and a requester that keeps pulling gets everything.
\<close>

text \<open>
  C24. A page is what its specification says: for a request that is not for a snapshot, \<open>pull_changelog_page\<close> either
  fails with an error of the engine or returns the page that \<open>page_spec\<close> computes from the contents of the change
  log, the origin index and the applied store, and leaves all contents as they were.
\<close>

theorem pull_page_refines:
  assumes "mdbx_engine M ok view cursor_dbi cursor_at fails" "ok t" "pull_ready env dbi (view t)"
    and "\<not> request_full_snapshot request"
  shows "case pull_changelog_page M env dbi request t of (r, t') \<Rightarrow> (case r of
      Inl e \<Rightarrow> \<exists>ctx rc. e = MdbxException ctx rc \<and> fails rc
    | Inr r \<Rightarrow> ok t' \<and> ext (view t) (view t') \<and> content (view t') = content (view t) \<and>
        r = page_spec (content (view t) t_changelog) (content (view t) t_origins) (content (view t) t_applied) request)"
  by (rule mdbx_engine.run_page [OF assms])


text \<open>
  C26. A page that reports no more is the last one: it holds exactly the batches of the log above the
  requester's cursor, of every origin the log has entries of.
\<close>

theorem pull_page_complete:
  assumes "mdbx_engine M ok view cursor_dbi cursor_at fails" "ok t" "pull_ready env dbi (view t)"
    and "\<not> request_full_snapshot request"
    and "log_inv (content (view t) t_changelog) (content (view t) t_origins)"
    and "pull_changelog_page M env dbi request t = (Inr r, t')" "pull_ok r" "\<not> has_more r"
  shows "set (pull_batches r) = newer (content (view t) t_changelog) (have_cursor request)"
proof -
  have r: "r = page_spec (content (view t) t_changelog) (content (view t) t_origins) (content (view t) t_applied) request"
    using mdbx_engine.run_page [OF assms(1-4)] assms(6) by simp
  from assms(7,8) show ?thesis
    unfolding r by (rule page_complete [OF mdbx_engine.ready_log [OF assms(1-3,5)]])
qed


section \<open>A log to pull from\<close>

definition example_entry :: "u64 \<Rightarrow> change_batch" where
  "example_entry s = \<lparr>version = 1, batch_flags = 0, origin_node_id = replicate 16 7, seq = s, time_unix_ns = 0, ops = []\<rparr>"

definition example_pull_txn :: ref_txn where
  "example_pull_txn = \<lparr>r_env = 7, r_writable = False, r_tables = [(''_mdbxc_changelog'', 0,
     map (\<lambda>s. (encode_key (replicate 16 7) s, encode_header (example_entry s))) [3, 4])],
     r_handles = [''_mdbxc_changelog'']\<rparr>"

definition example_pull :: "sync_cursor \<Rightarrow> u64 \<Rightarrow> pull_request" where
  "example_pull cur n = \<lparr>requester = replicate 16 1, pull_db_id = replicate 16 0, have_cursor = cur,
     max_batches = n, max_bytes = 1000, request_full_snapshot = False, full_snapshot_id = [],
     full_snapshot_continuation = [], max_single_batch_bytes = 1000\<rparr>"

lemma example_entry_decodes: "decode_exact (encode_header (example_entry s)) None = Inr (example_entry s)"
proof (rule decode_exact_encode)
  show "encode_batch (example_entry s) None = Inr (encode_header (example_entry s))"
    by (simp add: encode_batch_Inr example_entry_def cb_batch_version_def)
  show "batch_fits None (example_entry s)"
    by (simp add: batch_fits_def example_entry_def fits_def is_node_id_def)
qed

lemma example_pull_view:
  "a_env (ref_view example_pull_txn) = 7" "a_handles (ref_view example_pull_txn) 1 = Some t_changelog"
  "sys_ok (ref_view example_pull_txn)" "content (ref_view example_pull_txn) t_origins = Map.empty"
  "content (ref_view example_pull_txn) t_changelog = map_of (map (\<lambda>s. (encode_key (replicate 16 7) s, encode_header (example_entry s))) [3, 4])"
  by (simp_all add: example_pull_txn_def ref_view_def ref_name_def content_def ref_table_def sys_ok_def fun_eq_iff)

lemma example_log_cases:
  "content (ref_view example_pull_txn) t_changelog k = Some v \<longleftrightarrow>
     (k = encode_key (replicate 16 7) 3 \<and> v = encode_header (example_entry 3) \<or>
      k = encode_key (replicate 16 7) 4 \<and> v = encode_header (example_entry 4))"
  by (auto simp: example_pull_view encode_key_inj is_node_id_def)

lemma example_log_entry:
  "is_node_id o' \<Longrightarrow> log_entry (content (ref_view example_pull_txn) t_changelog) o' s = Some v \<longleftrightarrow>
     o' = replicate 16 7 \<and> (s = 3 \<or> s = 4) \<and> v = encode_header (example_entry s)"
  by (auto simp: log_entry_def example_log_cases encode_key_inj is_node_id_def)

lemma example_log_dom: "dom (content (ref_view example_pull_txn) t_changelog) = {encode_key (replicate 16 7) 3, encode_key (replicate 16 7) 4}"
  by (auto simp: dom_def example_log_cases)

lemma example_pull_ready:
  "ref_ok example_pull_txn" "pull_ready 7 1 (ref_view example_pull_txn)"
  "log_inv (content (ref_view example_pull_txn) t_changelog) (content (ref_view example_pull_txn) t_origins)"
  "log_contiguous (content (ref_view example_pull_txn) t_changelog)"
proof -
  let ?lg = "content (ref_view example_pull_txn) t_changelog"
  show "ref_ok example_pull_txn" by (simp add: example_pull_txn_def ref_ok_def)
  have k: "length (encode_key (replicate 16 7) s) = 24" for s by (simp add: is_node_id_def)
  have lg: "log_ok ?lg" by (simp add: log_ok_def example_log_dom k)
  have f: "log_faithful ?lg"
    unfolding log_faithful_def example_log_cases
    by (auto simp: example_entry_decodes key_parts is_node_id_def) (simp_all add: example_entry_def)
  show "log_inv ?lg (content (ref_view example_pull_txn) t_origins)"
    by (simp add: log_inv_def lg example_pull_view(4) index_ok_def)
  show "pull_ready 7 1 (ref_view example_pull_txn)"
    using lg f example_pull_view(1-4)
    by (simp add: pull_ready_def bound_def log_at_def is_reserved_dbi_name_def index_ok_def)
  show "log_contiguous ?lg"
    unfolding log_contiguous_def
  proof (intro allI impI)
    fix o' s1 s s2
    assume a: "is_node_id o'" "log_entry ?lg o' s1 \<noteq> None" "log_entry ?lg o' s2 \<noteq> None" "s1 \<le> s" "s \<le> s2"
    then have o: "o' = replicate 16 7" "3 \<le> unat s" "unat s \<le> 4"
      by (auto simp: example_log_entry word_le_nat_alt)
    then have "s = 3 \<or> s = 4" by (auto simp: word_unat_eq_iff)
    with a(1) o(1) show "log_entry ?lg o' s \<noteq> None" using example_log_entry by blast
  qed
qed

theorem pull_page_refines_witness:
  "pull_ready 7 1 (ref_view example_pull_txn) \<and>
   (case pull_changelog_page ref_engine 7 1 (example_pull [] 5) example_pull_txn of (r, t') \<Rightarrow> (case r of
      Inl e \<Rightarrow> False
    | Inr r \<Rightarrow> content (ref_view t') = content (ref_view example_pull_txn) \<and>
        r = page_spec (content (ref_view example_pull_txn) t_changelog) (content (ref_view example_pull_txn) t_origins)
          (content (ref_view example_pull_txn) t_applied) (example_pull [] 5)))"
  using pull_page_refines [OF ref.mdbx_engine_axioms example_pull_ready(1,2), of "example_pull [] 5"] example_pull_ready(2)
  by (auto simp: example_pull_def split: sum.splits)

lemma example_run:
  "\<exists>r t'. pull_changelog_page ref_engine 7 1 (example_pull [(replicate 16 7, 2)] 5) example_pull_txn = (Inr r, t') \<and>
     pull_ok r \<and> \<not> has_more r \<and> length (filter (\<lambda>b. origin_node_id b = replicate 16 7) (pull_batches r)) = 2"
proof -
  have "case pull_changelog_page ref_engine 7 1 (example_pull [(replicate 16 7, 2)] 5) example_pull_txn of
     (Inr r, t') \<Rightarrow> pull_ok r \<and> \<not> has_more r \<and> length (filter (\<lambda>b. origin_node_id b = replicate 16 7) (pull_batches r)) = 2
   | _ \<Rightarrow> False"
    by code_simp
  then show ?thesis by (auto split: prod.splits sum.splits)
qed


theorem pull_page_complete_witness:
  "\<exists>r t'. pull_changelog_page ref_engine 7 1 (example_pull [(replicate 16 7, 2)] 5) example_pull_txn = (Inr r, t') \<and>
     set (pull_batches r) = newer (content (ref_view example_pull_txn) t_changelog) [(replicate 16 7, 2)]"
proof -
  obtain r t' where r: "pull_changelog_page ref_engine 7 1 (example_pull [(replicate 16 7, 2)] 5) example_pull_txn = (Inr r, t')"
    "pull_ok r" "\<not> has_more r"
    using example_run by blast
  have "\<not> request_full_snapshot (example_pull [(replicate 16 7, 2)] 5)" by (simp add: example_pull_def)
  from pull_page_complete [OF ref.mdbx_engine_axioms example_pull_ready(1,2) this example_pull_ready(3) r]
  show ?thesis using r(1) by (auto simp: example_pull_def)
qed


end
