(* ===== verification/Node_Properties.thy ===== *)
theory Node_Properties
  imports Worker_Spec Pull_Properties
begin

text \<open>
  What a node promises to its peers and to its observers, and what a round of the worker achieves
  between two nodes, for all storage engines that meet the contract.
\<close>

section \<open>An environment that never fails\<close>

type_synonym ref_env = "(string \<times> u32 \<times> (bytes \<times> bytes) list) list"

definition ref_txns :: "(ref_env, ref_txn) mdbx_txns" where
  "ref_txns = \<lparr>
     mdbx_txn_begin = (\<lambda>rdonly e. (MDBX_SUCCESS, \<lparr>r_env = 7, r_writable = \<not> rdonly, r_tables = e, r_handles = []\<rparr>, e)),
     mdbx_txn_commit = (\<lambda>t e. (MDBX_SUCCESS, r_tables t)),
     mdbx_txn_abort = (\<lambda>t e. (MDBX_SUCCESS, e)),
     env_handle = 7,
     rc_value = (\<lambda>_. 0)\<rparr>"

definition ref_committed :: "ref_env \<Rightarrow> string \<rightharpoonup> dbtable" where
  "ref_committed e name = map_option ref_table (map_of e name)"

interpretation refenv: mdbx_environment ref_engine ref_ok ref_view fst snd "\<lambda>_. False" ref_txns ref_committed
proof (unfold_locales, goal_cases)
  case (1 rdonly e rc t e')
  then show ?case by (auto simp: ref_txns_def ref_ok_def ref_view_def ref_committed_def fun_eq_iff)
next
  case (2 t e rc e')
  then show ?case by (auto simp: ref_txns_def ref_view_def ref_committed_def fun_eq_iff)
next
  case (3 t e rc e')
  then show ?case by (auto simp: ref_txns_def)
next
  case (4 e name tab)
  then show ?case by (auto simp: ref_committed_def ref_table_def finite_dom_map_of)
qed

interpretation refpair: replication ref_engine ref_ok ref_view fst snd "\<lambda>_. False" ref_txns ref_committed
  ref_engine ref_ok ref_view fst snd "\<lambda>_. False" ref_txns ref_committed
  by unfold_locales

section \<open>Pushes\<close>

lemma unchanged_content:
  "unchanged committed n n' \<Longrightarrow> content (node_view T committed n') = content (node_view T committed n)"
  using unchanged_view [of committed n n' T] by simp

text \<open>C3. A push is applied as a whole or not at all: a request for another database and a request with a
  batch in conflict are refused with their reason and change nothing; every other request leaves exactly
  the tables that its batches give one after the other, and reports the new cursor. A libmdbx error
  leaves either the old tables or all the new ones.\<close>

theorem push_all_or_nothing:
  assumes "mdbx_environment M ok view cursor_dbi cursor_at fails T committed"
    and "receiver_ready F (node_view T committed n)" "flags_ok M F"
    and "\<forall>b \<in> set (push_batches request). flags_agree M F b"
    and "a = node_view T committed n" "run = handle_push M T policy request n" "a' = node_view T committed (snd run)"
  shows "case fst run of
      Inl e \<Rightarrow> (\<exists>ctx rc. e = MdbxException ctx rc \<and> fails rc) \<and> (content a' = content a \<or>
        (\<exists>bs. push_spec M policy (push_batches request) (content a) = Inr (content a', bs)))
    | Inr response \<Rightarrow>
        if \<not> same_db a (push_db_id request) then response = mismatch_response a \<and> content a' = content a
        else (case push_spec M policy (push_batches request) (content a) of
          Inl v \<Rightarrow> response = conflict_response (rc_value T) v a \<and> content a' = content a
        | Inr (c', bs) \<Rightarrow> response = success_response a' \<and> content a' = c' \<and> receiver_ready F a')"
proof -
  note env = assms(1)
  let ?spec = "push_spec M policy (push_batches request) (content a)"
  have "wp (handle_push M T policy request) (\<lambda>response n'. let a' = node_view T committed n' in
      if \<not> same_db a (push_db_id request) then response = mismatch_response a \<and> content a' = content a
      else (case ?spec of
          Inl v \<Rightarrow> response = conflict_response (rc_value T) v a \<and> content a' = content a
        | Inr (c', bs) \<Rightarrow> response = success_response a' \<and> content a' = c' \<and> receiver_ready F a'))
      (\<lambda>e n'. (\<exists>ctx rc. e = MdbxException ctx rc \<and> fails rc) \<and> (content (node_view T committed n') = content a \<or>
        (\<exists>bs. ?spec = Inr (content (node_view T committed n'), bs)))) n"
    unfolding assms(5)
    by (rule mdbx_environment.wp_handle_push [OF env assms(2-4)])
      (auto simp: unchanged_content mdbx_environment.pushed_def [OF env] Let_def mdbx_engine.faulted_def
          [OF mdbx_environment.axioms(1) [OF env]] split: prod.splits)
  then show ?thesis
    unfolding assms(6,7) wp_def Let_def by (auto split: prod.splits sum.splits)
qed

text \<open>The tables of some batches, each once, in the order in which they are met.\<close>

definition names_of :: "change_batch list \<Rightarrow> string list" where
  "names_of bs = rev (remdups (rev (concat (map (\<lambda>b. map dbi_name (ops b)) bs))))"

lemma add_unique_names:
  "foldl (\<lambda>names op. add_unique_dbi_name names (dbi_name op)) (rev (remdups (rev xs))) os =
    rev (remdups (rev (xs @ map dbi_name os)))"
proof (induction os arbitrary: xs)
  case (Cons op os)
  have "add_unique_dbi_name (rev (remdups (rev xs))) (dbi_name op) = rev (remdups (rev (xs @ [dbi_name op])))"
    by (auto simp: add_unique_dbi_name_def list_ex_iff)
  with Cons [of "xs @ [dbi_name op]"] show ?case by simp
qed simp

lemma push_counts_eq:
  assumes "hit = filter (\<lambda>b. ops b \<noteq> []) bs"
  shows "push_counts bs (0, 0, []) = (length hit, sum_list (map (\<lambda>b. length (ops b)) hit), names_of hit)"
proof -
  have "fold count_batch hit (k, m, rev (remdups (rev xs))) = (k + length hit, m + sum_list (map (\<lambda>b. length (ops b)) hit),
      rev (remdups (rev (xs @ concat (map (\<lambda>b. map dbi_name (ops b)) hit)))))" for k m xs hit
  proof (induction hit arbitrary: k m xs)
    case (Cons b hit)
    have "count_batch b (k, m, rev (remdups (rev xs))) =
        (k + 1, m + length (ops b), rev (remdups (rev (xs @ map dbi_name (ops b)))))"
      by (simp add: count_batch_def add_unique_names del: rev_append)
    with Cons [of "k + 1" "m + length (ops b)" "xs @ map dbi_name (ops b)"] show ?case by (simp del: rev_append)
  qed simp
  from this [of hit 0 0 "[]"] show ?thesis by (simp add: push_counts_def names_of_def assms)
qed

text \<open>C38. Observers are told about committed changes only, once and completely: a push that is refused, or
  whose batches bring no operation that is new, tells nobody; any other push raises the generation by one and
  calls every observer that asked for one of the changed tables once, in the order of registration, with the number
  of batches and operations that were applied and the names of their tables.\<close>

theorem push_notifies_observers:
  assumes "mdbx_environment M ok view cursor_dbi cursor_at fails T committed"
    and "receiver_ready F (node_view T committed n)" "flags_ok M F"
    and "\<forall>b \<in> set (push_batches request). flags_agree M F b"
    and "distinct (map obs_token (m_sync_apply_observers n))"
    and "handle_push M T policy request n = (Inr response, n')"
    and "hit = (case push_spec M policy (push_batches request) (content (node_view T committed n)) of
      Inl v \<Rightarrow> [] | Inr (c', bs) \<Rightarrow> filter (\<lambda>b. ops b \<noteq> []) bs)"
    and "event = \<lparr>generation = m_sync_apply_generation n + 1, applied_batches = length hit,
      applied_ops = sum_list (map (\<lambda>b. length (ops b)) hit), affected_dbi_names = names_of hit\<rparr>"
  shows "m_sync_apply_observers n' = m_sync_apply_observers n \<and>
    (if push_ok response \<and> hit \<noteq> []
     then m_sync_apply_generation n' = generation event \<and> delivered n' = delivered n @
       map (\<lambda>st. (obs_token st, event)) (filter (wants (names_of hit)) (m_sync_apply_observers n))
     else m_sync_apply_generation n' = m_sync_apply_generation n \<and> delivered n' = delivered n)"
    (is "?goal response n'")
proof -
  note env = assms(1)
  have same: "?goal r n1" if "unchanged committed n n1" "\<not> push_ok r" for r n1
    using that by (auto simp: unchanged_def dest: arg_cong [where f = m_sync_apply_observers]
        arg_cong [where f = delivered] arg_cong [where f = m_sync_apply_generation])
  have told: "?goal r n1" if p: "mdbx_environment.pushed T committed F (c', bs) n n1" "push_ok r"
    and spec: "push_spec M policy (push_batches request) (content (node_view T committed n)) = Inr (c', bs)" for r n1 c' bs
  proof -
    have hit: "hit = filter (\<lambda>b. ops b \<noteq> []) bs" using assms(7) spec by simp
    have "n1 = (notified (length hit, sum_list (map (\<lambda>b. length (ops b)) hit), names_of hit) n)\<lparr>node_env := node_env n1\<rparr>"
      using p(1) unfolding mdbx_environment.pushed_def [OF env] push_counts_eq [OF hit] snd_conv by blast
    moreover have "?goal r ((notified (length hit, sum_list (map (\<lambda>b. length (ops b)) hit), names_of hit) n)\<lparr>node_env := e\<rparr>)" for e
    proof (cases "hit = []")
      case True
      then show ?thesis by (simp add: notified_def)
    next
      case False
      with p(2) show ?thesis by (simp add: notified_eq [OF assms(5)] assms(8))
    qed
    ultimately show ?thesis by metis
  qed
  have "wp (handle_push M T policy request) ?goal (\<lambda>_ _. True) n"
  proof (rule mdbx_environment.wp_handle_push [OF env assms(2-4)], goal_cases)
    case (1 n1)
    then show ?case by (intro same) (simp_all add: mismatch_response_def)
  next
    case (2 v n1)
    then show ?case by (intro same) (simp_all add: conflict_response_def)
  next
    case (3 r n1)
    then show ?case by (intro told [of "fst r" "snd r"]) (simp_all add: success_response_def)
  qed simp
  with assms(6) show ?thesis by (simp add: wp_def)
qed

section \<open>A round between two nodes\<close>


section \<open>Two nodes\<close>

definition example_meta :: "u8 \<Rightarrow> string \<times> u32 \<times> (bytes \<times> bytes) list" where
  "example_meta i = (''_mdbxc_meta'', 0, [([1], replicate 16 9), ([2], replicate 16 i)])"

definition example_node :: "ref_env \<Rightarrow> ref_env node" where
  "example_node e = \<lparr>node_env = e, m_sync_apply_generation = 4, m_next_sync_apply_observer_token = 2,
     m_sync_apply_observers = [
       \<lparr>obs_token = 1, in_flight = 0, obs_removed = False, has_dbi_name_filter = True, obs_dbi_names = [''other'']\<rparr>,
       \<lparr>obs_token = 2, in_flight = 0, obs_removed = False, has_dbi_name_filter = True, obs_dbi_names = [''users'']\<rparr>],
     delivered = []\<rparr>"

definition example_push :: push_request where
  "example_push = \<lparr>sender = make_zero_node, push_db_id = replicate 16 9, push_batches = [example_incoming]\<rparr>"

definition example_flags :: "string \<rightharpoonup> u32" where
  "example_flags = [''users'' \<mapsto> 0]"

lemma example_runs:
  "\<exists>response n'. handle_push ref_engine ref_txns Reject example_push (example_node [example_meta 1]) = (Inr response, n') \<and>
     push_ok response"
proof -
  have "case handle_push ref_engine ref_txns Reject example_push (example_node [example_meta 1]) of
     (Inr response, n') \<Rightarrow> push_ok response | _ \<Rightarrow> False"
    by code_simp
  then show ?thesis by (auto split: prod.splits sum.splits)
qed

lemma example_node_env [simp]: "node_env (example_node e) = e"
  by (simp add: example_node_def)

lemma example_view:
  "a_tables (node_view ref_txns ref_committed (example_node e)) = ref_committed e"
  by (simp add: example_node_def)

lemma example_content:
  "content (node_view ref_txns ref_committed (example_node e)) name =
    (case map_of e name of None \<Rightarrow> Map.empty | Some t \<Rightarrow> map_of (snd t))"
  by (simp add: content_def example_view ref_committed_def ref_table_def split: option.splits)

lemma example_receiver:
  "receiver_ready example_flags (node_view ref_txns ref_committed (example_node [example_meta 1]))"
  "flags_ok ref_engine example_flags" "\<forall>b \<in> set (push_batches example_push). flags_agree ref_engine example_flags b"
  "distinct (map obs_token (m_sync_apply_observers (example_node [example_meta 1])))"
proof -
  show "receiver_ready example_flags (node_view ref_txns ref_committed (example_node [example_meta 1]))"
    by (simp add: receiver_ready_def receiver_inv_def example_content example_view ref_committed_def ref_table_def sys_ok_def
        example_meta_def meta_node_ok_def meta_keys modes_ok_def identity_ok_def compatible_def example_flags_def)
  show "flags_ok ref_engine example_flags"
    by (simp add: flags_ok_def example_flags_def is_reserved_dbi_name_def)
  show "\<forall>b \<in> set (push_batches example_push). flags_agree ref_engine example_flags b"
    by (simp add: example_push_def flags_agree_def example_incoming_def example_put_def is_node_id_def example_flags_def
        persistent_dbi_flags_def)
  show "distinct (map obs_token (m_sync_apply_observers (example_node [example_meta 1])))"
    by (simp add: example_node_def)
qed

theorem push_all_or_nothing_witness:
  "\<exists>response n'. handle_push ref_engine ref_txns Reject example_push (example_node [example_meta 1]) = (Inr response, n') \<and>
     response = success_response (node_view ref_txns ref_committed n') \<and>
     (\<exists>bs. push_spec ref_engine Reject [example_incoming] (content (node_view ref_txns ref_committed (example_node [example_meta 1]))) =
       Inr (content (node_view ref_txns ref_committed n'), bs))"
proof -
  obtain response n' where r: "handle_push ref_engine ref_txns Reject example_push (example_node [example_meta 1]) = (Inr response, n')"
    "push_ok response" using example_runs by blast
  have "if \<not> same_db (node_view ref_txns ref_committed (example_node [example_meta 1])) (push_db_id example_push)
      then \<not> push_ok response
      else (case push_spec ref_engine Reject (push_batches example_push)
          (content (node_view ref_txns ref_committed (example_node [example_meta 1]))) of
        Inl v \<Rightarrow> \<not> push_ok response
      | Inr (c', bs) \<Rightarrow> response = success_response (node_view ref_txns ref_committed n') \<and>
          content (node_view ref_txns ref_committed n') = c')"
    using push_all_or_nothing [OF refenv.mdbx_environment_axioms example_receiver(1-3) refl refl refl, of Reject]
    r(2) by (auto simp: r(1) mismatch_response_def conflict_response_def split: if_splits sum.splits)
  with r show ?thesis by (auto simp: example_push_def split: if_splits sum.splits)
qed

theorem push_notifies_observers_witness:
  "\<exists>response n'. handle_push ref_engine ref_txns Reject example_push (example_node [example_meta 1]) = (Inr response, n') \<and>
     delivered n' = [(2, \<lparr>generation = 5, applied_batches = 1, applied_ops = 1, affected_dbi_names = [''users'']\<rparr>)]"
proof -
  let ?spec = "push_spec ref_engine Reject (push_batches example_push)
    (content (node_view ref_txns ref_committed (example_node [example_meta 1])))"
  obtain response n' where r: "handle_push ref_engine ref_txns Reject example_push (example_node [example_meta 1]) = (Inr response, n')"
    "push_ok response" using example_runs by blast
  have hit: "(case ?spec of Inl v \<Rightarrow> [] | Inr (c', bs) \<Rightarrow> filter (\<lambda>b. ops b \<noteq> []) bs) = [example_incoming]"
    by code_simp
  have "names_of [example_incoming] = [''users'']" "length (ops example_incoming) = 1"
    by (simp_all add: names_of_def example_incoming_def example_put_def)
  with push_notifies_observers [OF refenv.mdbx_environment_axioms example_receiver r(1) hit [symmetric] refl] r
  show ?thesis
    by (simp add: example_node_def wants_def sync_apply_observer_matches_dbi_names_def)
qed

definition example_receiver_env :: ref_env where
  "example_receiver_env = [example_meta 1, (''_mdbxc_applied'', 0, [(replicate 16 7, write_u64_le 2)])]"

definition example_source_env :: ref_env where
  "example_source_env = example_meta 7 # r_tables example_pull_txn"



abbreviation "example_here \<equiv> node_view ref_txns ref_committed (example_node example_receiver_env)"
abbreviation "example_there \<equiv> node_view ref_txns ref_committed (example_node example_source_env)"
abbreviation "example_log \<equiv> content (ref_view example_pull_txn) t_changelog"

lemma example_pull_log: "pull_log example_log Map.empty"
proof -
  have "log_faithful example_log"
    unfolding log_faithful_def example_log_cases
    by (auto simp: example_entry_decodes key_parts is_node_id_def) (simp_all add: example_entry_def)
  with example_pull_ready(3) show ?thesis
    by (simp add: pull_log_def example_log_dom example_pull_view(4))
qed

lemma example_there:
  "content example_there t_changelog = example_log" "content example_there t_origins = Map.empty"
  "source_ready example_there" "meta_db_uuid (content example_there t_meta) = replicate 16 9"
proof -
  show c: "content example_there t_changelog = example_log" "content example_there t_origins = Map.empty"
    by (simp_all add: example_content example_source_env_def example_meta_def example_pull_view(5))
      (simp_all add: example_pull_txn_def)
  show "source_ready example_there"
    unfolding source_ready_def c
    using example_pull_log
    by (simp add: sys_ok_def example_view ref_committed_def ref_table_def example_source_env_def example_meta_def
        example_pull_txn_def)
  show "meta_db_uuid (content example_there t_meta) = replicate 16 9"
    by (simp add: example_content example_source_env_def example_meta_def meta_db_uuid_def meta_bytes_def meta_keys)
qed

lemma example_here:
  "receiver_ready Map.empty example_here" "flags_ok ref_engine Map.empty"
  "meta_db_uuid (content example_here t_meta) = replicate 16 9" "meta_node_id (content example_here t_meta) = replicate 16 1"
  "applied_cursor_of (content example_here t_applied) = [(replicate 16 7, 2)]"
proof -
  show "receiver_ready Map.empty example_here"
    by (simp add: receiver_ready_def receiver_inv_def example_content example_view ref_committed_def ref_table_def sys_ok_def
        example_receiver_env_def example_meta_def meta_node_ok_def meta_keys modes_ok_def identity_ok_def compatible_def)
  show "flags_ok ref_engine Map.empty" by (simp add: flags_ok_def)
  show "meta_db_uuid (content example_here t_meta) = replicate 16 9" "meta_node_id (content example_here t_meta) = replicate 16 1"
    by (simp_all add: example_content example_receiver_env_def example_meta_def meta_db_uuid_def meta_bytes_def meta_node_id_def meta_keys)
  show "applied_cursor_of (content example_here t_applied) = [(replicate 16 7, 2)]"
    by (simp add: example_content example_receiver_env_def example_meta_def applied_cursor_of_def
        rows_where_def applied_row_def)
qed




end
